(* ===== verification/Prelude.thy ===== *)
theory Prelude
  imports Main "HOL-Library.Word"
begin

text \<open>
  Shared vocabulary of the development: machine integers, the fallible results of Rust and
  its question-mark operator, byte encodings of integers, text (a Rust \<open>str\<close> as the list of
  its Unicode scalar values, with its UTF-8 bytes), time (\<open>Instant\<close> and \<open>Duration\<close>), and the
  retry loop that two components run against a deadline.
\<close>

section \<open>Machine integers\<close>

type_synonym u8 = "8 word"
type_synonym u16 = "16 word"
type_synonym u32 = "32 word"
type_synonym u64 = "64 word"
type_synonym bytes = "u8 list"

text \<open>The byte with a given value below 256 (the truncation \<open>as u8\<close> beyond).\<close>

definition byte_of :: "nat \<Rightarrow> u8" where
  "byte_of n = of_nat n"

lemma unat_byte_of [simp]: "n < 256 \<Longrightarrow> unat (byte_of n) = n"
  by (simp add: byte_of_def unat_of_nat)

lemma byte_of_eq_iff: "n < 256 \<Longrightarrow> byte_of n = w \<longleftrightarrow> n = unat w"
  by (metis unat_byte_of word_unat_eq_iff)

section \<open>Fallible results\<close>

text \<open>
  \<open>Result<T, E>\<close> is \<open>'e + 'a\<close>, with \<open>Inl\<close> for \<open>Err\<close> and \<open>Inr\<close> for \<open>Ok\<close>.
  \<open>and_then\<close> is what the question mark does, \<open>ensure\<close> is the macro of the same name and
  \<open>map_err\<close> rewraps an error.
\<close>

fun and_then :: "'e + 'a \<Rightarrow> ('a \<Rightarrow> 'e + 'b) \<Rightarrow> 'e + 'b" where
  "and_then (Inl e) f = Inl e"
| "and_then (Inr x) f = f x"

definition ensure :: "bool \<Rightarrow> 'e \<Rightarrow> 'e + unit" where
  "ensure c e = (if c then Inr () else Inl e)"

fun map_err :: "('e \<Rightarrow> 'f) \<Rightarrow> 'e + 'a \<Rightarrow> 'f + 'a" where
  "map_err g (Inl e) = Inl (g e)"
| "map_err g (Inr x) = Inr x"

definition is_ok :: "'e + 'a \<Rightarrow> bool" where
  "is_ok r = (case r of Inl _ \<Rightarrow> False | Inr _ \<Rightarrow> True)"

named_theorems result_simps "rewriting fallible results to the values they carry"

lemma and_then_Inr_iff [result_simps]:
  "and_then r f = Inr y \<longleftrightarrow> (\<exists>x. r = Inr x \<and> f x = Inr y)"
  by (cases r) auto

lemma and_then_Inl_iff [result_simps]:
  "and_then r f = Inl e \<longleftrightarrow> r = Inl e \<or> (\<exists>x. r = Inr x \<and> f x = Inl e)"
  by (cases r) auto

lemma ensure_Inr_iff [simp, result_simps]: "ensure c e = Inr u \<longleftrightarrow> c"
  by (simp add: ensure_def)

lemma ensure_Inl_iff [simp, result_simps]: "ensure c e = Inl e' \<longleftrightarrow> \<not> c \<and> e' = e"
  by (auto simp: ensure_def)

lemma ensure_True [simp]: "ensure True e = Inr ()"
  and ensure_False [simp]: "ensure False e = Inl e"
  by (simp_all add: ensure_def)

lemma map_err_Inr_iff [simp, result_simps]: "map_err g r = Inr x \<longleftrightarrow> r = Inr x"
  by (cases r) auto

lemma map_err_Inl_iff [result_simps]: "map_err g r = Inl e \<longleftrightarrow> (\<exists>e'. r = Inl e' \<and> e = g e')"
  by (cases r) auto

lemma is_ok_simps [simp]: "is_ok (Inr x)" "\<not> is_ok (Inl e)"
  by (simp_all add: is_ok_def)

lemma is_ok_iff: "is_ok r \<longleftrightarrow> (\<exists>x. r = Inr x)"
  by (cases r) auto

text \<open>
  The same operator where a state is threaded through: a failing step returns at once, with
  the state it left behind.
\<close>

fun st_then :: "('e + 'a) \<times> 's \<Rightarrow> ('a \<Rightarrow> 's \<Rightarrow> ('e + 'b) \<times> 's) \<Rightarrow> ('e + 'b) \<times> 's" where
  "st_then (Inl e, s) f = (Inl e, s)"
| "st_then (Inr x, s) f = f x s"

text \<open>Lifting a fallible value that does not touch the state.\<close>

definition st_lift :: "'e + 'a \<Rightarrow> 's \<Rightarrow> ('e + 'a) \<times> 's" where
  "st_lift r s = (r, s)"

lemma st_then_Inr_iff [result_simps]:
  "st_then m f = (Inr y, t) \<longleftrightarrow> (\<exists>x s. m = (Inr x, s) \<and> f x s = (Inr y, t))"
  by (cases "(m, f)" rule: st_then.cases) auto

lemma st_then_Inl_iff [result_simps]:
  "st_then m f = (Inl e, t) \<longleftrightarrow>
   m = (Inl e, t) \<or> (\<exists>x s. m = (Inr x, s) \<and> f x s = (Inl e, t))"
  by (cases "(m, f)" rule: st_then.cases) auto

lemma st_lift_simps [simp]: "st_lift (Inr x) s = (Inr x, s)" "st_lift (Inl e) s = (Inl e, s)"
  by (simp_all add: st_lift_def)

section \<open>Integers as little-endian bytes\<close>

text \<open>\<open>to_le_bytes\<close> and \<open>from_le_bytes\<close> of the integer types, for any number of bytes.\<close>

fun to_le_bytes :: "nat \<Rightarrow> nat \<Rightarrow> bytes" where
  "to_le_bytes 0 n = []"
| "to_le_bytes (Suc k) n = byte_of (n mod 256) # to_le_bytes k (n div 256)"

fun from_le_bytes :: "bytes \<Rightarrow> nat" where
  "from_le_bytes [] = 0"
| "from_le_bytes (b # bs) = unat b + 256 * from_le_bytes bs"

lemma length_to_le_bytes [simp]: "length (to_le_bytes k n) = k"
  by (induction k arbitrary: n) auto

lemma from_to_le_bytes: "from_le_bytes (to_le_bytes k n) = n mod 256 ^ k"
proof (induction k arbitrary: n)
  case 0
  then show ?case by simp
next
  case (Suc k)
  have "n mod 256 + 256 * (n div 256 mod 256 ^ k) = n mod (256 * 256 ^ k)"
    by (simp add: mod_mult2_eq)
  with Suc show ?case by simp
qed

lemma from_le_bytes_less: "from_le_bytes bs < 256 ^ length bs"
proof (induction bs)
  case Nil
  then show ?case by simp
next
  case (Cons b bs)
  have "unat b < 256" using unsigned_less [of b] by simp
  with Cons show ?case by simp
qed

section \<open>Text\<close>

text \<open>
  A Rust \<open>str\<close> is UTF-8 text. The model keeps the list of its Unicode scalar values (what
  \<open>chars\<close> iterates over); its bytes are \<open>utf8\<close>, its \<open>len\<close> the number of bytes.
  \<open>lit\<close> turns an Isabelle literal into such a list.
\<close>

type_synonym rchar = nat
type_synonym rstr = "rchar list"

definition lit :: "string \<Rightarrow> rstr" where
  "lit s = map of_char s"

definition scalar :: "rchar \<Rightarrow> bool" where
  "scalar c \<longleftrightarrow> c < 0xD800 \<or> (0xE000 \<le> c \<and> c < 0x110000)"

definition str_ok :: "rstr \<Rightarrow> bool" where
  "str_ok s \<longleftrightarrow> list_all scalar s"

definition utf8_char :: "rchar \<Rightarrow> bytes" where
  "utf8_char c =
    (if c < 0x80 then [byte_of c]
     else if c < 0x800 then [byte_of (0xC0 + c div 64), byte_of (0x80 + c mod 64)]
     else if c < 0x10000 then
       [byte_of (0xE0 + c div 4096), byte_of (0x80 + c div 64 mod 64), byte_of (0x80 + c mod 64)]
     else
       [byte_of (0xF0 + c div 262144), byte_of (0x80 + c div 4096 mod 64),
        byte_of (0x80 + c div 64 mod 64), byte_of (0x80 + c mod 64)])"

definition utf8 :: "rstr \<Rightarrow> bytes" where
  "utf8 s = concat (map utf8_char s)"

definition str_len :: "rstr \<Rightarrow> nat" where
  "str_len s = length (utf8 s)"

lemma utf8_simps [simp]: "utf8 [] = []" "utf8 (c # s) = utf8_char c @ utf8 s"
  by (simp_all add: utf8_def)

text \<open>
  \<open>String::from_utf8_lossy\<close>: well-formed sequences decode, and every maximal prefix of a
  sequence that goes wrong becomes one replacement character.
\<close>

definition replacement :: rchar where
  "replacement = 0xFFFD"

definition cont :: "u8 \<Rightarrow> bool" where
  "cont b \<longleftrightarrow> 0x80 \<le> unat b \<and> unat b \<le> 0xBF"

definition second_ok :: "u8 \<Rightarrow> u8 \<Rightarrow> bool" where
  "second_ok b0 b1 \<longleftrightarrow>
    (if b0 = 0xE0 then 0xA0 \<le> unat b1 \<and> unat b1 \<le> 0xBF
     else if b0 = 0xED then 0x80 \<le> unat b1 \<and> unat b1 \<le> 0x9F
     else if b0 = 0xF0 then 0x90 \<le> unat b1 \<and> unat b1 \<le> 0xBF
     else if b0 = 0xF4 then 0x80 \<le> unat b1 \<and> unat b1 \<le> 0x8F
     else cont b1)"

definition seq_len :: "u8 \<Rightarrow> nat" where
  "seq_len b =
    (if unat b < 0x80 then 1
     else if 0xC2 \<le> unat b \<and> unat b \<le> 0xDF then 2
     else if 0xE0 \<le> unat b \<and> unat b \<le> 0xEF then 3
     else if 0xF0 \<le> unat b \<and> unat b \<le> 0xF4 then 4
     else 0)"

definition bits6 :: "u8 \<Rightarrow> nat" where
  "bits6 b = unat b mod 64"

fun lossy2 :: "u8 \<Rightarrow> bytes \<Rightarrow> rchar \<times> bytes" where
  "lossy2 b0 (b1 # r) =
     (if cont b1 then ((unat b0 - 0xC0) * 64 + bits6 b1, r) else (replacement, b1 # r))"
| "lossy2 b0 [] = (replacement, [])"

fun lossy3 :: "u8 \<Rightarrow> bytes \<Rightarrow> rchar \<times> bytes" where
  "lossy3 b0 (b1 # b2 # r) =
     (if \<not> second_ok b0 b1 then (replacement, b1 # b2 # r)
      else if \<not> cont b2 then (replacement, b2 # r)
      else ((unat b0 - 0xE0) * 4096 + bits6 b1 * 64 + bits6 b2, r))"
| "lossy3 b0 [b1] = (replacement, if second_ok b0 b1 then [] else [b1])"
| "lossy3 b0 [] = (replacement, [])"

fun lossy4 :: "u8 \<Rightarrow> bytes \<Rightarrow> rchar \<times> bytes" where
  "lossy4 b0 (b1 # b2 # b3 # r) =
     (if \<not> second_ok b0 b1 then (replacement, b1 # b2 # b3 # r)
      else if \<not> cont b2 then (replacement, b2 # b3 # r)
      else if \<not> cont b3 then (replacement, b3 # r)
      else ((unat b0 - 0xF0) * 262144 + bits6 b1 * 4096 + bits6 b2 * 64 + bits6 b3, r))"
| "lossy4 b0 [b1, b2] =
     (replacement, if \<not> second_ok b0 b1 then [b1, b2] else if \<not> cont b2 then [b2] else [])"
| "lossy4 b0 [b1] = (replacement, if second_ok b0 b1 then [] else [b1])"
| "lossy4 b0 [] = (replacement, [])"

definition lossy_next :: "u8 \<Rightarrow> bytes \<Rightarrow> rchar \<times> bytes" where
  "lossy_next b0 r =
    (if seq_len b0 = 1 then (unat b0, r)
     else if seq_len b0 = 2 then lossy2 b0 r
     else if seq_len b0 = 3 then lossy3 b0 r
     else if seq_len b0 = 4 then lossy4 b0 r
     else (replacement, r))"

lemma length_lossy2: "length (snd (lossy2 b r)) \<le> length r"
  by (induction b r rule: lossy2.induct) auto

lemma length_lossy3: "length (snd (lossy3 b r)) \<le> length r"
  by (induction b r rule: lossy3.induct) auto

lemma length_lossy4: "length (snd (lossy4 b r)) \<le> length r"
  by (induction b r rule: lossy4.induct) auto

lemma length_lossy_next: "length (snd (lossy_next b r)) \<le> length r"
  by (simp add: lossy_next_def length_lossy2 length_lossy3 length_lossy4)

function from_utf8_lossy :: "bytes \<Rightarrow> rstr" where
  "from_utf8_lossy [] = []"
| "from_utf8_lossy (b # r) = (let (c, r') = lossy_next b r in c # from_utf8_lossy r')"
  by pat_completeness auto
termination
proof (relation "measure length")
  fix b r x c r'
  assume "x = lossy_next b r" and "(c, r') = x"
  then have "lossy_next b r = (c, r')" by simp
  then have "length r' \<le> length r" using length_lossy_next [of b r] by simp
  then show "(r', b # r) \<in> measure length" by simp
qed auto

lemma scalar_less: "scalar c \<Longrightarrow> c < 0x110000"
  by (auto simp: scalar_def)

lemma bits6_byte_of: "n < 64 \<Longrightarrow> bits6 (byte_of (128 + n)) = n"
  using mod_mult_self3 [of 2 64 n] by (simp add: bits6_def)

lemma cont_byte_of: "n < 64 \<Longrightarrow> cont (byte_of (128 + n))"
  by (simp add: cont_def)

lemma seq_len_lead:
  "n < 128 \<Longrightarrow> seq_len (byte_of n) = 1"
  "2 \<le> n \<Longrightarrow> n < 32 \<Longrightarrow> seq_len (byte_of (192 + n)) = 2"
  "n < 16 \<Longrightarrow> seq_len (byte_of (224 + n)) = 3"
  "n < 5 \<Longrightarrow> seq_len (byte_of (240 + n)) = 4"
  by (simp_all add: seq_len_def)

lemma second_ok_three:
  assumes "k < 16" "j < 64" "k = 0 \<Longrightarrow> 32 \<le> j" "k = 13 \<Longrightarrow> j < 32"
  shows "second_ok (byte_of (224 + k)) (byte_of (128 + j))"
  using assms by (auto simp: second_ok_def byte_of_eq_iff cont_byte_of)

lemma second_ok_four:
  assumes "k < 5" "j < 64" "k = 0 \<Longrightarrow> 16 \<le> j" "k = 4 \<Longrightarrow> j < 16"
  shows "second_ok (byte_of (240 + k)) (byte_of (128 + j))"
  using assms by (auto simp: second_ok_def byte_of_eq_iff cont_byte_of)

lemma base64_digits:
  fixes c :: nat
  shows "c div 4096 * 4096 + c div 64 mod 64 * 64 + c mod 64 = c"
    and "c div 262144 * 262144 + c div 4096 mod 64 * 4096 + c div 64 mod 64 * 64 + c mod 64 = c"
proof -
  have d: "c div 4096 = c div 64 div 64" "c div 262144 = c div 4096 div 64"
    by (simp_all add: div_mult2_eq [symmetric])
  have m: "c div 64 * 64 + c mod 64 = c"
    "c div 4096 * 64 + c div 64 mod 64 = c div 64"
    "c div 262144 * 64 + c div 4096 mod 64 = c div 4096"
    by (simp_all add: d(1)) (simp_all add: d(2) div_mult_mod_eq flip: d(1))
  then show "c div 4096 * 4096 + c div 64 mod 64 * 64 + c mod 64 = c"
    and "c div 262144 * 262144 + c div 4096 mod 64 * 4096 + c div 64 mod 64 * 64 + c mod 64 = c"
    by linarith+
qed

lemma lossy_next_utf8:
  assumes "scalar c"
  shows "\<exists>b r'. utf8_char c = b # r' \<and> lossy_next b (r' @ r) = (c, r)"
proof -
  consider "c < 0x80" | "0x80 \<le> c" "c < 0x800" | "0x800 \<le> c" "c < 0x10000"
    | "0x10000 \<le> c" "c < 0x110000"
    using scalar_less [OF assms] by linarith
  then show ?thesis
  proof cases
    case 1
    then show ?thesis by (simp add: utf8_char_def lossy_next_def seq_len_lead)
  next
    case 2
    define k j where "k = c div 64" and "j = c mod 64"
    have "2 \<le> k" "k < 32" "j < 64" "k * 64 + j = c"
      using 2 by (auto simp: k_def j_def)
    then show ?thesis
      using 2 by (simp add: utf8_char_def lossy_next_def seq_len_lead cont_byte_of bits6_byte_of
          flip: k_def j_def)
  next
    case 3
    define k j i where "k = c div 4096" and "j = c div 64 mod 64" and "i = c mod 64"
    have kji: "k < 16" "j < 64" "i < 64"
      using 3 by (auto simp: k_def j_def i_def)
    have c: "k * 4096 + j * 64 + i = c"
      using base64_digits [of c] by (simp add: k_def j_def i_def)
    have "second_ok (byte_of (224 + k)) (byte_of (128 + j))"
      using kji c 3 assms by (intro second_ok_three) (auto simp: scalar_def)
    with kji c show ?thesis
      using 3 by (simp add: utf8_char_def lossy_next_def seq_len_lead cont_byte_of bits6_byte_of
          flip: k_def j_def i_def)
  next
    case 4
    define k j i h where "k = c div 262144" and "j = c div 4096 mod 64"
      and "i = c div 64 mod 64" and "h = c mod 64"
    have kji: "k < 5" "j < 64" "i < 64" "h < 64"
      using 4 by (auto simp: k_def j_def i_def h_def)
    have c: "k * 262144 + j * 4096 + i * 64 + h = c"
      using base64_digits [of c] by (simp add: k_def j_def i_def h_def)
    have "second_ok (byte_of (240 + k)) (byte_of (128 + j))"
      using kji c 4 by (intro second_ok_four) auto
    with kji c show ?thesis
      using 4 by (simp add: utf8_char_def lossy_next_def seq_len_lead cont_byte_of bits6_byte_of
          flip: k_def j_def i_def h_def)
  qed
qed

theorem from_utf8_lossy_utf8: "str_ok s \<Longrightarrow> from_utf8_lossy (utf8 s) = s"
proof (induction s)
  case Nil
  then show ?case by simp
next
  case (Cons c s)
  then obtain b r' where "utf8_char c = b # r'" "lossy_next b (r' @ utf8 s) = (c, utf8 s)"
    using lossy_next_utf8 [of c "utf8 s"] by (auto simp: str_ok_def)
  with Cons show ?case by (simp add: str_ok_def)
qed

lemma utf8_inject: "str_ok a \<Longrightarrow> str_ok b \<Longrightarrow> utf8 a = utf8 b \<longleftrightarrow> a = b"
  by (metis from_utf8_lossy_utf8)

section \<open>Character classes, trimming and number formats\<close>

text \<open>\<open>char::is_whitespace\<close>: the Unicode property White_Space.\<close>

definition is_whitespace :: "rchar \<Rightarrow> bool" where
  "is_whitespace c \<longleftrightarrow>
    (9 \<le> c \<and> c \<le> 13) \<or> c = 0x20 \<or> c = 0x85 \<or> c = 0xA0 \<or> c = 0x1680
    \<or> (0x2000 \<le> c \<and> c \<le> 0x200A) \<or> c = 0x2028 \<or> c = 0x2029 \<or> c = 0x202F \<or> c = 0x205F
    \<or> c = 0x3000"

definition trim_start :: "rstr \<Rightarrow> rstr" where
  "trim_start s = dropWhile is_whitespace s"

definition trim_end :: "rstr \<Rightarrow> rstr" where
  "trim_end s = rev (dropWhile is_whitespace (rev s))"

definition trim :: "rstr \<Rightarrow> rstr" where
  "trim s = trim_end (trim_start s)"

definition is_ascii_digit :: "rchar \<Rightarrow> bool" where
  "is_ascii_digit c \<longleftrightarrow> 48 \<le> c \<and> c \<le> 57"

definition is_ascii_upper :: "rchar \<Rightarrow> bool" where
  "is_ascii_upper c \<longleftrightarrow> 65 \<le> c \<and> c \<le> 90"

definition is_ascii_lower :: "rchar \<Rightarrow> bool" where
  "is_ascii_lower c \<longleftrightarrow> 97 \<le> c \<and> c \<le> 122"

definition is_ascii_alphanumeric :: "rchar \<Rightarrow> bool" where
  "is_ascii_alphanumeric c \<longleftrightarrow> is_ascii_digit c \<or> is_ascii_upper c \<or> is_ascii_lower c"

definition is_ascii_hexdigit :: "rchar \<Rightarrow> bool" where
  "is_ascii_hexdigit c \<longleftrightarrow>
    is_ascii_digit c \<or> (65 \<le> c \<and> c \<le> 70) \<or> (97 \<le> c \<and> c \<le> 102)"

definition to_ascii_lower :: "rchar \<Rightarrow> rchar" where
  "to_ascii_lower c = (if is_ascii_upper c then c + 32 else c)"

definition eq_ignore_ascii_case :: "rstr \<Rightarrow> rstr \<Rightarrow> bool" where
  "eq_ignore_ascii_case a b \<longleftrightarrow> map to_ascii_lower a = map to_ascii_lower b"

text \<open>Decimal and zero-padded upper-case hexadecimal.\<close>

fun show_nat :: "nat \<Rightarrow> rstr" where
  "show_nat n = (if n < 10 then [48 + n] else show_nat (n div 10) @ [48 + n mod 10])"

declare show_nat.simps [simp del]

definition hex_digit :: "nat \<Rightarrow> rchar" where
  "hex_digit n = (if n < 10 then 48 + n else 55 + n)"

fun hex_pad :: "nat \<Rightarrow> nat \<Rightarrow> rstr" where
  "hex_pad 0 n = []"
| "hex_pad (Suc k) n = hex_pad k (n div 16) @ [hex_digit (n mod 16)]"

definition hex_value :: "rchar \<Rightarrow> nat" where
  "hex_value c =
    (if is_ascii_digit c then c - 48 else if is_ascii_upper c then c - 55 else c - 87)"

definition parse_hex :: "rstr \<Rightarrow> nat" where
  "parse_hex s = foldl (\<lambda>n c. 16 * n + hex_value c) 0 s"

lemma trim_end_in_set: "c \<in> set (trim_end s) \<Longrightarrow> c \<in> set s"
  using set_dropWhileD [of c is_whitespace "rev s"] by (simp add: trim_end_def)

lemma trim_empty_iff: "trim s = [] \<longleftrightarrow> list_all is_whitespace s"
proof -
  have "trim s = [] \<longleftrightarrow> list_all is_whitespace (dropWhile is_whitespace s)"
    by (auto simp: trim_def trim_end_def trim_start_def dropWhile_eq_Nil_conv list_all_iff)
  also have "\<dots> \<longleftrightarrow> list_all is_whitespace s"
    by (induction s) auto
  finally show ?thesis .
qed

lemma length_hex_pad [simp]: "length (hex_pad k n) = k"
  by (induction k arbitrary: n) auto

lemma hex_value_digit: "d < 16 \<Longrightarrow> hex_value (hex_digit d) = d"
  by (simp add: hex_value_def hex_digit_def is_ascii_digit_def is_ascii_upper_def)

lemma parse_hex_pad: "parse_hex (hex_pad k n) = n mod 16 ^ k"
proof (induction k arbitrary: n)
  case 0
  then show ?case by (simp add: parse_hex_def)
next
  case (Suc k)
  have "n mod 16 + 16 * (n div 16 mod 16 ^ k) = n mod (16 * 16 ^ k)"
    by (simp add: mod_mult2_eq)
  with Suc [of "n div 16"] show ?case
    by (simp add: parse_hex_def hex_value_digit)
qed

lemma hex_pad_hexdigits: "list_all is_ascii_hexdigit (hex_pad k n)"
  by (induction k arbitrary: n)
    (auto simp: hex_digit_def is_ascii_hexdigit_def is_ascii_digit_def)

lemma hex_value_lower:
  "is_ascii_hexdigit c \<Longrightarrow> hex_value (to_ascii_lower c) = hex_value c"
  by (auto simp: hex_value_def to_ascii_lower_def is_ascii_hexdigit_def is_ascii_digit_def
      is_ascii_upper_def)

lemma hex_digit_value_lower:
  "is_ascii_hexdigit c \<Longrightarrow> to_ascii_lower (hex_digit (hex_value c)) = to_ascii_lower c"
  by (auto simp: hex_value_def to_ascii_lower_def is_ascii_hexdigit_def is_ascii_digit_def
      is_ascii_upper_def hex_digit_def)

lemma hex_value_less: "is_ascii_hexdigit c \<Longrightarrow> hex_value c < 16"
  by (auto simp: hex_value_def is_ascii_hexdigit_def is_ascii_digit_def is_ascii_upper_def)

lemma parse_hex_snoc: "parse_hex (s @ [c]) = 16 * parse_hex s + hex_value c"
  by (simp add: parse_hex_def)

lemma hex_pad_parse_hex:
  "list_all is_ascii_hexdigit s \<Longrightarrow>
   map to_ascii_lower (hex_pad (length s) (parse_hex s)) = map to_ascii_lower s"
proof (induction s rule: rev_induct)
  case Nil
  then show ?case by simp
next
  case (snoc c s)
  then have "hex_value c < 16" by (simp add: hex_value_less)
  with snoc show ?case
    by (simp add: parse_hex_snoc hex_digit_value_lower)
qed

lemma utf8_ascii: "list_all (\<lambda>c. c < 0x80) s \<Longrightarrow> utf8 s = map byte_of s"
  by (induction s) (auto simp: utf8_char_def)

lemma str_len_ascii: "list_all (\<lambda>c. c < 0x80) s \<Longrightarrow> str_len s = length s"
  by (simp add: str_len_def utf8_ascii)

end
