(* ===== verification/Timing.thy ===== *)
theory Timing
  imports Prelude
begin

text \<open>
  Time as the program sees it. An \<open>Instant\<close> is opaque and ordered, a \<open>Duration\<close> is a
  number of nanoseconds. The seconds of an instant are a signed 64-bit number (Unix), so adding
  a duration that leads past it panics: \<open>checked_add\<close> is the addition where the duration
  comes from the environment, \<open>after\<close> the one where it is a constant of at most an hour.

  \<open>retry_loop\<close> is the loop that the lease client and the lock file share: attempt, give
  up once the deadline has passed, sleep, attempt again. Its world, its clock and its sleep
  are arguments; the locale \<open>timed_world\<close> states what they promise, and its lemmas show
  that the loop ends and what its two outcomes mean.
\<close>

section \<open>Instants and durations\<close>

datatype instant = Instant (ns_of: nat)

type_synonym duration = nat

instantiation instant :: linorder
begin

definition less_eq_instant :: "instant \<Rightarrow> instant \<Rightarrow> bool" where
  "less_eq_instant a b \<longleftrightarrow> ns_of a \<le> ns_of b"

definition less_instant :: "instant \<Rightarrow> instant \<Rightarrow> bool" where
  "less_instant a b \<longleftrightarrow> ns_of a < ns_of b"

instance
  by standard (auto simp: less_eq_instant_def less_instant_def instant.expand)

end

definition after :: "instant \<Rightarrow> duration \<Rightarrow> instant" where
  "after t d = Instant (ns_of t + d)"

definition instant_limit :: nat where
  "instant_limit = 2 ^ 63 * 1000000000"

definition checked_add :: "instant \<Rightarrow> duration \<Rightarrow> instant option" where
  "checked_add t d = (if ns_of t + d < instant_limit then Some (after t d) else None)"

definition saturating_duration_since :: "instant \<Rightarrow> instant \<Rightarrow> duration" where
  "saturating_duration_since a b = ns_of a - ns_of b"

definition nanos_per_sec :: nat where
  "nanos_per_sec = 1000000000"

definition from_secs :: "nat \<Rightarrow> duration" where
  "from_secs s = s * nanos_per_sec"

definition from_millis :: "nat \<Rightarrow> duration" where
  "from_millis m = m * 1000000"

definition as_secs :: "duration \<Rightarrow> nat" where
  "as_secs d = d div nanos_per_sec"

named_theorems time_simps "instants and durations as arithmetic on nanoseconds"

lemmas [time_simps] = less_eq_instant_def less_instant_def saturating_duration_since_def
  after_def from_secs_def from_millis_def as_secs_def nanos_per_sec_def

lemma ns_of_after [simp]: "ns_of (after t d) = ns_of t + d"
  by (simp add: after_def)

lemma after_ge [simp]: "t \<le> after t d"
  by (simp add: time_simps)

lemma after_less_iff [simp]: "t < after t d \<longleftrightarrow> 0 < d"
  by (simp add: time_simps)

lemma checked_add_Some [simp]: "checked_add t d = Some u \<longleftrightarrow> ns_of t + d < instant_limit \<and> u = after t d"
  by (auto simp: checked_add_def)

lemma checked_add_None [simp]: "checked_add t d = None \<longleftrightarrow> instant_limit \<le> ns_of t + d"
  by (simp add: checked_add_def not_less)

lemma from_secs_overflows: "2 ^ 63 \<le> n \<Longrightarrow> instant_limit \<le> ns_of t + from_secs n"
  by (simp add: instant_limit_def from_secs_def nanos_per_sec_def trans_le_add2)

lemma after_mono: "a \<le> b \<Longrightarrow> after a d \<le> after b d"
  by (simp add: time_simps)

lemma as_secs_le: "d \<le> from_secs n \<Longrightarrow> as_secs d \<le> n"
  by (simp add: time_simps)

lemma as_secs_floor: "from_secs (as_secs d) \<le> d" "d < from_secs (Suc (as_secs d))"
  using dividend_less_div_times [of nanos_per_sec d]
  by (simp_all add: from_secs_def as_secs_def nanos_per_sec_def)

section \<open>Retrying until a deadline\<close>

partial_function (option) retry_loop ::
  "('w \<Rightarrow> 'w \<times> ('r + 'a)) \<Rightarrow> ('w \<Rightarrow> instant) \<Rightarrow> (duration \<Rightarrow> 'w \<Rightarrow> 'w) \<Rightarrow> duration \<Rightarrow> instant
   \<Rightarrow> 'w \<Rightarrow> ('w \<times> ('r + 'a)) option" where
  "retry_loop attempt clock sleep period deadline w =
    (case attempt w of
       (w', Inl r) \<Rightarrow> Some (w', Inl r)
     | (w', Inr a) \<Rightarrow>
         if deadline \<le> clock w' then Some (w', Inr a)
         else retry_loop attempt clock sleep period deadline (sleep period w'))"

text \<open>What the loop asks of its world: attempts do not turn the clock back, and sleeping
  lasts at least as long as asked.\<close>

locale timed_world =
  fixes attempt :: "'w \<Rightarrow> 'w \<times> ('r + 'a)"
    and clock :: "'w \<Rightarrow> instant"
    and sleep :: "duration \<Rightarrow> 'w \<Rightarrow> 'w"
  assumes attempt_clock: "clock w \<le> clock (fst (attempt w))"
    and sleep_clock: "after (clock w) d \<le> clock (sleep d w)"
begin

lemma retry_terminates:
  assumes "0 < period"
  shows "\<exists>r. retry_loop attempt clock sleep period deadline w = Some r"
proof (induction "ns_of deadline - ns_of (clock w)" arbitrary: w rule: less_induct)
  case less
  obtain w' r where a: "attempt w = (w', r)" by (cases "attempt w") auto
  show ?case
  proof (cases r)
    case (Inl x)
    with a show ?thesis by (simp add: retry_loop.simps)
  next
    case (Inr x)
    show ?thesis
    proof (cases "deadline \<le> clock w'")
      case True
      with a Inr show ?thesis by (simp add: retry_loop.simps)
    next
      case False
      have "clock w \<le> clock w'" using attempt_clock [of w] a by simp
      then have "ns_of deadline - ns_of (clock (sleep period w')) < ns_of deadline - ns_of (clock w)"
        using False sleep_clock [of w' period] assms by (simp add: time_simps)
      then obtain r' where
        "retry_loop attempt clock sleep period deadline (sleep period w') = Some r'"
        using less by blast
      with a Inr False show ?thesis by (subst retry_loop.simps) simp
    qed
  qed
qed

end

text \<open>
  A result of the loop is the outcome of its last attempt, made in a world that satisfies
  whatever holds at the start and is kept by a failed attempt and the sleep after it.
\<close>

lemma retry_result_aux:
  assumes "retry_loop attempt clock sleep period deadline w = Some x" and "P w"
    and "\<And>w w' a. P w \<Longrightarrow> attempt w = (w', Inr a) \<Longrightarrow> clock w' < deadline
      \<Longrightarrow> P (sleep period w')"
  shows "\<exists>u. P u \<and> attempt u = x \<and> (\<forall>a. snd x = Inr a \<longrightarrow> deadline \<le> clock (fst x))"
proof -
  let ?R = "\<lambda>att clk slp p (d :: instant) w x. P w \<longrightarrow>
    (\<forall>w w' a. P w \<longrightarrow> att w = (w', Inr a) \<longrightarrow> clk w' < d \<longrightarrow> P (slp p w')) \<longrightarrow>
    (\<exists>u. P u \<and> att u = x \<and> (\<forall>a. snd x = Inr a \<longrightarrow> d \<le> clk (fst x)))"
  have "?R attempt clock sleep period deadline w x"
  proof (rule retry_loop.raw_induct [where P = ?R, OF _ assms(1)], intro impI)
    fix loop att clk slp p w x and d :: instant
    assume IH: "\<And>clk slp p d w att x. loop clk slp p d w att = Some x \<Longrightarrow>
        ?R clk slp p d w att x"
      and eq: "(case att w of (w', Inl r) \<Rightarrow> Some (w', Inl r)
        | (w', Inr a) \<Rightarrow> if d \<le> clk w' then Some (w', Inr a)
            else loop att clk slp p d (slp p w')) = Some x"
      and w: "P w"
      and keep: "\<forall>w w' a. P w \<longrightarrow> att w = (w', Inr a) \<longrightarrow> clk w' < d \<longrightarrow> P (slp p w')"
    obtain w' r where a: "att w = (w', r)" by (cases "att w") auto
    show "\<exists>u. P u \<and> att u = x \<and> (\<forall>a. snd x = Inr a \<longrightarrow> d \<le> clk (fst x))"
    proof (cases "\<exists>y. r = Inr y \<and> \<not> d \<le> clk w'")
      case True
      with a eq have "loop att clk slp p d (slp p w') = Some x" by auto
      moreover have "P (slp p w')" using True a w keep by (auto simp: not_le)
      ultimately show ?thesis using IH keep by blast
    next
      case False
      with a eq have "x = (w', r)" by (cases r) auto
      with False a w show ?thesis by auto
    qed
  qed
  with assms(2,3) show ?thesis by blast
qed

lemma retry_result:
  assumes "retry_loop attempt clock sleep period deadline w = Some (v, r)" and "P w"
    and "\<And>w w' a. P w \<Longrightarrow> attempt w = (w', Inr a) \<Longrightarrow> clock w' < deadline
      \<Longrightarrow> P (sleep period w')"
  obtains u where "P u" "attempt u = (v, r)" "\<And>a. r = Inr a \<Longrightarrow> deadline \<le> clock v"
  using retry_result_aux [of attempt clock sleep period deadline w "(v, r)" P] assms by auto

end
