(* ===== verification/Framing.thy ===== *)
theory Framing
  imports Timing
begin

text \<open>
  Framing of the network transport (\<open>banc-host/src/net/mod.rs\<close>): a connection, the exact
  reads and complete writes of the standard library on it, and the length-prefixed frames
  built from them. The bytes a peer will ever send are the field \<open>rx\<close>; once they are used
  up a read reports \<open>rx_end\<close> (end of file when the peer closed, an operating-system error for
  a timeout or a reset). Every write takes one entry of \<open>tx_plan\<close>, which says whether it
  fails and how many bytes went out before it did; an empty plan means all writes succeed.
  Setting a socket
  option (no delay, timeouts) likewise takes one entry of \<open>opt_plan\<close>. A debug assertion that
  fails is the value \<open>Panicked\<close>.
\<close>

section \<open>Connections\<close>

datatype io_error = Panicked | Unexpected_eof | Frame_too_large nat | Os_error nat

datatype sock_option = No_delay | Read_timeout duration | Write_timeout duration

record stream =
  rx :: bytes
  rx_end :: io_error
  tx :: bytes
  tx_plan :: "(nat \<times> io_error) option list"
  opt_plan :: "io_error option list"
  sock_options :: "sock_option list"

definition read_exact :: "nat \<Rightarrow> stream \<Rightarrow> (io_error + bytes) \<times> stream" where
  "read_exact n s =
    (if n \<le> length (rx s) then (Inr (take n (rx s)), s\<lparr>rx := drop n (rx s)\<rparr>)
     else (Inl (rx_end s), s\<lparr>rx := []\<rparr>))"

definition write_all :: "bytes \<Rightarrow> stream \<Rightarrow> (io_error + unit) \<times> stream" where
  "write_all d s =
    (case tx_plan s of
       [] \<Rightarrow> (Inr (), s\<lparr>tx := tx s @ d\<rparr>)
     | None # p \<Rightarrow> (Inr (), s\<lparr>tx := tx s @ d, tx_plan := p\<rparr>)
     | Some (k, e) # p \<Rightarrow> (Inl e, s\<lparr>tx := tx s @ take k d, tx_plan := p\<rparr>))"

definition flush :: "stream \<Rightarrow> (io_error + unit) \<times> stream" where
  "flush s = write_all [] s"

definition set_option :: "sock_option \<Rightarrow> stream \<Rightarrow> (io_error + unit) \<times> stream" where
  "set_option opt s =
    (case opt_plan s of
       [] \<Rightarrow> (Inr (), s\<lparr>sock_options := sock_options s @ [opt]\<rparr>)
     | None # p \<Rightarrow> (Inr (), s\<lparr>opt_plan := p, sock_options := sock_options s @ [opt]\<rparr>)
     | Some e # p \<Rightarrow> (Inl e, s\<lparr>opt_plan := p\<rparr>))"

section \<open>Frames\<close>

definition MAX_FRAME :: nat where
  "MAX_FRAME = 256 * 1024"

text \<open>
  \<open>debug\<close> says whether debug assertions are compiled in. The length goes out truncated to
  32 bits.
\<close>

definition write_frame :: "bool \<Rightarrow> bytes \<Rightarrow> stream \<Rightarrow> (io_error + unit) \<times> stream" where
  "write_frame debug data s =
    (if debug \<and> \<not> length data \<le> MAX_FRAME then (Inl Panicked, s)
     else st_then (write_all (to_le_bytes 4 (unat (of_nat (length data) :: u32))) s) (\<lambda>_ s1.
          st_then (write_all data s1) (\<lambda>_ s2. flush s2)))"

definition read_frame :: "stream \<Rightarrow> (io_error + bytes) \<times> stream" where
  "read_frame s =
    st_then (read_exact 4 s) (\<lambda>len_bytes s1.
      let len = from_le_bytes len_bytes in
      if len > MAX_FRAME then (Inl (Frame_too_large len), s1)
      else read_exact len s1)"

text \<open>The blocking variants, which the lease client uses, differ only in not awaiting.\<close>

definition write_frame_sync :: "bool \<Rightarrow> bytes \<Rightarrow> stream \<Rightarrow> (io_error + unit) \<times> stream" where
  "write_frame_sync debug data s =
    (if debug \<and> \<not> length data \<le> MAX_FRAME then (Inl Panicked, s)
     else st_then (write_all (to_le_bytes 4 (unat (of_nat (length data) :: u32))) s) (\<lambda>_ s1.
          st_then (write_all data s1) (\<lambda>_ s2. flush s2)))"

definition read_frame_sync :: "stream \<Rightarrow> (io_error + bytes) \<times> stream" where
  "read_frame_sync s =
    st_then (read_exact 4 s) (\<lambda>len_bytes s1.
      let len = from_le_bytes len_bytes in
      if len > MAX_FRAME then (Inl (Frame_too_large len), s1)
      else read_exact len s1)"

lemma sync_frames [simp]: "write_frame_sync = write_frame" "read_frame_sync = read_frame"
  by (intro ext, simp add: write_frame_sync_def write_frame_def)
    (intro ext, simp add: read_frame_sync_def read_frame_def)

section \<open>Laws of reading and writing\<close>

named_theorems frame_simps "what framed reads and writes return"

text \<open>The bytes of one frame, and the frames a reader accepts.\<close>

definition framed :: "bytes \<Rightarrow> bytes" where
  "framed data = to_le_bytes 4 (length data) @ data"

lemma MAX_FRAME_less: "n \<le> MAX_FRAME \<Longrightarrow> n < 256 ^ 4"
  by (simp add: MAX_FRAME_def)

lemma unat_u32_small: "n < 256 ^ 4 \<Longrightarrow> unat (of_nat n :: u32) = n"
  by (simp add: unat_of_nat)

lemma read_exact_append [frame_simps]:
  "rx s = d @ rest \<Longrightarrow> read_exact (length d) s = (Inr d, s\<lparr>rx := rest\<rparr>)"
  by (simp add: read_exact_def)

lemma read_header [frame_simps]:
  assumes "n < 256 ^ 4" and "rx s = to_le_bytes 4 n @ rest"
  shows "read_frame s =
    (if n > MAX_FRAME then (Inl (Frame_too_large n), s\<lparr>rx := rest\<rparr>)
     else read_exact n (s\<lparr>rx := rest\<rparr>))"
  using assms read_exact_append [of s "to_le_bytes 4 n" rest]
  by (simp add: read_frame_def from_to_le_bytes)

lemma read_frame_framed [frame_simps]:
  assumes "length d \<le> MAX_FRAME" and "rx s = framed d @ rest"
  shows "read_frame s = (Inr d, s\<lparr>rx := rest\<rparr>)"
  using assms read_header [of "length d" s "d @ rest"] MAX_FRAME_less [of "length d"]
    read_exact_append [of "s\<lparr>rx := d @ rest\<rparr>" d rest]
  by (simp add: framed_def)

lemma read_frame_eof [frame_simps]:
  "length (rx s) < 4 \<Longrightarrow> read_frame s = (Inl (rx_end s), s\<lparr>rx := []\<rparr>)"
  by (simp add: read_frame_def read_exact_def)

lemma write_all_planless [frame_simps]:
  "tx_plan s = [] \<Longrightarrow> write_all d s = (Inr (), s\<lparr>tx := tx s @ d\<rparr>)"
  by (simp add: write_all_def)

lemma write_frame_framed [frame_simps]:
  assumes "length d \<le> MAX_FRAME" and "tx_plan s = []"
  shows "write_frame debug d s = (Inr (), s\<lparr>tx := tx s @ framed d\<rparr>)"
  using assms unat_u32_small [OF MAX_FRAME_less [OF assms(1)]]
  by (simp add: write_frame_def flush_def framed_def write_all_planless)

lemma read_exact_rx:
  "read_exact n s = (r, s') \<Longrightarrow> length (rx s') \<le> length (rx s)"
  by (auto simp: read_exact_def split: if_splits)

lemma read_frame_ok:
  assumes "read_frame s = (Inr d, s')"
  shows "length (rx s') + length d + 4 = length (rx s)" and "length d \<le> MAX_FRAME"
    and "s' = s\<lparr>rx := rx s'\<rparr>"
  using assms by (auto simp: read_frame_def read_exact_def Let_def result_simps split: if_splits)

section \<open>A sequence of frames\<close>

text \<open>
  The contract between a frame writer and a frame reader over one byte stream: a reader
  given what the writer produced, followed by anything, returns the message and leaves the
  rest untouched. Under it, a stream of messages is read back message by message.
\<close>

locale frame_codec =
  fixes put :: "'m \<Rightarrow> bytes"
    and get :: "bytes \<Rightarrow> ('m \<times> bytes) option"
    and fits :: "'m \<Rightarrow> bool"
  assumes get_put: "fits m \<Longrightarrow> get (put m @ rest) = Some (m, rest)"
    and get_empty: "get [] = None"
begin

lemma put_nonempty: "fits m \<Longrightarrow> put m \<noteq> []"
  using get_put [of m "[]"] get_empty by auto

lemma put_inject: "fits a \<Longrightarrow> fits b \<Longrightarrow> put a @ r = put b @ r' \<longleftrightarrow> a = b \<and> r = r'"
  by (metis get_put option.inject prod.inject)

lemma puts_inject:
  "list_all fits as \<Longrightarrow> list_all fits bs \<Longrightarrow>
   concat (map put as) = concat (map put bs) \<longleftrightarrow> as = bs"
proof (induction as arbitrary: bs)
  case Nil
  then show ?case by (cases bs) (auto simp: put_nonempty)
next
  case (Cons a as)
  then show ?case by (cases bs) (auto simp: put_nonempty put_inject)
qed

end

text \<open>The reader of the contract is \<open>read_frame\<close> on a connection holding the bytes.\<close>

definition stream_of :: "bytes \<Rightarrow> io_error \<Rightarrow> stream" where
  "stream_of b e = \<lparr>rx = b, rx_end = e, tx = [], tx_plan = [], opt_plan = [], sock_options = []\<rparr>"

lemma stream_of_simps [simp]:
  "rx (stream_of b e) = b" "rx_end (stream_of b e) = e" "tx (stream_of b e) = []"
  "tx_plan (stream_of b e) = []" "opt_plan (stream_of b e) = []"
  by (simp_all add: stream_of_def)

definition take_frame :: "bytes \<Rightarrow> (bytes \<times> bytes) option" where
  "take_frame b =
    (case read_frame (stream_of b Unexpected_eof) of
       (Inr d, s) \<Rightarrow> Some (d, rx s) | (Inl _, _) \<Rightarrow> None)"

lemma take_frame_framed: "length d \<le> MAX_FRAME \<Longrightarrow> take_frame (framed d @ rest) = Some (d, rest)"
  using read_frame_framed [of d "stream_of (framed d @ rest) Unexpected_eof" rest]
  by (simp add: take_frame_def)

lemma take_frame_empty: "take_frame [] = None"
  using read_frame_eof [of "stream_of [] Unexpected_eof"] by (simp add: take_frame_def)

interpretation frames: frame_codec framed take_frame "\<lambda>d. length d \<le> MAX_FRAME"
  by unfold_locales (fact take_frame_framed take_frame_empty)+

section \<open>Properties\<close>

text \<open>C9: what one side writes as a frame, the other side reads back as exactly that payload,
  and whatever follows in the stream is left for the next read.\<close>

theorem frame_roundtrip:
  assumes "length d \<le> MAX_FRAME" and "tx_plan w = []" and "tx w = []"
    and "write_frame debug d w = (r, w')" and "rx s = tx w' @ rest"
  shows "r = Inr () \<and> read_frame s = (Inr d, s\<lparr>rx := rest\<rparr>)"
  using assms by (auto simp: frame_simps)

theorem frame_roundtrip_witness:
  "read_frame (stream_of (tx (snd (write_frame True [7, 8] (stream_of [] Unexpected_eof))) @ [9])
     Unexpected_eof) = (Inr [7, 8], stream_of [9] Unexpected_eof)"
  using frame_roundtrip [of "[7, 8]" "stream_of [] Unexpected_eof" True
      "fst (write_frame True [7, 8] (stream_of [] Unexpected_eof))"
      "snd (write_frame True [7, 8] (stream_of [] Unexpected_eof))"
      "stream_of (tx (snd (write_frame True [7, 8] (stream_of [] Unexpected_eof))) @ [9])
         Unexpected_eof" "[9]"]
  by (simp add: MAX_FRAME_def stream_of_def)

text \<open>
  C10: an oversized frame is refused before any of it is buffered. A length above the cap
  makes the read fail with that length right after the header, whatever the peer sends next;
  and no read ever returns more than the cap.
\<close>

theorem oversized_frame_refused:
  assumes "MAX_FRAME < n" and "n < 2 ^ 32" and "rx s = to_le_bytes 4 n @ body"
  shows "read_frame s = (Inl (Frame_too_large n), s\<lparr>rx := body\<rparr>)
    \<and> (\<forall>s d s'. read_frame s = (Inr d, s') \<longrightarrow> length d \<le> MAX_FRAME)"
  using assms read_header [of n s body] by (auto dest: read_frame_ok(2))

theorem oversized_frame_refused_witness:
  "fst (read_frame (stream_of (to_le_bytes 4 262145) Unexpected_eof)) = Inl (Frame_too_large 262145)"
  using oversized_frame_refused [of 262145 "stream_of (to_le_bytes 4 262145) Unexpected_eof" "[]"]
  by (simp add: MAX_FRAME_def)

end
