(* ===== verification/Handshake.thy ===== *)
theory Handshake
  imports Framing
begin

text \<open>
  The authenticated handshake of the network transport (\<open>banc-host/src/net/mod.rs\<close>): both
  halves of the \<open>Hello\<close> exchange, the token comparison, and connecting to a remote node.
  The wire encoding of messages is the postcard crate, so it is an argument: a \<open>codec\<close> of
  each message type. What the code relies on, that a message it sends is decoded to itself
  and fits a frame, is \<open>carries\<close>.
\<close>

unbundle bit_operations_syntax

section \<open>Message encodings\<close>

datatype serde_error = Serde_error

record 'm codec =
  ser :: "'m \<Rightarrow> serde_error + bytes"
  de :: "bytes \<Rightarrow> serde_error + 'm"

definition carries :: "'m codec \<Rightarrow> 'm \<Rightarrow> bool" where
  "carries c m \<longleftrightarrow>
    (case ser c m of Inl _ \<Rightarrow> False | Inr b \<Rightarrow> length b \<le> MAX_FRAME \<and> de c b = Inr m)"

definition wire :: "'m codec \<Rightarrow> 'm \<Rightarrow> bytes" where
  "wire c m = (case ser c m of Inl _ \<Rightarrow> [] | Inr b \<Rightarrow> framed b)"

datatype net_error =
    Net_io io_error
  | Net_serde serde_error
  | Denied_by_daemon
  | Handshake_refused u8 bool
  | Connecting_to_node rstr io_error
  | Node_handshake rstr net_error

definition net_io :: "(io_error + 'a) \<times> stream \<Rightarrow> (net_error + 'a) \<times> stream" where
  "net_io m = (map_err Net_io (fst m), snd m)"

definition send_msg :: "'m codec \<Rightarrow> bool \<Rightarrow> 'm \<Rightarrow> stream \<Rightarrow> (net_error + unit) \<times> stream" where
  "send_msg c debug m s =
    st_then (st_lift (map_err Net_serde (ser c m)) s) (\<lambda>b s1. net_io (write_frame debug b s1))"

definition recv_msg :: "'m codec \<Rightarrow> stream \<Rightarrow> (net_error + 'm) \<times> stream" where
  "recv_msg c s =
    st_then (net_io (read_frame s)) (\<lambda>b s1. st_lift (map_err Net_serde (de c b)) s1)"

lemma send_msg_ok [frame_simps]:
  "carries c m \<Longrightarrow> tx_plan s = [] \<Longrightarrow>
   send_msg c debug m s = (Inr (), s\<lparr>tx := tx s @ wire c m\<rparr>)"
  by (auto simp: carries_def send_msg_def wire_def net_io_def write_frame_framed
      split: sum.splits)

lemma recv_msg_ok [frame_simps]:
  "carries c m \<Longrightarrow> rx s = wire c m @ rest \<Longrightarrow> recv_msg c s = (Inr m, s\<lparr>rx := rest\<rparr>)"
  by (auto simp: carries_def recv_msg_def wire_def net_io_def read_frame_framed
      split: sum.splits)

section \<open>Tokens\<close>

definition token_eq :: "rstr \<Rightarrow> rstr \<Rightarrow> bool" where
  "token_eq a b =
    (let (a, b) = (utf8 a, utf8 b) in
     if length a \<noteq> length b then False
     else foldl (\<lambda>acc (x, y). acc OR (x XOR y)) 0 (zip a b) = 0)"

lemma or_eq_0_iff: "(a :: u8) OR b = 0 \<longleftrightarrow> a = 0 \<and> b = 0"
  by (auto simp: bit_eq_iff bit_or_iff)

lemma xor_eq_0_iff: "(a :: u8) XOR b = 0 \<longleftrightarrow> a = b"
  by (auto simp: bit_eq_iff bit_xor_iff)

lemma token_fold_eq_0:
  "length a = length b \<Longrightarrow>
   foldl (\<lambda>acc (x, y). acc OR (x XOR y)) acc (zip a b) = 0 \<longleftrightarrow> acc = 0 \<and> a = (b :: bytes)"
  by (induction a b arbitrary: acc rule: list_induct2) (auto simp: or_eq_0_iff xor_eq_0_iff)

lemma token_eq_utf8: "token_eq a b \<longleftrightarrow> utf8 a = utf8 b"
  by (auto simp: token_eq_def token_fold_eq_0 Let_def)

section \<open>The exchange\<close>

definition NET_VERSION :: u8 where
  "NET_VERSION = 0"

datatype role = Node_role | Lease_role

record hello =
  version :: u8
  role :: role
  token :: rstr

datatype hello_reply = Hello_ok rstr | Hello_denied

definition handshake_client ::
  "hello codec \<Rightarrow> hello_reply codec \<Rightarrow> bool \<Rightarrow> role \<Rightarrow> rstr \<Rightarrow> stream
   \<Rightarrow> (net_error + rstr) \<times> stream" where
  "handshake_client hc rc debug r tok s =
    (let hello = \<lparr>version = NET_VERSION, role = r, token = tok\<rparr> in
     st_then (send_msg hc debug hello s) (\<lambda>_ s1.
     st_then (recv_msg rc s1) (\<lambda>reply s2.
       case reply of
         Hello_ok rig_name \<Rightarrow> (Inr rig_name, s2)
       | Hello_denied \<Rightarrow> (Inl Denied_by_daemon, s2))))"

definition handshake_client_sync ::
  "hello codec \<Rightarrow> hello_reply codec \<Rightarrow> bool \<Rightarrow> role \<Rightarrow> rstr \<Rightarrow> stream
   \<Rightarrow> (net_error + unit) \<times> stream" where
  "handshake_client_sync hc rc debug r tok s =
    (let hello = \<lparr>version = NET_VERSION, role = r, token = tok\<rparr> in
     st_then (send_msg hc debug hello s) (\<lambda>_ s1.
     st_then (recv_msg rc s1) (\<lambda>reply s2.
       case reply of
         Hello_ok _ \<Rightarrow> (Inr (), s2)
       | Hello_denied \<Rightarrow> (Inl Denied_by_daemon, s2))))"

definition handshake_server ::
  "hello codec \<Rightarrow> hello_reply codec \<Rightarrow> bool \<Rightarrow> rstr \<Rightarrow> rstr \<Rightarrow> stream
   \<Rightarrow> (net_error + role) \<times> stream" where
  "handshake_server hc rc debug tok rig_name s =
    st_then (net_io (set_option No_delay s)) (\<lambda>_ s1.
    st_then (recv_msg hc s1) (\<lambda>hello s2.
      if version hello \<noteq> NET_VERSION \<or> \<not> token_eq (token hello) tok then
        st_then (send_msg rc debug Hello_denied s2) (\<lambda>_ s3.
          (Inl (Handshake_refused (version hello) (token_eq (token hello) tok)), s3))
      else
        st_then (send_msg rc debug (Hello_ok rig_name) s2) (\<lambda>_ s3. (Inr (role hello), s3))))"

text \<open>
  Connecting to a node: the outcome of the TCP connect is an argument, and the connected
  stream is what the postcard-rpc client is built on.
\<close>

definition connect_node ::
  "hello codec \<Rightarrow> hello_reply codec \<Rightarrow> bool \<Rightarrow> (rstr \<Rightarrow> io_error + stream) \<Rightarrow> rstr \<Rightarrow> rstr
   \<Rightarrow> net_error + (stream \<times> rstr)" where
  "connect_node hc rc debug tcp_connect addr tok =
    and_then (map_err (Connecting_to_node addr) (tcp_connect addr)) (\<lambda>s.
      case net_io (set_option No_delay s) of
        (Inl e, _) \<Rightarrow> Inl e
      | (Inr _, s1) \<Rightarrow>
          (case handshake_client hc rc debug Node_role tok s1 of
             (Inl e, _) \<Rightarrow> Inl (Node_handshake addr e)
           | (Inr rig_name, s2) \<Rightarrow> Inr (s2, rig_name)))"

text \<open>The wire of the postcard-rpc client: one message in one frame.\<close>

definition tcp_wire_send :: "bool \<Rightarrow> bytes \<Rightarrow> stream \<Rightarrow> (io_error + unit) \<times> stream" where
  "tcp_wire_send debug data s = write_frame debug data s"

definition tcp_wire_receive :: "stream \<Rightarrow> (io_error + bytes) \<times> stream" where
  "tcp_wire_receive s = read_frame s"

section \<open>Behaviour of each half\<close>

abbreviation hello_msg :: "role \<Rightarrow> rstr \<Rightarrow> hello" where
  "hello_msg r tok \<equiv> \<lparr>version = NET_VERSION, role = r, token = tok\<rparr>"

definition server_reply :: "rstr \<Rightarrow> rstr \<Rightarrow> hello \<Rightarrow> hello_reply" where
  "server_reply tok rig_name h =
    (if version h = NET_VERSION \<and> utf8 (token h) = utf8 tok then Hello_ok rig_name
     else Hello_denied)"

definition server_result :: "rstr \<Rightarrow> hello \<Rightarrow> net_error + role" where
  "server_result tok h =
    (if version h = NET_VERSION \<and> utf8 (token h) = utf8 tok then Inr (role h)
     else Inl (Handshake_refused (version h) (utf8 (token h) = utf8 tok)))"

lemma handshake_server_eq:
  assumes "carries hc h" and "carries rc (server_reply tok rig h)"
    and "rx s = wire hc h @ rest" and "tx_plan s = []" and "opt_plan s = []"
  shows "handshake_server hc rc debug tok rig s =
    (server_result tok h, s\<lparr>rx := rest, tx := tx s @ wire rc (server_reply tok rig h),
       sock_options := sock_options s @ [No_delay]\<rparr>)"
  using assms
  by (auto simp: handshake_server_def set_option_def net_io_def recv_msg_ok send_msg_ok
      token_eq_utf8 server_reply_def server_result_def split: if_splits)

lemma recv_msg_tx [simp]: "tx (snd (recv_msg c s)) = tx s"
  by (auto simp: recv_msg_def read_frame_def read_exact_def net_io_def Let_def st_lift_def)

lemma handshake_client_tx:
  assumes "carries hc (hello_msg r tok)" and "tx_plan s = []"
  shows "tx (snd (handshake_client hc rc debug r tok s)) = tx s @ wire hc (hello_msg r tok)"
proof -
  let ?s = "s\<lparr>tx := tx s @ wire hc (hello_msg r tok)\<rparr>"
  obtain x s2 where "recv_msg rc ?s = (x, s2)" by (cases "recv_msg rc ?s") auto
  moreover from this have "tx s2 = tx ?s" using recv_msg_tx [of rc ?s] by simp
  ultimately show ?thesis
    using assms by (cases x) (auto simp: handshake_client_def send_msg_ok split: hello_reply.splits)
qed

lemma carries_server_reply:
  "carries rc (Hello_ok rig) \<Longrightarrow> carries rc Hello_denied \<Longrightarrow> carries rc (server_reply tok rig h)"
  by (simp add: server_reply_def)

lemma handshake_client_eq:
  assumes "carries hc (hello_msg r tok)" and "carries rc reply"
    and "rx s = wire rc reply @ rest" and "tx_plan s = []"
  shows "handshake_client hc rc debug r tok s =
    (case reply of Hello_ok rig \<Rightarrow> Inr rig | Hello_denied \<Rightarrow> Inl Denied_by_daemon,
     s\<lparr>rx := rest, tx := tx s @ wire hc (hello_msg r tok)\<rparr>)"
  using assms by (auto simp: handshake_client_def recv_msg_ok send_msg_ok split: hello_reply.splits)

lemma handshake_client_sync_eq:
  "handshake_client_sync hc rc debug r tok s =
    (case handshake_client hc rc debug r tok s of (Inl e, s') \<Rightarrow> (Inl e, s')
       | (Inr _, s') \<Rightarrow> (Inr (), s'))"
proof (cases "send_msg hc debug (hello_msg r tok) s")
  case (Pair x s1)
  obtain y s2 where y: "recv_msg rc s1 = (y, s2)" by (cases "recv_msg rc s1") auto
  show ?thesis
    using Pair y
    by (cases x; cases y) (auto simp: handshake_client_sync_def handshake_client_def
        split: hello_reply.splits)
qed

text \<open>
  An encoding for instances: it carries every message made of valid text that fits a frame.
\<close>

definition text_hello :: "hello codec" where
  "text_hello =
    \<lparr>ser = (\<lambda>h. Inr (version h # (case role h of Node_role \<Rightarrow> 0 | Lease_role \<Rightarrow> 1) # utf8 (token h))),
     de = (\<lambda>b. case b of
        v # r # t \<Rightarrow> Inr \<lparr>version = v, role = (if r = 0 then Node_role else Lease_role),
                          token = from_utf8_lossy t\<rparr>
      | _ \<Rightarrow> Inl Serde_error)\<rparr>"

definition text_reply :: "hello_reply codec" where
  "text_reply =
    \<lparr>ser = (\<lambda>r. Inr (case r of Hello_ok n \<Rightarrow> 0 # utf8 n | Hello_denied \<Rightarrow> [1])),
     de = (\<lambda>b. case b of
        k # t \<Rightarrow> Inr (if k = 0 then Hello_ok (from_utf8_lossy t) else Hello_denied)
      | [] \<Rightarrow> Inl Serde_error)\<rparr>"

lemma carries_text_hello:
  "str_ok (token h) \<Longrightarrow> str_len (token h) + 2 \<le> MAX_FRAME \<Longrightarrow> carries text_hello h"
  by (cases h) (auto simp: carries_def text_hello_def str_len_def from_utf8_lossy_utf8
      split: role.splits)

lemma carries_text_reply:
  "carries text_reply Hello_denied"
  "str_ok n \<Longrightarrow> str_len n + 1 \<le> MAX_FRAME \<Longrightarrow> carries text_reply (Hello_ok n)"
  by (auto simp: carries_def text_reply_def str_len_def from_utf8_lossy_utf8 MAX_FRAME_def)

lemma str_ok_lit: "list_all (\<lambda>c. of_char c < (0x80 :: nat)) s \<Longrightarrow> str_ok (lit s)"
  by (auto simp: str_ok_def lit_def list_all_iff scalar_def)

lemma str_len_lit: "list_all (\<lambda>c. of_char c < (0x80 :: nat)) s \<Longrightarrow> str_len (lit s) = length s"
  by (simp add: lit_def list_all_length str_len_ascii)

section \<open>Properties\<close>

text \<open>The token comparison, which looks at every byte, accepts exactly the equal token.\<close>

theorem token_eq_iff:
  assumes "str_ok a" and "str_ok b"
  shows "token_eq a b \<longleftrightarrow> a = b"
  using assms by (simp add: token_eq_utf8 utf8_inject)

theorem token_eq_iff_witness:
  "\<not> token_eq (lit ''secret'') (lit ''secreT'') \<and> token_eq (lit ''secret'') (lit ''secret'')"
  using token_eq_iff [of "lit ''secret''" "lit ''secreT''"]
    token_eq_iff [of "lit ''secret''" "lit ''secret''"]
  by (simp add: str_ok_lit) (simp add: lit_def)

text \<open>
  C8: both halves of the handshake agree. Run against each other over a connection, the
  server hands out the role the client asked for and the client learns the rig name exactly
  when the tokens are equal; otherwise the server refuses and the client is told so. The
  bytes that follow the handshake are left for the protocol that comes next.
\<close>

theorem handshake_agreement:
  assumes "carries hc (hello_msg r tok)" and "carries rc (Hello_ok rig)"
    and "carries rc Hello_denied" and "str_ok tok" and "str_ok secret"
    and server: "handshake_server hc rc debug secret rig srv = (sres, srv')"
    and client: "handshake_client hc rc debug r tok cli = (cres, cli')"
    and "tx_plan srv = []" "opt_plan srv = []" "tx srv = []"
    and "tx_plan cli = []" "tx cli = []"
    and "rx srv = tx cli' @ later" and "rx cli = tx srv' @ later'"
  shows "sres = (if tok = secret then Inr r else Inl (Handshake_refused NET_VERSION False))
    \<and> cres = (if tok = secret then Inr rig else Inl Denied_by_daemon)
    \<and> rx srv' = later \<and> rx cli' = later'"
proof -
  let ?h = "hello_msg r tok" and ?reply = "server_reply secret rig (hello_msg r tok)"
  have "tx cli' = wire hc ?h"
    using handshake_client_tx [OF assms(1) \<open>tx_plan cli = []\<close>, of rc debug] client assms by simp
  then have srv: "sres = server_result secret ?h \<and> rx srv' = later \<and> tx srv' = wire rc ?reply"
    using assms handshake_server_eq [of hc ?h rc secret rig srv later debug]
    by (auto simp: carries_server_reply)
  then have "cres = (case ?reply of Hello_ok n \<Rightarrow> Inr n | Hello_denied \<Rightarrow> Inl Denied_by_daemon)
      \<and> rx cli' = later'"
    using assms handshake_client_eq [of hc r tok rc ?reply cli later' debug]
    by (auto simp: carries_server_reply)
  with srv assms(4,5) show ?thesis
    by (auto simp: server_reply_def server_result_def utf8_inject)
qed

theorem handshake_agreement_witness:
  "fst (handshake_server text_hello text_reply True (lit ''tok'') (lit ''rig'')
     (stream_of (wire text_hello (hello_msg Lease_role (lit ''tok''))) Unexpected_eof))
   = Inr Lease_role"
proof -
  let ?srv = "stream_of (wire text_hello (hello_msg Lease_role (lit ''tok''))) Unexpected_eof"
  let ?run = "handshake_server text_hello text_reply True (lit ''tok'') (lit ''rig'') ?srv"
  let ?cli = "stream_of (tx (snd ?run)) Unexpected_eof"
  let ?crun = "handshake_client text_hello text_reply True Lease_role (lit ''tok'') ?cli"
  have ok: "str_ok (lit ''tok'')" "str_ok (lit ''rig'')"
    by (simp_all add: str_ok_lit)
  have c: "carries text_hello (hello_msg Lease_role (lit ''tok''))"
    "carries text_reply (Hello_ok (lit ''rig''))"
    by (simp_all add: carries_text_hello carries_text_reply ok str_len_lit MAX_FRAME_def)
  have "tx (snd ?crun) = wire text_hello (hello_msg Lease_role (lit ''tok''))"
    using handshake_client_tx [OF c(1), of ?cli text_reply True] by simp
  then show ?thesis
    using handshake_agreement [OF c carries_text_reply(1) ok(1) ok(1), of True ?srv "fst ?run"
        "snd ?run" ?cli "fst ?crun" "snd ?crun" "[]" "[]"]
    by simp
qed

end
