(* ===== verification/Exclusion.thy ===== *)
theory Exclusion
  imports Main
begin

text \<open>
  What the rig fixture relies on from whichever arbiter it uses, the daemon's lease or the
  lock file: a resource with at most one holder. The locale \<open>exclusive\<close> states the contract
  of one operation at a time, where a contender that is not able to wait (its deadline
  cannot be represented) gets nothing and changes nothing; its lemmas lift it to any sequence of operations by any
  number of contenders.
\<close>

datatype ('k, 'e) lock_op = Take 'k | Drop 'k | Event 'e

locale exclusive =
  fixes key :: "'s \<Rightarrow> 'k option"
    and take_lock :: "'k \<Rightarrow> 's \<Rightarrow> bool \<times> 's"
    and drop_lock :: "'k \<Rightarrow> 's \<Rightarrow> 's"
    and event :: "'e \<Rightarrow> 's \<Rightarrow> 's"
    and inv :: "'s \<Rightarrow> bool"
    and able :: "'k \<Rightarrow> 's \<Rightarrow> bool"
  assumes inv_take: "inv s \<Longrightarrow> inv (snd (take_lock k s))"
    and inv_drop: "inv s \<Longrightarrow> inv (drop_lock k s)"
    and take_free: "inv s \<Longrightarrow> key s = None \<Longrightarrow> able k s \<Longrightarrow>
      fst (take_lock k s) \<and> key (snd (take_lock k s)) = Some k"
    and take_unable: "inv s \<Longrightarrow> key s = None \<Longrightarrow> \<not> able k s \<Longrightarrow>
      \<not> fst (take_lock k s) \<and> key (snd (take_lock k s)) = None"
    and take_held: "inv s \<Longrightarrow> key s = Some j \<Longrightarrow>
      \<not> fst (take_lock k s) \<and> key (snd (take_lock k s)) = Some j"
    and key_drop: "inv s \<Longrightarrow> key (drop_lock k s) = (if key s = Some k then None else key s)"
    and inv_event: "inv s \<Longrightarrow> inv (event e s)"
    and key_event: "inv s \<Longrightarrow> key (event e s) = key s \<or> key (event e s) = None"

text \<open>A run of operations: the keys whose \<open>Take\<close> succeeded, in order, and the final state.\<close>

fun lock_run ::
  "('k \<Rightarrow> 's \<Rightarrow> bool \<times> 's) \<Rightarrow> ('k \<Rightarrow> 's \<Rightarrow> 's) \<Rightarrow> ('e \<Rightarrow> 's \<Rightarrow> 's) \<Rightarrow> ('k, 'e) lock_op list \<Rightarrow> 's
   \<Rightarrow> 'k list \<times> 's" where
  "lock_run tk dr ev [] s = ([], s)"
| "lock_run tk dr ev (Take k # ops) s =
     (let (ok, s1) = tk k s; (ks, s2) = lock_run tk dr ev ops s1
      in (if ok then k # ks else ks, s2))"
| "lock_run tk dr ev (Drop k # ops) s = lock_run tk dr ev ops (dr k s)"
| "lock_run tk dr ev (Event e # ops) s = lock_run tk dr ev ops (ev e s)"

context exclusive
begin

lemma run_inv: "inv s \<Longrightarrow> inv (snd (lock_run take_lock drop_lock event ops s))"
proof (induction ops arbitrary: s)
  case Nil
  then show ?case by simp
next
  case (Cons x ops)
  show ?case
  proof (cases x)
    case (Take k)
    obtain ok s1 where "take_lock k s = (ok, s1)" by (cases "take_lock k s") auto
    moreover from this have "inv s1" using inv_take [OF Cons.prems, of k] by simp
    ultimately show ?thesis using Cons.IH [of s1] Take by (auto split: prod.splits)
  qed (use Cons inv_drop inv_event in auto)
qed

text \<open>
  Whoever holds the resource keeps every contender out until it lets go itself or an event
  frees it: if after a run it is still the holder without having released, no \<open>Take\<close> in the
  run succeeded.
\<close>

lemma event_to_held: "inv s \<Longrightarrow> key (event e s) = Some k \<Longrightarrow> key s = Some k"
  using key_event [of s e] by auto

lemma holder_excludes:
  assumes "inv s" and "key s = Some k" and "Drop k \<notin> set ops"
    and "\<And>pre e post. ops = pre @ Event e # post \<Longrightarrow>
      key (snd (lock_run take_lock drop_lock event (pre @ [Event e]) s)) \<noteq> None"
  shows "lock_run take_lock drop_lock event ops s = ([], snd (lock_run take_lock drop_lock event ops s))
    \<and> key (snd (lock_run take_lock drop_lock event ops s)) = Some k"
  using assms
proof (induction ops arbitrary: s)
  case Nil
  then show ?case by simp
next
  case (Cons x ops)
  show ?case
  proof (cases x)
    case (Take j)
    obtain ok s1 where s1: "take_lock j s = (ok, s1)" by (cases "take_lock j s") auto
    have "\<not> ok" "key s1 = Some k" "inv s1"
      using take_held [of s k j] inv_take [of s j] Cons.prems s1 by auto
    moreover have "key (snd (lock_run take_lock drop_lock event (pre @ [Event e]) s1)) \<noteq> None"
      if "ops = pre @ Event e # post" for pre e post
      using Cons.prems(4) [of "x # pre" e post] that Take s1 by (auto split: prod.splits)
    ultimately show ?thesis
      using Cons.IH [of s1] Cons.prems(3) Take s1 by (auto split: prod.splits)
  next
    case (Drop j)
    have "key (drop_lock j s) = Some k" "inv (drop_lock j s)"
      using key_drop [of s j] inv_drop [of s j] Cons.prems Drop by auto
    moreover have "key (snd (lock_run take_lock drop_lock event (pre @ [Event e]) (drop_lock j s))) \<noteq> None"
      if "ops = pre @ Event e # post" for pre e post
      using Cons.prems(4) [of "x # pre" e post] that Drop by auto
    ultimately show ?thesis
      using Cons.IH [of "drop_lock j s"] Cons.prems(3) Drop by auto
  next
    case (Event e)
    have "key (event e s) \<noteq> None"
      using Cons.prems(4) [of "[]" e ops] Event by simp
    then have "key (event e s) = Some k" "inv (event e s)"
      using key_event [of s e] inv_event [of s e] Cons.prems by auto
    moreover have "key (snd (lock_run take_lock drop_lock event (pre @ [Event e']) (event e s))) \<noteq> None"
      if "ops = pre @ Event e' # post" for pre e' post
      using Cons.prems(4) [of "x # pre" e' post] that Event by auto
    ultimately show ?thesis
      using Cons.IH [of "event e s"] Cons.prems(3) Event by auto
  qed
qed

text \<open>The same when every event of the run is one that leaves this holder in place.\<close>

lemma holder_stays:
  assumes "inv s" and "key s = Some k" and "Drop k \<notin> set ops"
    and "\<And>e s. Event e \<in> set ops \<Longrightarrow> inv s \<Longrightarrow> key s = Some k \<Longrightarrow> key (event e s) = Some k"
  shows "fst (lock_run take_lock drop_lock event ops s) = []
    \<and> key (snd (lock_run take_lock drop_lock event ops s)) = Some k"
  using assms
proof (induction ops arbitrary: s)
  case Nil
  then show ?case by simp
next
  case (Cons x ops)
  have rest: "fst (lock_run take_lock drop_lock event ops s') = []
      \<and> key (snd (lock_run take_lock drop_lock event ops s')) = Some k"
    if "inv s'" "key s' = Some k" for s'
    by (rule Cons.IH [OF that]) (use Cons.prems in auto)
  show ?case
  proof (cases x)
    case (Take j)
    then show ?thesis
      using rest [of "snd (take_lock j s)"] take_held [of s k j] inv_take [of s j] Cons.prems
      by (auto split: prod.splits)
  next
    case (Drop j)
    then show ?thesis
      using rest [of "drop_lock j s"] key_drop [of s j] inv_drop [of s j] Cons.prems by auto
  next
    case (Event e)
    then show ?thesis
      using rest [of "event e s"] inv_event [of s e] Cons.prems by auto
  qed
qed

text \<open>The last contender that got the resource and did not lose it is its holder.\<close>

lemma taker_holds:
  assumes "inv s" and "fst (take_lock k s)"
  shows "key s = None" and "key (snd (take_lock k s)) = Some k"
proof -
  show n: "key s = None"
    using assms take_held [of s _ k] by (cases "key s") auto
  show "key (snd (take_lock k s)) = Some k"
    using take_free [OF assms(1) n] take_unable [OF assms(1) n] assms(2) by blast
qed

end

end
