(* ===== verification/LeaseServer.thy ===== *)
theory LeaseServer
  imports Handshake Exclusion
begin

text \<open>
  The rig daemon's side of the network lease (\<open>banc-host/src/net/lease.rs\<close>): the wire
  messages, the single lease slot behind its mutex, the request handler with its lazy
  expiry, and the loop that serves one connection. The clock reading and the bytes of the
  operating system's random generator (or its failure, which panics under the lock and so
  poisons it) are arguments of each request.
\<close>

section \<open>Messages and state\<close>

datatype lease_request = Acquire rstr u32 | Renew u64 | Release u64 | Status_request

datatype lease_reply =
    Granted u64
  | Busy rstr u32
  | Lease_ok
  | Gone
  | Status_reply "rstr option" u32

record held =
  held_id :: u64
  held_holder :: rstr
  expires_at :: instant
  held_ttl :: duration

record lease_server =
  slot :: "held option"
  poisoned :: bool

datatype lease_panic = Lock_poisoned | Rng_unavailable

definition new_lease_server :: lease_server where
  "new_lease_server = \<lparr>slot = None, poisoned = False\<rparr>"

definition default_lease_server :: lease_server where
  "default_lease_server = new_lease_server"

section \<open>Operations\<close>

text \<open>The eight random bytes of an identifier, or no identifier when the generator fails.\<close>

definition mint_lease_id :: "bytes option \<Rightarrow> u64 option" where
  "mint_lease_id rng = map_option (\<lambda>buf. of_nat (from_le_bytes buf)) rng"

definition lease_holder :: "lease_server \<Rightarrow> instant \<Rightarrow> lease_panic + rstr option" where
  "lease_holder srv now =
    (if poisoned srv then Inl Lock_poisoned
     else Inr (case slot srv of
        Some h \<Rightarrow> if expires_at h > now then Some (held_holder h) else None
      | None \<Rightarrow> None))"

definition drop_expired :: "instant \<Rightarrow> held option \<Rightarrow> held option" where
  "drop_expired now st =
    (case st of Some h \<Rightarrow> if expires_at h \<le> now then None else Some h | None \<Rightarrow> None)"

definition clamp_ttl :: "u32 \<Rightarrow> duration" where
  "clamp_ttl ttl_s = from_secs (unat (max 5 (min 3600 ttl_s)))"

definition expires_in_s :: "held \<Rightarrow> instant \<Rightarrow> u32" where
  "expires_in_s h now = of_nat (as_secs (saturating_duration_since (expires_at h) now))"

definition handle ::
  "lease_request \<Rightarrow> instant \<Rightarrow> bytes option \<Rightarrow> lease_server
   \<Rightarrow> (lease_panic + lease_reply) \<times> lease_server" where
  "handle req now rng srv =
    (if poisoned srv then (Inl Lock_poisoned, srv)
     else
       let state = drop_expired now (slot srv) in
       case req of
         Acquire who ttl_s \<Rightarrow>
           (case state of
              Some h \<Rightarrow> (Inr (Busy (held_holder h) (expires_in_s h now)), srv\<lparr>slot := state\<rparr>)
            | None \<Rightarrow>
                (case mint_lease_id rng of
                   None \<Rightarrow> (Inl Rng_unavailable, srv\<lparr>slot := None, poisoned := True\<rparr>)
                 | Some i \<Rightarrow>
                     let ttl = clamp_ttl ttl_s in
                     (Inr (Granted i),
                      srv\<lparr>slot := Some \<lparr>held_id = i, held_holder = who,
                        expires_at = after now ttl, held_ttl = ttl\<rparr>\<rparr>)))
       | Renew i \<Rightarrow>
           (case state of
              Some h \<Rightarrow>
                if held_id h = i
                then (Inr Lease_ok, srv\<lparr>slot := Some (h\<lparr>expires_at := after now (held_ttl h)\<rparr>)\<rparr>)
                else (Inr Gone, srv\<lparr>slot := state\<rparr>)
            | None \<Rightarrow> (Inr Gone, srv\<lparr>slot := state\<rparr>))
       | Release i \<Rightarrow>
           (case state of
              Some h \<Rightarrow>
                if held_id h = i then (Inr Lease_ok, srv\<lparr>slot := None\<rparr>)
                else (Inr Lease_ok, srv\<lparr>slot := state\<rparr>)
            | None \<Rightarrow> (Inr Lease_ok, srv\<lparr>slot := state\<rparr>))
       | Status_request \<Rightarrow>
           (case state of
              Some h \<Rightarrow> (Inr (Status_reply (Some (held_holder h)) (expires_in_s h now)),
                          srv\<lparr>slot := state\<rparr>)
            | None \<Rightarrow> (Inr (Status_reply None 0), srv\<lparr>slot := state\<rparr>)))"

section \<open>The lease that is in force\<close>

text \<open>What the slot means at a given time: an expired entry is no lease.\<close>

definition in_force :: "instant \<Rightarrow> lease_server \<Rightarrow> held option" where
  "in_force now srv = drop_expired now (slot srv)"

named_theorems lease_simps "requests in terms of the lease in force"

lemma drop_expired_Some [lease_simps]:
  "drop_expired now st = Some h \<longleftrightarrow> st = Some h \<and> now < expires_at h"
  by (auto simp: drop_expired_def split: option.splits)

lemma drop_expired_None [simp]: "drop_expired now None = None"
  by (simp add: drop_expired_def)

lemma drop_expired_twice [simp]:
  "t \<le> u \<Longrightarrow> drop_expired u (drop_expired t st) = drop_expired u st"
  by (auto simp: drop_expired_def split: option.splits)

lemma in_force_Some [lease_simps]:
  "in_force now srv = Some h \<longleftrightarrow> slot srv = Some h \<and> now < expires_at h"
  by (simp add: in_force_def lease_simps)

lemma in_force_later: "t \<le> u \<Longrightarrow> in_force u srv = drop_expired u (in_force t srv)"
  by (simp add: in_force_def)

lemma in_force_slot [simp]: "in_force now (srv\<lparr>slot := st\<rparr>) = drop_expired now st"
  "in_force now (srv\<lparr>poisoned := b\<rparr>) = in_force now srv"
  by (simp_all add: in_force_def)

lemma handle_poisoned [lease_simps]: "poisoned srv \<Longrightarrow> handle req now rng srv = (Inl Lock_poisoned, srv)"
  by (simp add: handle_def)

lemma handle_acquire_busy [lease_simps]:
  "\<not> poisoned srv \<Longrightarrow> in_force now srv = Some h \<Longrightarrow>
   handle (Acquire who ttl) now rng srv =
     (Inr (Busy (held_holder h) (expires_in_s h now)), srv\<lparr>slot := Some h\<rparr>)"
  by (simp add: handle_def in_force_def)

lemma handle_acquire_free [lease_simps]:
  "\<not> poisoned srv \<Longrightarrow> in_force now srv = None \<Longrightarrow>
   handle (Acquire who ttl) now rng srv =
     (case mint_lease_id rng of
        None \<Rightarrow> (Inl Rng_unavailable, srv\<lparr>slot := None, poisoned := True\<rparr>)
      | Some i \<Rightarrow> (Inr (Granted i), srv\<lparr>slot := Some \<lparr>held_id = i, held_holder = who,
          expires_at = after now (clamp_ttl ttl), held_ttl = clamp_ttl ttl\<rparr>\<rparr>))"
  by (auto simp: handle_def in_force_def Let_def split: option.splits)

lemma handle_renew [lease_simps]:
  "\<not> poisoned srv \<Longrightarrow> handle (Renew i) now rng srv =
     (case in_force now srv of
        Some h \<Rightarrow>
          if held_id h = i
          then (Inr Lease_ok, srv\<lparr>slot := Some (h\<lparr>expires_at := after now (held_ttl h)\<rparr>)\<rparr>)
          else (Inr Gone, srv\<lparr>slot := Some h\<rparr>)
      | None \<Rightarrow> (Inr Gone, srv\<lparr>slot := None\<rparr>))"
  by (auto simp: handle_def in_force_def split: option.splits)

lemma handle_release [lease_simps]:
  "\<not> poisoned srv \<Longrightarrow> handle (Release i) now rng srv =
     (Inr Lease_ok, srv\<lparr>slot := (case in_force now srv of
        Some h \<Rightarrow> if held_id h = i then None else Some h | None \<Rightarrow> None)\<rparr>)"
  by (auto simp: handle_def in_force_def split: option.splits)

lemma handle_status [lease_simps]:
  "\<not> poisoned srv \<Longrightarrow> handle Status_request now rng srv =
     (case in_force now srv of
        Some h \<Rightarrow> (Inr (Status_reply (Some (held_holder h)) (expires_in_s h now)),
                   srv\<lparr>slot := Some h\<rparr>)
      | None \<Rightarrow> (Inr (Status_reply None 0), srv\<lparr>slot := None\<rparr>))"
  by (auto simp: handle_def in_force_def split: option.splits)

lemma clamp_ttl_bounds: "from_secs 5 \<le> clamp_ttl t" "clamp_ttl t \<le> from_secs 3600"
proof -
  have "unat (max 5 (min 3600 t)) = max 5 (min 3600 (unat t))"
    by (auto simp: max_def min_def word_le_nat_alt)
  then show "from_secs 5 \<le> clamp_ttl t" "clamp_ttl t \<le> from_secs 3600"
    by (auto simp: clamp_ttl_def from_secs_def)
qed

lemma clamp_ttl_pos: "0 < clamp_ttl t"
  using clamp_ttl_bounds(1) [of t] by (simp add: time_simps)

section \<open>The lease as an exclusive resource\<close>

text \<open>
  Seen from its clients the server is a lock whose keys are lease identifiers: acquiring
  takes it for the identifier the generator supplies, releasing names the identifier, and
  everything else that happens (time passing, renewals, status queries) can at most free it.
\<close>

datatype lease_event = Elapse duration | Renewal u64 | Query

type_synonym lease_world = "lease_server \<times> instant"

definition lease_key :: "lease_world \<Rightarrow> u64 option" where
  "lease_key w = map_option held_id (in_force (snd w) (fst w))"

definition lease_take :: "rstr \<Rightarrow> u32 \<Rightarrow> u64 \<Rightarrow> lease_world \<Rightarrow> bool \<times> lease_world" where
  "lease_take who ttl i w =
    (case handle (Acquire who ttl) (snd w) (Some (to_le_bytes 8 (unat i))) (fst w) of
       (r, srv) \<Rightarrow> (r = Inr (Granted i), (srv, snd w)))"

definition lease_drop :: "u64 \<Rightarrow> lease_world \<Rightarrow> lease_world" where
  "lease_drop i w = (snd (handle (Release i) (snd w) None (fst w)), snd w)"

fun lease_env :: "lease_event \<Rightarrow> lease_world \<Rightarrow> lease_world" where
  "lease_env (Elapse d) w = (fst w, after (snd w) d)"
| "lease_env (Renewal i) w = (snd (handle (Renew i) (snd w) None (fst w)), snd w)"
| "lease_env Query w = (snd (handle Status_request (snd w) None (fst w)), snd w)"

definition server_alive :: "lease_server \<Rightarrow> bool" where
  "server_alive srv \<longleftrightarrow> \<not> poisoned srv \<and> (\<forall>h. slot srv = Some h \<longrightarrow> 0 < held_ttl h)"

definition lease_alive :: "lease_world \<Rightarrow> bool" where
  "lease_alive w \<longleftrightarrow> server_alive (fst w)"

lemma mint_to_le_bytes [simp]: "mint_lease_id (Some (to_le_bytes 8 (unat i))) = Some i"
proof -
  have "unat i < 256 ^ 8" using unsigned_less [of i] by simp
  then show ?thesis by (simp add: mint_lease_id_def from_to_le_bytes)
qed

lemma server_aliveD: "server_alive srv \<Longrightarrow> \<not> poisoned srv"
  by (simp add: server_alive_def)

lemma server_alive_new [simp]: "server_alive new_lease_server"
  by (simp add: server_alive_def new_lease_server_def)

lemma in_force_new [simp]: "in_force t new_lease_server = None"
  by (simp add: in_force_def new_lease_server_def)

lemma server_alive_ttl: "server_alive srv \<Longrightarrow> in_force t srv = Some h \<Longrightarrow> 0 < held_ttl h"
  by (simp add: server_alive_def in_force_Some)

lemma server_alive_slot: "server_alive srv \<Longrightarrow>
  server_alive (srv\<lparr>slot := st\<rparr>) \<longleftrightarrow> (\<forall>h. st = Some h \<longrightarrow> 0 < held_ttl h)"
  by (simp add: server_alive_def)

lemma drop_expired_in_force [simp]:
  "in_force t srv = Some h \<Longrightarrow> drop_expired t (Some h) = Some h"
  by (simp add: in_force_Some drop_expired_Some)

lemma drop_expired_own [simp]: "drop_expired t (in_force t srv) = in_force t srv"
  by (simp add: in_force_def)

lemma in_force_unexpired: "in_force t srv = Some h \<Longrightarrow> t < expires_at h"
  by (simp add: in_force_Some)

lemma drop_expired_fresh [simp]:
  "0 < d \<Longrightarrow> drop_expired t (Some (h\<lparr>expires_at := after t d\<rparr>)) = Some (h\<lparr>expires_at := after t d\<rparr>)"
  by (simp add: drop_expired_Some)

text \<open>What a request leaves in the slot, on a server whose lock is not poisoned.\<close>

definition slot_after :: "lease_request \<Rightarrow> instant \<Rightarrow> u64 \<Rightarrow> held option \<Rightarrow> held option" where
  "slot_after req t i lease =
    (case (req, lease) of
       (Acquire who ttl, None) \<Rightarrow> Some \<lparr>held_id = i, held_holder = who,
          expires_at = after t (clamp_ttl ttl), held_ttl = clamp_ttl ttl\<rparr>
     | (Renew j, Some h) \<Rightarrow>
          Some (if held_id h = j then h\<lparr>expires_at := after t (held_ttl h)\<rparr> else h)
     | (Release j, Some h) \<Rightarrow> if held_id h = j then None else Some h
     | _ \<Rightarrow> lease)"

lemma snd_handle:
  "\<not> poisoned srv \<Longrightarrow> mint_lease_id rng = Some i \<or> (\<forall>who ttl. req \<noteq> Acquire who ttl) \<Longrightarrow>
   snd (handle req t rng srv) = srv\<lparr>slot := slot_after req t i (in_force t srv)\<rparr>"
  by (cases req; cases "in_force t srv")
    (auto simp: slot_after_def handle_acquire_busy handle_acquire_free handle_renew
      handle_release handle_status)

lemma server_alive_handle:
  assumes "server_alive srv" and "mint_lease_id rng = Some i \<or> (\<forall>who ttl. req \<noteq> Acquire who ttl)"
  shows "server_alive (snd (handle req t rng srv))"
  using assms server_alive_ttl [OF assms(1), of t]
  by (auto simp: snd_handle server_aliveD server_alive_slot slot_after_def clamp_ttl_pos
      split: option.splits lease_request.splits)

lemma in_force_handle:
  assumes "server_alive srv" and "mint_lease_id rng = Some i \<or> (\<forall>who ttl. req \<noteq> Acquire who ttl)"
  shows "in_force t (snd (handle req t rng srv)) = slot_after req t i (in_force t srv)"
  using assms server_alive_ttl [OF assms(1), of t]
  by (auto simp: snd_handle server_aliveD slot_after_def clamp_ttl_pos drop_expired_Some
      in_force_unexpired split: option.splits lease_request.splits)

lemma in_force_no_revival:
  "t \<le> u \<Longrightarrow> in_force u srv = in_force t srv \<or> in_force u srv = None"
  by (auto simp: in_force_later [of t u] drop_expired_def split: option.splits)

lemma lease_take_ok:
  "server_alive srv \<Longrightarrow> fst (lease_take who ttl i (srv, t)) \<longleftrightarrow> in_force t srv = None"
  by (cases "in_force t srv")
    (simp_all add: lease_take_def server_aliveD handle_acquire_busy handle_acquire_free)

lemma snd_lease_take: "snd (lease_take who ttl i (srv, t)) =
    (snd (handle (Acquire who ttl) t (Some (to_le_bytes 8 (unat i))) srv), t)"
  by (simp add: lease_take_def split: prod.splits)

lemmas lease_world_simps = lease_alive_def lease_key_def snd_lease_take lease_drop_def
  lease_take_ok server_alive_handle in_force_handle slot_after_def

lemma lease_alive_take: "lease_alive w \<Longrightarrow> lease_alive (snd (lease_take who ttl i w))"
  by (cases w) (simp add: lease_world_simps)

lemma lease_alive_drop: "lease_alive w \<Longrightarrow> lease_alive (lease_drop i w)"
  by (cases w) (simp add: lease_world_simps)

lemma lease_alive_env: "lease_alive w \<Longrightarrow> lease_alive (lease_env e w)"
  by (cases e; cases w) (simp_all add: lease_world_simps)

lemma lease_take_free:
  "lease_alive w \<Longrightarrow> lease_key w = None \<Longrightarrow>
   fst (lease_take who ttl i w) \<and> lease_key (snd (lease_take who ttl i w)) = Some i"
  by (cases w) (simp add: lease_world_simps)

lemma lease_take_held:
  "lease_alive w \<Longrightarrow> lease_key w = Some j \<Longrightarrow>
   \<not> fst (lease_take who ttl i w) \<and> lease_key (snd (lease_take who ttl i w)) = Some j"
  by (cases w) (auto simp: lease_world_simps)

lemma lease_key_drop:
  "lease_alive w \<Longrightarrow> lease_key (lease_drop i w) = (if lease_key w = Some i then None else lease_key w)"
  by (cases w) (auto simp: lease_world_simps split: option.splits)

lemma lease_key_env:
  "lease_alive w \<Longrightarrow> lease_key (lease_env e w) = lease_key w \<or> lease_key (lease_env e w) = None"
proof (cases e)
  case (Elapse d)
  then show ?thesis
    using in_force_no_revival [of "snd w" "after (snd w) d" "fst w"] by (auto simp: lease_key_def)
qed (auto simp: lease_world_simps split: option.splits)

interpretation lease_lock: exclusive lease_key "lease_take who ttl" lease_drop lease_env lease_alive "\<lambda>_ _. True"
  by unfold_locales (simp_all add: lease_alive_take lease_alive_drop lease_alive_env
      lease_take_free lease_take_held lease_key_drop lease_key_env)

section \<open>Refinement: lazy expiry is not observable\<close>

text \<open>
  The abstract lease service expires eagerly: its state is the lease in force and the time,
  and a lease disappears the moment its time is up. The code only looks at the deadline when
  a request arrives. \<open>lease_exec\<close> runs the code's handler over ticks and requests (with the
  identifier the generator would mint), \<open>spec_exec\<close> the abstract service.
\<close>

datatype lease_op = Tick duration | Request lease_request u64

fun lease_exec :: "lease_op list \<Rightarrow> lease_world \<Rightarrow> (lease_panic + lease_reply) list \<times> lease_world" where
  "lease_exec [] w = ([], w)"
| "lease_exec (Tick d # ops) w = lease_exec ops (fst w, after (snd w) d)"
| "lease_exec (Request req i # ops) w =
     (case handle req (snd w) (Some (to_le_bytes 8 (unat i))) (fst w) of
        (r, srv) \<Rightarrow> (case lease_exec ops (srv, snd w) of (rs, w') \<Rightarrow> (r # rs, w')))"

definition spec_reply :: "lease_request \<Rightarrow> instant \<Rightarrow> u64 \<Rightarrow> held option \<Rightarrow> lease_reply" where
  "spec_reply req t i lease =
    (case req of
       Acquire who ttl \<Rightarrow>
         (case lease of None \<Rightarrow> Granted i
          | Some h \<Rightarrow> Busy (held_holder h) (of_nat (as_secs (ns_of (expires_at h) - ns_of t))))
     | Renew j \<Rightarrow> (if map_option held_id lease = Some j then Lease_ok else Gone)
     | Release j \<Rightarrow> Lease_ok
     | Status_request \<Rightarrow>
         (case lease of None \<Rightarrow> Status_reply None 0
          | Some h \<Rightarrow> Status_reply (Some (held_holder h))
              (of_nat (as_secs (ns_of (expires_at h) - ns_of t)))))"

fun spec_exec :: "lease_op list \<Rightarrow> held option \<times> instant \<Rightarrow> lease_reply list \<times> held option \<times> instant" where
  "spec_exec [] s = ([], s)"
| "spec_exec (Tick d # ops) (lease, t) = spec_exec ops (drop_expired (after t d) lease, after t d)"
| "spec_exec (Request req i # ops) (lease, t) =
     (case spec_exec ops (slot_after req t i lease, t) of
        (rs, s) \<Rightarrow> (spec_reply req t i lease # rs, s))"

lemma fst_handle:
  "server_alive srv \<Longrightarrow> mint_lease_id rng = Some i \<or> (\<forall>who ttl. req \<noteq> Acquire who ttl) \<Longrightarrow>
   fst (handle req t rng srv) = Inr (spec_reply req t i (in_force t srv))"
  by (cases req; cases "in_force t srv")
    (auto simp: spec_reply_def server_aliveD handle_acquire_busy handle_acquire_free handle_renew
      handle_release handle_status expires_in_s_def saturating_duration_since_def)

lemma lease_exec_refines:
  "server_alive srv \<Longrightarrow> spec_exec ops (in_force t srv, t) = (rs, lease, u) \<Longrightarrow>
   \<exists>srv'. lease_exec ops (srv, t) = (map Inr rs, (srv', u)) \<and> server_alive srv'
     \<and> in_force u srv' = lease"
proof (induction ops arbitrary: srv t rs)
  case Nil
  then show ?case by auto
next
  case (Cons x ops)
  show ?case
  proof (cases x)
    case (Tick d)
    have "in_force (after t d) srv = drop_expired (after t d) (in_force t srv)"
      by (rule in_force_later) simp
    with Cons Tick show ?thesis by simp
  next
    case (Request req i)
    let ?rng = "Some (to_le_bytes 8 (unat i))" and ?lease = "slot_after req t i (in_force t srv)"
    obtain srv' where srv': "handle req t ?rng srv = (Inr (spec_reply req t i (in_force t srv)), srv')"
      using fst_handle [OF Cons.prems(1), of ?rng i req t] by (metis mint_to_le_bytes prod.collapse)
    then have "server_alive srv'" "in_force t srv' = ?lease"
      using server_alive_handle [OF Cons.prems(1), of ?rng i req t]
        in_force_handle [OF Cons.prems(1), of ?rng i req t] by simp_all
    moreover obtain rs' where "spec_exec ops (?lease, t) = (rs', lease, u)"
      "rs = spec_reply req t i (in_force t srv) # rs'"
      using Cons.prems(2) Request by (auto split: prod.splits)
    ultimately show ?thesis using Cons.IH [of srv' t rs'] Request srv' by auto
  qed
qed

section \<open>Bounds\<close>

definition lease_wf :: "instant \<Rightarrow> lease_server \<Rightarrow> bool" where
  "lease_wf now srv \<longleftrightarrow> (\<forall>h. slot srv = Some h \<longrightarrow>
     from_secs 5 \<le> held_ttl h \<and> held_ttl h \<le> from_secs 3600 \<and>
     expires_at h \<le> after now (held_ttl h))"

lemma lease_wf_new: "lease_wf now new_lease_server"
  by (simp add: lease_wf_def new_lease_server_def)

lemma lease_wf_later: "lease_wf t srv \<Longrightarrow> t \<le> u \<Longrightarrow> lease_wf u srv"
  using after_mono by (fastforce simp: lease_wf_def intro: order_trans)

lemma lease_wf_handle:
  assumes "lease_wf t srv"
  shows "lease_wf t (snd (handle req t rng srv))"
proof (cases "poisoned srv")
  case True
  with assms show ?thesis by (simp add: handle_poisoned)
next
  case False
  have "lease_wf t (srv\<lparr>slot := None\<rparr>)" "in_force t srv = Some h \<Longrightarrow> lease_wf t (srv\<lparr>slot := Some h\<rparr>)"
    "in_force t srv = Some h \<Longrightarrow> lease_wf t (srv\<lparr>slot := Some (h\<lparr>expires_at := after t (held_ttl h)\<rparr>)\<rparr>)"
    for h using assms by (auto simp: lease_wf_def in_force_Some)
  then show ?thesis
    using assms False clamp_ttl_bounds
    by (cases req; cases "in_force t srv")
      (auto simp: handle_acquire_busy handle_acquire_free handle_renew handle_release
        handle_status split: option.splits, auto simp: lease_wf_def)
qed

lemma expires_in_bounds:
  assumes "lease_wf t srv" and "in_force t srv = Some h"
  shows "unat (expires_in_s h t) = as_secs (ns_of (expires_at h) - ns_of t)"
    and "unat (expires_in_s h t) \<le> 3600"
proof -
  have "ns_of (expires_at h) - ns_of t \<le> from_secs 3600"
    using assms by (auto simp: lease_wf_def in_force_Some time_simps)
  then have b: "as_secs (ns_of (expires_at h) - ns_of t) \<le> 3600" by (rule as_secs_le)
  then show "unat (expires_in_s h t) = as_secs (ns_of (expires_at h) - ns_of t)"
    by (simp add: expires_in_s_def saturating_duration_since_def unat_of_nat)
  with b show "unat (expires_in_s h t) \<le> 3600" by simp
qed

section \<open>Serving a connection\<close>

text \<open>
  Between two requests of a connection other connections may have used the same server:
  \<open>interfere\<close> is what they did before the \<open>k\<close>-th request, which is then handled at the time
  and with the random bytes given for it. An end of file at any point of a frame ends the
  session normally; any other fault, a frame that does not decode, or a failed write ends it
  with an error.
\<close>

record serve_env =
  interfere :: "nat \<Rightarrow> lease_server \<Rightarrow> lease_server"
  clock_at :: "nat \<Rightarrow> instant"
  random_at :: "nat \<Rightarrow> bytes option"

datatype serve_error = Serve_net net_error | Serve_panic lease_panic

lemma recv_frame_measure:
  "read_frame s = (Inr d, s1) \<Longrightarrow> length (rx s1) < length (rx s)"
  using read_frame_ok(1) [of s d s1] by simp

lemma send_msg_rx: "send_msg c debug m s = (r, s') \<Longrightarrow> rx s' = rx s"
  by (auto simp: send_msg_def st_lift_def net_io_def write_frame_def write_all_def flush_def
      split: sum.splits if_splits list.splits option.splits prod.splits
      elim!: st_then.elims)

function serve_conn ::
  "lease_request codec \<Rightarrow> lease_reply codec \<Rightarrow> bool \<Rightarrow> serve_env \<Rightarrow> nat \<Rightarrow> lease_server \<Rightarrow> stream
   \<Rightarrow> (serve_error + unit) \<times> lease_server \<times> stream" where
  "serve_conn qc rc debug env k srv s =
    (case read_frame s of
       (Inl Unexpected_eof, s1) \<Rightarrow> (Inr (), srv, s1)
     | (Inl e, s1) \<Rightarrow> (Inl (Serve_net (Net_io e)), srv, s1)
     | (Inr frame, s1) \<Rightarrow>
         (case de qc frame of
            Inl e \<Rightarrow> (Inl (Serve_net (Net_serde e)), srv, s1)
          | Inr req \<Rightarrow>
              (case handle req (clock_at env k) (random_at env k) (interfere env k srv) of
                 (Inl p, srv') \<Rightarrow> (Inl (Serve_panic p), srv', s1)
               | (Inr reply, srv') \<Rightarrow>
                   (case send_msg rc debug reply s1 of
                      (Inl e, s2) \<Rightarrow> (Inl (Serve_net e), srv', s2)
                    | (Inr _, s2) \<Rightarrow> serve_conn qc rc debug env (Suc k) srv' s2))))"
  by pat_completeness auto
termination
  by (relation "measure (\<lambda>(qc, rc, debug, env, k, srv, s). length (rx s))")
    (auto dest!: recv_frame_measure [OF sym] send_msg_rx [OF sym])

declare serve_conn.simps [simp del]

text \<open>The session a client sees: its requests answered one after the other.\<close>

fun answers :: "serve_env \<Rightarrow> nat \<Rightarrow> lease_server \<Rightarrow> lease_request list
    \<Rightarrow> (lease_panic + lease_reply list) \<times> lease_server" where
  "answers env k srv [] = (Inr [], srv)"
| "answers env k srv (req # reqs) =
     (case handle req (clock_at env k) (random_at env k) (interfere env k srv) of
        (Inl p, srv') \<Rightarrow> (Inl p, srv')
      | (Inr reply, srv') \<Rightarrow>
          (case answers env (Suc k) srv' reqs of
             (Inl p, srv'') \<Rightarrow> (Inl p, srv'')
           | (Inr replies, srv'') \<Rightarrow> (Inr (reply # replies), srv'')))"

lemma serve_conn_step:
  assumes "carries qc req" and "rx s = wire qc req @ tail" and "tx_plan s = []"
    and "handle req (clock_at env k) (random_at env k) (interfere env k srv) = (Inr reply, srv')"
    and "carries rc reply"
  shows "serve_conn qc rc debug env k srv s =
    serve_conn qc rc debug env (Suc k) srv' (s\<lparr>rx := tail, tx := tx s @ wire rc reply\<rparr>)"
proof -
  obtain b where b: "ser qc req = Inr b" "length b \<le> MAX_FRAME" "de qc b = Inr req"
    using assms(1) by (auto simp: carries_def split: sum.splits)
  then have "read_frame s = (Inr b, s\<lparr>rx := tail\<rparr>)"
    using assms(2) by (simp add: wire_def read_frame_framed)
  with b assms show ?thesis
    by (subst serve_conn.simps) (simp add: send_msg_ok)
qed

lemma serve_conn_session:
  assumes "list_all (carries qc) reqs" and "list_all (carries rc) replies"
    and "answers env k srv reqs = (Inr replies, srv')"
    and "rx s = concat (map (wire qc) reqs)" and "rx_end s = Unexpected_eof" and "tx_plan s = []"
  shows "serve_conn qc rc debug env k srv s =
    (Inr (), srv', s\<lparr>rx := [], tx := tx s @ concat (map (wire rc) replies)\<rparr>)"
  using assms
proof (induction reqs arbitrary: k srv s replies)
  case Nil
  then show ?case by (subst serve_conn.simps) (simp add: read_frame_eof)
next
  case (Cons req reqs)
  obtain reply srv1 replies' where h: "handle req (clock_at env k) (random_at env k)
      (interfere env k srv) = (Inr reply, srv1)"
    and a: "answers env (Suc k) srv1 reqs = (Inr replies', srv')" "replies = reply # replies'"
    using Cons.prems(3) by (auto split: prod.splits sum.splits)
  have "serve_conn qc rc debug env k srv s = serve_conn qc rc debug env (Suc k) srv1
      (s\<lparr>rx := concat (map (wire qc) reqs), tx := tx s @ wire rc reply\<rparr>)"
    using Cons.prems h a by (intro serve_conn_step) auto
  also have "\<dots> = (Inr (), srv', s\<lparr>rx := [], tx := tx s @ concat (map (wire rc) replies)\<rparr>)"
    using Cons.IH [of replies' "Suc k" srv1
        "s\<lparr>rx := concat (map (wire qc) reqs), tx := tx s @ wire rc reply\<rparr>"] Cons.prems a
    by simp
  finally show ?case .
qed

end
