(* ===== verification/LeaseSystem.thy ===== *)
theory LeaseSystem
  imports LeaseServer
begin

text \<open>
  The rig lease as its clients experience it: any number of clients send requests to one
  server while time passes, in any order. A reply is on its way until it is delivered or lost
  with its connection, however long that takes. A client holds the rig, as far as it knows,
  from the delivery of a grant until it lets the rig go: the renewal thread never takes the
  rig away from the tests, it only reports that the lease is gone. So the clients' side of
  the state, \<open>holders\<close>, has no clock in it.

  Two further fields are written by the daemon's answers and read by nobody: until when each
  lease runs by the last answer that granted or renewed it (with its time to live), and which
  identifiers were released. Identifiers come from the operating system's random generator;
  the only thing assumed of it is that it does not hand out an identifier a second time.
\<close>

section \<open>The transition system\<close>

record lease_sys =
  now :: instant
  daemon :: lease_server
  issued :: "u64 set"
  in_flight :: "lease_reply list"
  holders :: "u64 set"
  lease_end :: "u64 \<Rightarrow> (instant \<times> duration) option"
  given_back :: "u64 set"

definition new_end ::
  "lease_request \<Rightarrow> lease_panic + lease_reply \<Rightarrow> instant \<Rightarrow> (u64 \<Rightarrow> (instant \<times> duration) option)
   \<Rightarrow> (u64 \<Rightarrow> (instant \<times> duration) option)" where
  "new_end req res t b =
    (case (req, res) of
       (Acquire who ttl, Inr (Granted i)) \<Rightarrow> b(i := Some (after t (clamp_ttl ttl), clamp_ttl ttl))
     | (Renew i, Inr Lease_ok) \<Rightarrow> b(i := map_option (\<lambda>(_, d). (after t d, d)) (b i))
     | (Release i, Inr Lease_ok) \<Rightarrow> b(i := None)
     | _ \<Rightarrow> b)"

definition record_issue :: "lease_panic + lease_reply \<Rightarrow> u64 set \<Rightarrow> u64 set" where
  "record_issue res I = (case res of Inr (Granted i) \<Rightarrow> insert i I | _ \<Rightarrow> I)"

definition record_release :: "lease_request \<Rightarrow> lease_panic + lease_reply \<Rightarrow> u64 set \<Rightarrow> u64 set" where
  "record_release req res G = (case (req, res) of (Release i, Inr Lease_ok) \<Rightarrow> insert i G | _ \<Rightarrow> G)"

definition learn :: "lease_reply \<Rightarrow> u64 set \<Rightarrow> u64 set" where
  "learn reply H = (case reply of Granted i \<Rightarrow> insert i H | _ \<Rightarrow> H)"

inductive lease_step :: "lease_sys \<Rightarrow> lease_sys \<Rightarrow> bool" where
  pass: "now s \<le> t \<Longrightarrow> lease_step s (s\<lparr>now := t\<rparr>)"
| request: "handle req (now s) rng (daemon s) = (res, srv) \<Longrightarrow>
    (\<And>i. res = Inr (Granted i) \<Longrightarrow> i \<notin> issued s) \<Longrightarrow>
    lease_step s (s\<lparr>daemon := srv, issued := record_issue res (issued s),
      in_flight := in_flight s @ (case res of Inr reply \<Rightarrow> [reply] | Inl _ \<Rightarrow> []),
      lease_end := new_end req res (now s) (lease_end s),
      given_back := record_release req res (given_back s)\<rparr>)"
| deliver: "in_flight s = pre @ reply # post \<Longrightarrow>
    lease_step s (s\<lparr>in_flight := pre @ post, holders := learn reply (holders s)\<rparr>)"
| lose: "in_flight s = pre @ reply # post \<Longrightarrow> lease_step s (s\<lparr>in_flight := pre @ post\<rparr>)"
| let_go: "lease_step s (s\<lparr>holders := holders s - {i}\<rparr>)"

definition lease_boot :: "instant \<Rightarrow> lease_sys" where
  "lease_boot t = \<lparr>now = t, daemon = new_lease_server, issued = {}, in_flight = [], holders = {},
     lease_end = (\<lambda>_. None), given_back = {}\<rparr>"

inductive lease_reachable :: "lease_sys \<Rightarrow> bool" where
  boot: "lease_reachable (lease_boot t)"
| step: "lease_reachable s \<Longrightarrow> lease_step s s' \<Longrightarrow> lease_reachable s'"

inductive_cases lease_stepE: "lease_step s s'"

section \<open>The invariant\<close>

text \<open>
  A lease that has not run out is the slot's entry, and what is known of the slot's identifier,
  run out or not, agrees with it. Whoever holds the rig has an identifier that was issued, and
  one whose end is not known was released.
\<close>

definition slot_agrees ::
  "instant \<Rightarrow> held option \<Rightarrow> u64 set \<Rightarrow> (u64 \<Rightarrow> (instant \<times> duration) option) \<Rightarrow> bool" where
  "slot_agrees t st I b \<longleftrightarrow>
    (\<forall>i. b i \<noteq> None \<longrightarrow> i \<in> I) \<and>
    (\<forall>h. st = Some h \<longrightarrow> held_id h \<in> I \<and> 0 < held_ttl h) \<and>
    (\<forall>h u d. st = Some h \<longrightarrow> b (held_id h) = Some (u, d) \<longrightarrow> expires_at h = u \<and> held_ttl h = d) \<and>
    (\<forall>i u d. b i = Some (u, d) \<longrightarrow> t < u \<longrightarrow> (\<exists>h. st = Some h \<and> held_id h = i))"

definition holders_ok :: "lease_sys \<Rightarrow> bool" where
  "holders_ok s \<longleftrightarrow> holders s \<subseteq> issued s \<and> (\<forall>i. Granted i \<in> set (in_flight s) \<longrightarrow> i \<in> issued s)
     \<and> (\<forall>i \<in> issued s. lease_end s i = None \<longrightarrow> i \<in> given_back s)"

definition lease_inv :: "lease_sys \<Rightarrow> bool" where
  "lease_inv s \<longleftrightarrow> slot_agrees (now s) (slot (daemon s)) (issued s) (lease_end s) \<and> holders_ok s"

text \<open>One lemma for each thing a request can do to the slot and to the known ends.\<close>

lemma agrees_later: "slot_agrees t st I b \<Longrightarrow> t \<le> u \<Longrightarrow> slot_agrees u st I b"
  by (auto simp: slot_agrees_def dest: order.strict_trans1)

lemma agrees_expire: "slot_agrees t st I b \<Longrightarrow> slot_agrees t (drop_expired t st) I b"
  by (fastforce simp: slot_agrees_def drop_expired_Some)

lemma agrees_grant:
  "slot_agrees t None I b \<Longrightarrow> i \<notin> I \<Longrightarrow> 0 < d \<Longrightarrow>
   slot_agrees t (Some \<lparr>held_id = i, held_holder = who, expires_at = after t d, held_ttl = d\<rparr>)
     (insert i I) (b(i := Some (after t d, d)))"
  by (auto simp: slot_agrees_def)

lemma agrees_renew:
  "slot_agrees t (Some h) I b \<Longrightarrow>
   slot_agrees t (Some (h\<lparr>expires_at := after t (held_ttl h)\<rparr>)) I
     (b(held_id h := map_option (\<lambda>(_, d). (after t d, d)) (b (held_id h))))"
  by (fastforce simp: slot_agrees_def)

lemma agrees_forget: "slot_agrees t st I b \<Longrightarrow> slot_agrees t st I (b(i := None))"
  by (auto simp: slot_agrees_def)

lemma agrees_release: "slot_agrees t (Some h) I b \<Longrightarrow> slot_agrees t None I (b(held_id h := None))"
  by (fastforce simp: slot_agrees_def)

lemmas agrees_intros = agrees_grant agrees_renew agrees_forget agrees_release

lemma agrees_request:
  assumes inv: "slot_agrees t (slot srv) I b" and h: "handle req t rng srv = (res, srv')"
    and fresh: "\<And>i. res = Inr (Granted i) \<Longrightarrow> i \<notin> I"
  shows "slot_agrees t (slot srv') (record_issue res I) (new_end req res t b)"
proof (cases "poisoned srv")
  case True
  with h inv show ?thesis
    by (auto simp: handle_poisoned new_end_def record_issue_def split: lease_request.splits)
next
  case False
  have e: "slot_agrees t (in_force t srv) I b"
    using agrees_expire [OF inv] by (simp add: in_force_def)
  show ?thesis
  proof (cases req)
    case (Acquire who ttl)
    with False h e fresh show ?thesis
      by (cases "in_force t srv"; cases "mint_lease_id rng")
        (auto simp: handle_acquire_busy handle_acquire_free new_end_def record_issue_def
          clamp_ttl_pos intro!: agrees_grant)
  next
    case (Renew i)
    with False h e show ?thesis
      by (auto simp: handle_renew new_end_def record_issue_def agrees_renew
          split: option.splits if_splits)
  next
    case (Release i)
    with False h e show ?thesis
      by (auto simp: handle_release new_end_def record_issue_def agrees_forget agrees_release
          split: option.splits if_splits)
  next
    case Status_request
    with False h e show ?thesis
      by (auto simp: handle_status new_end_def record_issue_def split: option.splits)
  qed
qed

lemma holders_request:
  assumes "\<forall>i \<in> I. b i = None \<longrightarrow> i \<in> G" and "handle req t rng srv = (res, srv')"
  shows "\<forall>i \<in> record_issue res I. new_end req res t b i = None \<longrightarrow> i \<in> record_release req res G"
proof (cases "poisoned srv")
  case True
  with assms show ?thesis
    by (auto simp: handle_poisoned new_end_def record_issue_def record_release_def split: lease_request.splits)
next
  case False
  with assms show ?thesis
    by (cases req; cases "in_force t srv"; cases "mint_lease_id rng")
      (auto simp: handle_acquire_busy handle_acquire_free handle_renew handle_release handle_status
        new_end_def record_issue_def record_release_def split: if_splits)
qed

lemma record_issue_mono: "I \<subseteq> record_issue res I" "res = Inr (Granted i) \<Longrightarrow> i \<in> record_issue res I"
  by (auto simp: record_issue_def split: sum.split lease_reply.split)

lemma lease_step_inv: "lease_step s s' \<Longrightarrow> lease_inv s \<Longrightarrow> lease_inv s'"
proof (induction rule: lease_step.induct)
  case (pass s t)
  then show ?case by (auto simp: lease_inv_def holders_ok_def agrees_later)
next
  case (request req s rng res srv)
  have "\<forall>i \<in> issued s. lease_end s i = None \<longrightarrow> i \<in> given_back s"
    using request.prems by (simp add: lease_inv_def holders_ok_def)
  note rel = holders_request [OF this request.hyps(1)]
  have "holders s \<subseteq> record_issue res (issued s)"
    using request.prems record_issue_mono(1) [of "issued s" res] by (auto simp: lease_inv_def holders_ok_def)
  moreover have "Granted i \<in> set (in_flight s @ (case res of Inr reply \<Rightarrow> [reply] | Inl _ \<Rightarrow> []))
      \<Longrightarrow> i \<in> record_issue res (issued s)" for i
    using request.prems record_issue_mono(1) [of "issued s" res] record_issue_mono(2) [of res i "issued s"]
    by (auto simp: lease_inv_def holders_ok_def split: sum.splits)
  ultimately show ?case
    using rel request.prems agrees_request [OF _ request.hyps]
    by (auto simp: lease_inv_def holders_ok_def)
qed (auto simp: lease_inv_def holders_ok_def learn_def split: lease_reply.split)

lemma lease_reachable_inv: "lease_reachable s \<Longrightarrow> lease_inv s"
proof (induction rule: lease_reachable.induct)
  case (boot t)
  show ?case by (simp add: lease_boot_def lease_inv_def holders_ok_def slot_agrees_def new_lease_server_def)
next
  case (step s s')
  then show ?case by (blast intro: lease_step_inv)
qed

section \<open>Out for good\<close>

text \<open>A lease in force was in force before the request, under this identifier, or is granted by it.\<close>

lemma in_force_origin:
  assumes "handle req t rng srv = (res, srv')" and "in_force t srv' = Some h'"
  shows "res = Inr (Granted (held_id h')) \<or> (\<exists>h. in_force t srv = Some h \<and> held_id h = held_id h')"
proof (cases "poisoned srv")
  case True
  with assms show ?thesis by (simp add: handle_poisoned)
next
  case False
  with assms show ?thesis
    by (cases req; cases "in_force t srv"; cases "mint_lease_id rng")
      (auto simp: handle_acquire_busy handle_acquire_free handle_renew handle_release handle_status
        drop_expired_Some split: if_splits)
qed

lemma acknowledged_in_force:
  assumes "fst (handle (Renew i) t rng srv) = Inr Lease_ok"
  shows "\<exists>h. in_force t srv = Some h \<and> held_id h = i"
  using assms
  by (cases "poisoned srv") (auto simp: handle_poisoned handle_renew split: option.splits if_splits)

definition is_out :: "u64 \<Rightarrow> lease_sys \<Rightarrow> bool" where
  "is_out i s \<longleftrightarrow> i \<in> issued s \<and> (\<forall>h. in_force (now s) (daemon s) = Some h \<longrightarrow> held_id h \<noteq> i)"

lemma out_step: "lease_step s s' \<Longrightarrow> is_out i s \<Longrightarrow> is_out i s'"
proof (induction rule: lease_step.induct)
  case (pass s t)
  then show ?case using in_force_no_revival [OF pass.hyps, of "daemon s"] by (auto simp: is_out_def)
next
  case (request req s rng res srv)
  have "held_id h' \<noteq> i" if "in_force (now s) srv = Some h'" for h'
    using in_force_origin [OF request.hyps(1) that] request.hyps(2) request.prems by (auto simp: is_out_def)
  with request.prems record_issue_mono(1) [of "issued s" res] show ?case by (auto simp: is_out_def)
qed (auto simp: is_out_def)

lemma out_forever: "lease_step\<^sup>*\<^sup>* s s' \<Longrightarrow> is_out i s \<Longrightarrow> is_out i s'"
  by (induction rule: rtranclp_induct) (auto intro: out_step)

section \<open>Properties\<close>

text \<open>
  C1: what exclusion the lease gives. Nothing stops two runners from both holding the rig as
  far as they know, since a runner that is displaced is not stopped. But of any two that do,
  in any reachable state, whatever the delays of requests and replies, one is out: its
  identifier was released, or the daemon let its whole time to live pass since it last
  granted or renewed it; its lease is not the one in force; and from then on, in every future,
  the daemon never again acknowledges a renewal of it. So runners that renew in time exclude
  each other, and one that does not can find out with its next renewal.
\<close>

theorem one_of_two_holders_is_out:
  assumes "lease_reachable s" and "i \<in> holders s" and "j \<in> holders s" and "i \<noteq> j"
  shows "\<exists>k \<in> {i, j}.
    (k \<in> given_back s \<or> (\<exists>u d. lease_end s k = Some (u, d) \<and> u \<le> now s))
    \<and> (\<forall>h. in_force (now s) (daemon s) = Some h \<longrightarrow> held_id h \<noteq> k)
    \<and> (\<forall>s' rng. lease_step\<^sup>*\<^sup>* s s' \<longrightarrow> fst (handle (Renew k) (now s') rng (daemon s')) \<noteq> Inr Lease_ok)"
proof -
  have inv: "lease_inv s" by (rule lease_reachable_inv [OF assms(1)])
  obtain k where k: "k \<in> {i, j}" "\<And>h. in_force (now s) (daemon s) = Some h \<Longrightarrow> held_id h \<noteq> k"
    using assms(4) by (cases "in_force (now s) (daemon s)") auto
  have issued: "k \<in> issued s" using inv assms(2,3) k(1) by (auto simp: lease_inv_def holders_ok_def)
  then have out: "is_out k s" using k(2) by (simp add: is_out_def)
  have "k \<in> given_back s \<or> (\<exists>u d. lease_end s k = Some (u, d) \<and> u \<le> now s)"
  proof (cases "lease_end s k")
    case None
    with inv issued show ?thesis by (auto simp: lease_inv_def holders_ok_def)
  next
    case (Some x)
    obtain u d where x: "x = (u, d)" by (rule prod.exhaust)
    have "u \<le> now s"
    proof (rule ccontr)
      assume "\<not> u \<le> now s"
      then have "now s < u" by simp
      then obtain h where h: "slot (daemon s) = Some h" "held_id h = k"
        using inv Some unfolding x lease_inv_def slot_agrees_def by blast
      then have "expires_at h = u" using inv Some unfolding x lease_inv_def slot_agrees_def by blast
      with h \<open>now s < u\<close> k(2) show False by (auto simp: in_force_Some)
    qed
    with Some x show ?thesis by blast
  qed
  moreover have "fst (handle (Renew k) (now s') rng (daemon s')) \<noteq> Inr Lease_ok" if "lease_step\<^sup>*\<^sup>* s s'" for s' rng
    using out_forever [OF that out] acknowledged_in_force [of k "now s'" rng "daemon s'"] by (auto simp: is_out_def)
  ultimately show ?thesis using k by blast
qed

text \<open>The instance: a runner pauses for its whole time to live, and a second one is let in.\<close>

definition sys_request :: "lease_request \<Rightarrow> u64 \<Rightarrow> lease_sys \<Rightarrow> lease_sys" where
  "sys_request req i s =
    (case handle req (now s) (Some (to_le_bytes 8 (unat i))) (daemon s) of
       (res, srv) \<Rightarrow> s\<lparr>daemon := srv, issued := record_issue res (issued s),
          in_flight := in_flight s @ (case res of Inr reply \<Rightarrow> [reply] | Inl _ \<Rightarrow> []),
          lease_end := new_end req res (now s) (lease_end s),
          given_back := record_release req res (given_back s)\<rparr>)"

lemma sys_request_step:
  "lease_reachable s \<Longrightarrow> (\<And>k. fst (handle req (now s) (Some (to_le_bytes 8 (unat i))) (daemon s)) = Inr (Granted k)
     \<Longrightarrow> k \<notin> issued s) \<Longrightarrow> lease_reachable (sys_request req i s)"
  by (cases "handle req (now s) (Some (to_le_bytes 8 (unat i))) (daemon s)")
    (auto simp: sys_request_def simp del: to_le_bytes.simps intro: lease_reachable.step lease_step.request)

lemma sys_grant:
  assumes "\<not> poisoned (daemon s)" and "in_force (now s) (daemon s) = None"
  shows "sys_request (Acquire who ttl) i s =
    s\<lparr>daemon := (daemon s)\<lparr>slot := Some \<lparr>held_id = i, held_holder = who,
        expires_at = after (now s) (clamp_ttl ttl), held_ttl = clamp_ttl ttl\<rparr>\<rparr>,
      issued := insert i (issued s), in_flight := in_flight s @ [Granted i],
      lease_end := (lease_end s)(i := Some (after (now s) (clamp_ttl ttl), clamp_ttl ttl))\<rparr>"
  using assms
  by (simp add: sys_request_def handle_acquire_free record_issue_def new_end_def record_release_def
      del: to_le_bytes.simps)

lemma clamp_minute: "clamp_ttl 60 = from_secs 60"
  by (simp add: clamp_ttl_def)

definition displaced_sys :: lease_sys where
  "displaced_sys =
    (let ask = (\<lambda>who i s. let v = sys_request (Acquire who 60) i s
           in v\<lparr>in_flight := butlast (in_flight v), holders := learn (last (in_flight v)) (holders v)\<rparr>);
         s = ask (lit ''a'') 7 (lease_boot (Instant 0))
     in ask (lit ''b'') 8 (s\<lparr>now := after (now s) (from_secs 60)\<rparr>))"

lemma displaced_sys_reachable: "lease_reachable displaced_sys"
proof -
  have ask: "lease_reachable (let v = sys_request (Acquire who 60) i s
           in v\<lparr>in_flight := butlast (in_flight v), holders := learn (last (in_flight v)) (holders v)\<rparr>)"
    if s: "lease_reachable s" "\<not> poisoned (daemon s)" "in_force (now s) (daemon s) = None" "i \<notin> issued s"
    for s who i
  proof -
    let ?v = "sys_request (Acquire who 60) i s"
    have v: "in_flight ?v = in_flight s @ Granted i # []" using sys_grant [OF s(2,3)] by simp
    have "lease_reachable ?v"
      using s by (intro sys_request_step) (auto simp: handle_acquire_free simp del: to_le_bytes.simps)
    from lease_reachable.step [OF this lease_step.deliver [OF v]] show ?thesis using v by (simp add: Let_def)
  qed
  have boot: "\<not> poisoned (daemon (lease_boot (Instant 0)))" "in_force (now (lease_boot (Instant 0))) (daemon (lease_boot (Instant 0))) = None"
    by (simp_all add: lease_boot_def new_lease_server_def in_force_def)
  let ?s = "let v = sys_request (Acquire (lit ''a'') 60) 7 (lease_boot (Instant 0))
           in v\<lparr>in_flight := butlast (in_flight v), holders := learn (last (in_flight v)) (holders v)\<rparr>"
  let ?t = "?s\<lparr>now := after (now ?s) (from_secs 60)\<rparr>"
  have "lease_reachable ?s"
    using boot by (intro ask lease_reachable.boot) (simp_all add: lease_boot_def)
  then have "lease_reachable ?t"
    by (rule lease_reachable.step) (rule lease_step.pass, simp)
  moreover have "\<not> poisoned (daemon ?t)" "in_force (now ?t) (daemon ?t) = None" "8 \<notin> issued ?t"
    unfolding Let_def sys_grant [OF boot]
    by (simp_all add: clamp_minute lease_boot_def new_lease_server_def in_force_def drop_expired_def)
  ultimately show ?thesis unfolding displaced_sys_def Let_def using ask [of ?t 8 "lit ''b''"] by (simp add: Let_def)
qed

lemma displaced_sys_holders: "7 \<in> holders displaced_sys" "8 \<in> holders displaced_sys"
  "lease_end displaced_sys 8 = Some (Instant 120000000000, from_secs 60)" "now displaced_sys = Instant 60000000000"
  "given_back displaced_sys = {}"
proof -
  have boot: "\<not> poisoned (daemon (lease_boot (Instant 0)))" "in_force (now (lease_boot (Instant 0))) (daemon (lease_boot (Instant 0))) = None"
    by (simp_all add: lease_boot_def new_lease_server_def in_force_def)
  show "7 \<in> holders displaced_sys" "8 \<in> holders displaced_sys"
    "lease_end displaced_sys 8 = Some (Instant 120000000000, from_secs 60)" "now displaced_sys = Instant 60000000000"
    "given_back displaced_sys = {}"
    unfolding displaced_sys_def Let_def sys_grant [OF boot]
    by (simp_all add: sys_grant clamp_minute lease_boot_def new_lease_server_def in_force_def drop_expired_def learn_def
        time_simps)
qed

theorem one_of_two_holders_is_out_witness:
  "\<exists>s. lease_reachable s \<and> {7, 8} \<subseteq> holders s
    \<and> (\<forall>s' rng. lease_step\<^sup>*\<^sup>* s s' \<longrightarrow> fst (handle (Renew 7) (now s') rng (daemon s')) \<noteq> Inr Lease_ok)"
proof (intro exI conjI)
  note s = displaced_sys_holders
  show "lease_reachable displaced_sys" by (rule displaced_sys_reachable)
  show "{7, 8} \<subseteq> holders displaced_sys" using s by simp
  have "(7 :: u64) \<noteq> 8" by simp
  from one_of_two_holders_is_out [OF displaced_sys_reachable s(1,2) this]
  show "\<forall>s' rng. lease_step\<^sup>*\<^sup>* displaced_sys s' \<longrightarrow> fst (handle (Renew 7) (now s') rng (daemon s')) \<noteq> Inr Lease_ok"
    using s(3-5) by (auto simp: less_eq_instant_def)
qed

text \<open>
  C3: the handler implements the eager lease service. Over any sequence of ticks and requests
  it gives the answers of a service that frees the rig the moment a lease runs out, and it
  ends with the same lease in force.
\<close>

theorem lease_refines_eager_service:
  assumes "server_alive srv" and "lease_exec ops (srv, t) = (replies, (srv', u))"
  shows "replies = map Inr (fst (spec_exec ops (in_force t srv, t)))
    \<and> (in_force u srv', u) = snd (spec_exec ops (in_force t srv, t))"
proof -
  obtain rs lease v where "spec_exec ops (in_force t srv, t) = (rs, lease, v)"
    by (cases "spec_exec ops (in_force t srv, t)") auto
  with lease_exec_refines [OF assms(1) this] assms(2) show ?thesis by auto
qed

theorem lease_refines_eager_service_witness:
  "fst (lease_exec [Request (Acquire (lit ''a'') 60) 7, Tick (from_secs 60),
       Request (Acquire (lit ''b'') 60) 8] (new_lease_server, Instant 0))
   = [Inr (Granted 7), Inr (Granted 8)]"
proof -
  let ?ops = "[Request (Acquire (lit ''a'') 60) 7, Tick (from_secs 60),
       Request (Acquire (lit ''b'') 60) 8]"
  obtain replies srv' u where e: "lease_exec ?ops (new_lease_server, Instant 0) = (replies, (srv', u))"
    by (cases "lease_exec ?ops (new_lease_server, Instant 0)") auto
  have "clamp_ttl 60 = from_secs 60" by (simp add: clamp_ttl_def)
  then show ?thesis
    using lease_refines_eager_service [OF server_alive_new e] e
    by (simp add: spec_reply_def slot_after_def drop_expired_def)
qed

text \<open>
  C4: a client that does not hold the lease can neither end it nor extend it. A renewal or a
  release under any other identifier, another acquire and a status query leave the lease in
  force as it is, and the renewal is told that its lease is gone.
\<close>

theorem stranger_is_powerless:
  assumes "server_alive srv" and "in_force t srv = Some h"
    and "\<forall>i. req = Renew i \<or> req = Release i \<longrightarrow> i \<noteq> held_id h"
    and "handle req t rng srv = (res, srv')"
  shows "in_force t srv' = Some h \<and> \<not> poisoned srv'
    \<and> (\<forall>i. req = Renew i \<longrightarrow> res = Inr Gone) \<and> (\<forall>i. res \<noteq> Inr (Granted i))"
  using assms server_aliveD [OF assms(1)]
  by (cases req)
    (auto simp: handle_acquire_busy handle_renew handle_release handle_status)

theorem stranger_is_powerless_witness:
  "let h = \<lparr>held_id = 7, held_holder = lit ''a'', expires_at = Instant 9, held_ttl = 9\<rparr>;
       srv = \<lparr>slot = Some h, poisoned = False\<rparr>
   in in_force (Instant 8) (snd (handle (Release 8) (Instant 8) None srv)) = Some h"
proof -
  let ?h = "\<lparr>held_id = 7, held_holder = lit ''a'', expires_at = Instant 9, held_ttl = 9\<rparr>"
  let ?srv = "\<lparr>slot = Some ?h, poisoned = False\<rparr>"
  have "server_alive ?srv" "in_force (Instant 8) ?srv = Some ?h"
    by (simp_all add: server_alive_def in_force_Some less_instant_def)
  then show ?thesis
    using stranger_is_powerless [of ?srv "Instant 8" ?h "Release 8" None
        "fst (handle (Release 8) (Instant 8) None ?srv)"
        "snd (handle (Release 8) (Instant 8) None ?srv)"]
    by (simp add: Let_def)
qed

text \<open>
  A schedule in which the holder's renewals never lag: more than the time that passes since
  the last one is always left (\<open>b\<close> is what is left at the start), and nobody releases its
  identifier. Everyone else may do anything.
\<close>

fun timely :: "u64 \<Rightarrow> duration \<Rightarrow> duration \<Rightarrow> (u64, lease_event) lock_op list \<Rightarrow> bool" where
  "timely i d b [] = True"
| "timely i d b (Event (Elapse e) # ops) = (e < b \<and> timely i d (b - e) ops)"
| "timely i d b (Event (Renewal j) # ops) = timely i d (if j = i then d else b) ops"
| "timely i d b (Drop j # ops) = (j \<noteq> i \<and> timely i d b ops)"
| "timely i d b (Take j # ops) = timely i d b ops"
| "timely i d b (Event Query # ops) = timely i d b ops"

lemma in_force_elapse:
  "in_force t srv = Some h \<Longrightarrow> ns_of t + b \<le> ns_of (expires_at h) \<Longrightarrow> e < b \<Longrightarrow>
   in_force (after t e) srv = Some h"
  by (simp add: in_force_Some time_simps)

lemma timely_keeps:
  assumes "server_alive srv" and "in_force t srv = Some h" and "held_id h = i" and "held_ttl h = d"
    and "ns_of t + b \<le> ns_of (expires_at h)" and "timely i d b ops"
  shows "fst (lock_run (lease_take who ttl) lease_drop lease_env ops (srv, t)) = []
    \<and> lease_key (snd (lock_run (lease_take who ttl) lease_drop lease_env ops (srv, t))) = Some i"
  using assms
proof (induction i d b ops arbitrary: srv t h rule: timely.induct)
  case (1 i d b)
  then show ?case by (simp add: lease_key_def)
next
  case (2 i d b e ops)
  then show ?case using in_force_elapse [of t srv h b e] by simp
next
  case (3 i d b j ops)
  let ?srv = "snd (handle (Renew j) t None srv)"
  have a: "server_alive ?srv" using 3 by (simp add: server_alive_handle)
  have f: "in_force t ?srv = slot_after (Renew j) t 0 (Some h)"
    using 3 in_force_handle [of srv None 0 "Renew j" t] by simp
  show ?case
  proof (cases "j = i")
    case True
    then show ?thesis
      using 3 "3.IH" [OF a, of t "h\<lparr>expires_at := after t (held_ttl h)\<rparr>"] f
      by (simp add: slot_after_def)
  next
    case False
    then show ?thesis using 3 "3.IH" [OF a, of t h] f by (simp add: slot_after_def)
  qed
next
  case (4 i d b j ops)
  let ?srv = "snd (handle (Release j) t None srv)"
  have "server_alive ?srv" "in_force t ?srv = Some h"
    using 4 in_force_handle [of srv None 0 "Release j" t] server_alive_handle [of srv None 0 "Release j" t]
    by (auto simp: slot_after_def)
  then show ?case using 4 by (simp add: lease_drop_def)
next
  case (5 i d b j ops)
  let ?srv = "snd (handle (Acquire who ttl) t (Some (to_le_bytes 8 (unat j))) srv)"
  have "server_alive ?srv" "in_force t ?srv = Some h"
    using 5 in_force_handle [of srv "Some (to_le_bytes 8 (unat j))" j "Acquire who ttl" t]
      server_alive_handle [of srv "Some (to_le_bytes 8 (unat j))" j "Acquire who ttl" t]
    by (simp_all add: slot_after_def)
  moreover have "lease_take who ttl j (srv, t) = (False, (?srv, t))"
    using lease_take_ok [of srv who ttl j t] snd_lease_take [of who ttl j srv t] 5
    by (simp add: prod_eq_iff)
  ultimately show ?case using 5 by (simp del: to_le_bytes.simps)
next
  case (6 i d b ops)
  let ?srv = "snd (handle Status_request t None srv)"
  have "server_alive ?srv" "in_force t ?srv = Some h"
    using 6 in_force_handle [of srv None 0 Status_request t]
      server_alive_handle [of srv None 0 Status_request t]
    by (simp_all add: slot_after_def)
  then show ?case using 6 by simp
qed

text \<open>
  C2: a holder that renews in time keeps the rig. Along any schedule in which its renewals
  never lag behind its time to live and it does not release, no other client is granted the
  lease, whatever it tries, and at the end the lease is still its own.
\<close>

theorem timely_holder_keeps_rig:
  assumes "server_alive srv" and "in_force t srv = Some h"
    and "timely (held_id h) (held_ttl h) (saturating_duration_since (expires_at h) t) ops"
  shows "fst (lock_run (lease_take who ttl) lease_drop lease_env ops (srv, t)) = []
    \<and> lease_key (snd (lock_run (lease_take who ttl) lease_drop lease_env ops (srv, t)))
        = Some (held_id h)"
  using assms in_force_unexpired [OF assms(2)]
  by (intro timely_keeps) (auto simp: saturating_duration_since_def less_instant_def)

theorem timely_holder_keeps_rig_witness:
  "let h = \<lparr>held_id = 7, held_holder = lit ''a'', expires_at = Instant 9, held_ttl = 9\<rparr>
   in fst (lock_run (lease_take (lit ''b'') 60) lease_drop lease_env
        [Take 8, Event (Elapse 8), Take 9, Event (Renewal 7), Event (Elapse 8), Take 10]
        (\<lparr>slot = Some h, poisoned = False\<rparr>, Instant 0)) = []"
proof -
  let ?h = "\<lparr>held_id = 7, held_holder = lit ''a'', expires_at = Instant 9, held_ttl = 9\<rparr>"
  let ?srv = "\<lparr>slot = Some ?h, poisoned = False\<rparr>"
  have "server_alive ?srv" "in_force (Instant 0) ?srv = Some ?h"
    by (simp_all add: server_alive_def in_force_Some less_instant_def)
  then show ?thesis
    using timely_holder_keeps_rig [of ?srv "Instant 0" ?h "[Take 8, Event (Elapse 8), Take 9,
        Event (Renewal 7), Event (Elapse 8), Take 10]" "lit ''b''" 60]
    by (simp add: Let_def saturating_duration_since_def)
qed

text \<open>
  A lease that is not renewed frees itself. From its deadline on, the next acquire is
  granted, and the displaced holder's renewal is refused from then on.
\<close>

theorem unrenewed_lease_is_displaced:
  assumes "server_alive srv" and "slot srv = Some h" and "expires_at h \<le> t"
    and "mint_lease_id rng = Some i" and "handle (Acquire who ttl) t rng srv = (res, srv')"
    and "i \<noteq> held_id h"
  shows "res = Inr (Granted i)
    \<and> in_force t srv' = Some \<lparr>held_id = i, held_holder = who,
         expires_at = after t (clamp_ttl ttl), held_ttl = clamp_ttl ttl\<rparr>
    \<and> (\<forall>u rng'. t \<le> u \<longrightarrow> fst (handle (Renew (held_id h)) u rng' srv') = Inr Gone)"
proof -
  have n: "in_force t srv = None"
    using assms(2,3) by (simp add: in_force_def drop_expired_def)
  have s: "server_alive srv'" "in_force t srv' = slot_after (Acquire who ttl) t i None"
    using assms server_alive_handle [of srv rng i "Acquire who ttl" t]
      in_force_handle [of srv rng i "Acquire who ttl" t] n by simp_all
  have "fst (handle (Renew (held_id h)) u rng' srv') = Inr Gone" if "t \<le> u" for u rng'
    using in_force_no_revival [OF that, of srv'] s assms(6) server_aliveD [OF s(1)]
    by (auto simp: handle_renew slot_after_def)
  then show ?thesis
    using s fst_handle [OF assms(1), of rng i "Acquire who ttl" t] assms(4,5) n
    by (simp add: spec_reply_def slot_after_def)
qed

theorem unrenewed_lease_is_displaced_witness:
  "let h = \<lparr>held_id = 7, held_holder = lit ''a'', expires_at = Instant 9, held_ttl = 9\<rparr>
   in fst (handle (Acquire (lit ''b'') 60) (Instant 9) (Some (to_le_bytes 8 (unat (8 :: u64))))
        \<lparr>slot = Some h, poisoned = False\<rparr>) = Inr (Granted 8)"
proof -
  let ?h = "\<lparr>held_id = 7, held_holder = lit ''a'', expires_at = Instant 9, held_ttl = 9\<rparr>"
  let ?srv = "\<lparr>slot = Some ?h, poisoned = False\<rparr>"
  let ?run = "handle (Acquire (lit ''b'') 60) (Instant 9) (Some (to_le_bytes 8 (unat (8 :: u64)))) ?srv"
  have "server_alive ?srv" by (simp add: server_alive_def)
  then show ?thesis
    using unrenewed_lease_is_displaced [of ?srv ?h "Instant 9" "Some (to_le_bytes 8 (unat (8 :: u64)))"
        8 "lit ''b''" 60 "fst ?run" "snd ?run"] mint_to_le_bytes [of 8]
    by (simp add: Let_def del: to_le_bytes.simps unsigned_numeral)
qed

lemma lease_reachable_wf: "lease_reachable s \<Longrightarrow> lease_wf (now s) (daemon s)"
proof (induction rule: lease_reachable.induct)
  case (boot t)
  show ?case by (simp add: lease_boot_def lease_wf_new)
next
  case (step s s')
  from step.hyps(2) step.IH show ?case
  proof (induction rule: lease_step.induct)
    case (pass s t)
    then show ?case by (simp add: lease_wf_later)
  next
    case (request req s rng res srv)
    then show ?case using lease_wf_handle [of "now s" "daemon s" req rng] by simp
  qed simp_all
qed

text \<open>
  C6: the waiting time a contender is told is the true one. In every reachable state the
  seconds in a busy or status reply name the holder in force, are the whole seconds left of
  its lease, are at most an hour, and so survive the conversion to 32 bits.
\<close>

theorem reported_wait_is_exact:
  assumes "lease_reachable s"
    and "handle req (now s) rng (daemon s) = (Inr reply, srv)"
    and "reply = Busy who n \<or> reply = Status_reply (Some who) n"
  shows "\<exists>h. in_force (now s) (daemon s) = Some h \<and> held_holder h = who \<and> unat n \<le> 3600
    \<and> from_secs (unat n) \<le> ns_of (expires_at h) - ns_of (now s)
    \<and> ns_of (expires_at h) - ns_of (now s) < from_secs (Suc (unat n))"
proof -
  have p: "\<not> poisoned (daemon s)"
    using assms(2) by (auto simp: handle_def split: if_splits)
  obtain h where h: "in_force (now s) (daemon s) = Some h" "held_holder h = who"
    "n = expires_in_s h (now s)"
    using assms(2,3) p
    by (cases req; cases "in_force (now s) (daemon s)")
      (auto simp: handle_acquire_busy handle_acquire_free handle_renew handle_release
        handle_status split: option.splits if_splits)
  let ?left = "ns_of (expires_at h) - ns_of (now s)"
  have n: "unat n = as_secs ?left" "unat n \<le> 3600"
    using expires_in_bounds [OF lease_reachable_wf [OF assms(1)] h(1)] h(3) by simp_all
  have "from_secs (as_secs ?left) \<le> ?left" "?left < from_secs (Suc (as_secs ?left))"
    by (rule as_secs_floor)+
  then show ?thesis
    using h n by auto
qed

theorem reported_wait_is_exact_witness:
  "\<exists>s. lease_reachable s \<and> (\<exists>n. fst (handle Status_request (now s) None (daemon s))
      = Inr (Status_reply (Some (lit ''a'')) n) \<and> unat n \<le> 3600)"
proof -
  let ?s0 = "lease_boot (Instant 0)"
  let ?req = "Acquire (lit ''a'') 60" and ?rng = "Some (to_le_bytes 8 (unat (7 :: u64)))"
  obtain r srv where h: "handle ?req (Instant 0) ?rng new_lease_server = (r, srv)"
    by (cases "handle ?req (Instant 0) ?rng new_lease_server") auto
  let ?s1 = "sys_request ?req 7 ?s0"
  have s1: "daemon ?s1 = srv" "now ?s1 = Instant 0"
    using h by (simp_all add: sys_request_def lease_boot_def del: to_le_bytes.simps unsigned_numeral)
  have reach: "lease_reachable ?s1"
    by (rule sys_request_step [OF lease_reachable.boot]) (simp add: lease_boot_def)
  have a: "server_alive srv" "in_force (Instant 0) srv \<noteq> None"
    "map_option held_holder (in_force (Instant 0) srv) = Some (lit ''a'')"
    using h server_alive_handle [of new_lease_server ?rng 7 ?req "Instant 0"]
      in_force_handle [of new_lease_server ?rng 7 ?req "Instant 0"] mint_to_le_bytes [of 7]
    by (simp_all add: slot_after_def del: to_le_bytes.simps unsigned_numeral)
  then obtain n where n: "handle Status_request (now ?s1) None (daemon ?s1)
      = (Inr (Status_reply (Some (lit ''a'')) n), snd (handle Status_request (now ?s1) None (daemon ?s1)))"
    using fst_handle [of srv None 0 Status_request "Instant 0"] s1
    by (auto simp: spec_reply_def prod_eq_iff)
  from reported_wait_is_exact [OF reach n, of "lit ''a''" n] have "unat n \<le> 3600" by blast
  with reach n show ?thesis by (metis fst_conv)
qed

text \<open>
  A connection serves the lease protocol request by request. A client that sends any
  sequence of requests and hangs up is answered with exactly the replies of the handler, in
  order, each in a frame of its own, whatever other connections did to the server in
  between; the session then ends normally.
\<close>

theorem connection_answers_every_request:
  assumes "list_all (carries qc) reqs" and "answers env 0 srv reqs = (Inr replies, srv')"
    and "list_all (carries rc) replies" and "tx_plan s = []" and "tx s = []"
    and "rx s = concat (map (wire qc) reqs)" and "rx_end s = Unexpected_eof"
    and "serve_conn qc rc debug env 0 srv s = (res, srv'', s')"
  shows "res = Inr () \<and> srv'' = srv' \<and> length replies = length reqs
    \<and> tx s' = concat (map (wire rc) replies)"
proof -
  have "length replies = length reqs" if "answers env k srv reqs = (Inr replies, srv')" for k
    using that
    by (induction reqs arbitrary: k srv replies) (auto split: prod.splits sum.splits)
  then show ?thesis
    using assms serve_conn_session [of qc reqs rc replies env 0 srv srv' s debug] by auto
qed

text \<open>An encoding of the requests and replies used in the instance.\<close>

definition demo_requests :: "lease_request codec" where
  "demo_requests = \<lparr>ser = (\<lambda>r. case r of Status_request \<Rightarrow> Inr [3] | _ \<Rightarrow> Inl Serde_error),
     de = (\<lambda>b. if b = [3] then Inr Status_request else Inl Serde_error)\<rparr>"

definition demo_replies :: "lease_reply codec" where
  "demo_replies = \<lparr>ser = (\<lambda>r. if r = Status_reply None 0 then Inr [4] else Inl Serde_error),
     de = (\<lambda>b. if b = [4] then Inr (Status_reply None 0) else Inl Serde_error)\<rparr>"

theorem connection_answers_every_request_witness:
  "let env = \<lparr>interfere = (\<lambda>_ s. s), clock_at = (\<lambda>k. Instant k), random_at = (\<lambda>_. None)\<rparr>;
       s = stream_of (concat (map (wire demo_requests) [Status_request, Status_request])) Unexpected_eof
   in tx (snd (snd (serve_conn demo_requests demo_replies True env 0 new_lease_server s)))
      = concat (map (wire demo_replies) [Status_reply None 0, Status_reply None 0])"
proof -
  let ?env = "\<lparr>interfere = (\<lambda>_ s. s), clock_at = (\<lambda>k. Instant k), random_at = (\<lambda>_. None)\<rparr>"
  let ?s = "stream_of (concat (map (wire demo_requests) [Status_request, Status_request])) Unexpected_eof"
  let ?run = "serve_conn demo_requests demo_replies True ?env 0 new_lease_server ?s"
  have st: "handle Status_request t None new_lease_server = (Inr (Status_reply None 0), new_lease_server)"
    for t by (simp add: handle_status new_lease_server_def in_force_def)
  have "answers ?env 0 new_lease_server [Status_request, Status_request]
      = (Inr [Status_reply None 0, Status_reply None 0], new_lease_server)"
    by (simp add: st)
  moreover have "list_all (carries demo_requests) [Status_request, Status_request]"
    "list_all (carries demo_replies) [Status_reply None 0, Status_reply None 0]"
    by (simp_all add: carries_def demo_requests_def demo_replies_def MAX_FRAME_def)
  ultimately show ?thesis
    using connection_answers_every_request [of demo_requests "[Status_request, Status_request]" ?env
        new_lease_server "[Status_reply None 0, Status_reply None 0]" new_lease_server demo_replies
        ?s True "fst ?run" "fst (snd ?run)" "snd (snd ?run)"]
    by (simp add: Let_def)
qed

end
