(* ===== verification/LeaseClient.thy ===== *)
theory LeaseClient
  imports LeaseSystem
begin

text \<open>
  The client side of the network lease (\<open>banc-host/src/net/lease.rs\<close>): connecting over the
  resolved addresses, one request-reply round trip, the status query, acquiring with retries
  until a deadline, the renewal loop with its reconnection, and the bounded join on drop.

  The loops run against an interface \<open>lease_io\<close> (opening a connection, one round trip on
  it, starting the renewal thread) over an arbitrary world, because what comes back depends
  on the daemon and on everyone else. \<open>loopback\<close> instantiates it with the model's own
  server: a world of one daemon, a network with latency and cut connections, and strangers
  whose requests come in between.
\<close>

section \<open>Constants and errors\<close>

definition DEFAULT_TTL :: duration where
  "DEFAULT_TTL = from_secs 60"

definition LEASE_CONNECT_TIMEOUT :: duration where
  "LEASE_CONNECT_TIMEOUT = from_secs 5"

definition IO_TIMEOUT :: duration where
  "IO_TIMEOUT = from_secs 5"

definition JOIN_TIMEOUT :: duration where
  "JOIN_TIMEOUT = from_secs 15"

datatype link_error =
    Resolving rstr io_error
  | Connecting rstr io_error
  | No_addresses rstr
  | Link net_error
  | Thread_spawn io_error

datatype client_error =
    Transport link_error
  | Unexpected_reply lease_reply
  | Gave_up rstr u32 duration
  | Now_held_by rstr
  | Lease_deadline_panic

definition transport :: "(link_error + 'a) \<times> 'w \<Rightarrow> (client_error + 'a) \<times> 'w" where
  "transport m = (map_err Transport (fst m), snd m)"

section \<open>Connecting\<close>

text \<open>Each resolved address is tried in turn; the error reported is the last one.\<close>

fun try_addrs :: "rstr \<Rightarrow> (duration \<Rightarrow> 'sa \<Rightarrow> io_error + stream) \<Rightarrow> io_error option \<Rightarrow> 'sa list
    \<Rightarrow> link_error + stream" where
  "try_addrs addr tcp last_err [] =
     (case last_err of Some e \<Rightarrow> Inl (Connecting addr e) | None \<Rightarrow> Inl (No_addresses addr))"
| "try_addrs addr tcp last_err (sa # sas) =
     (case tcp LEASE_CONNECT_TIMEOUT sa of
        Inr s \<Rightarrow> Inr s | Inl e \<Rightarrow> try_addrs addr tcp (Some e) sas)"

definition connect_timeout ::
  "(rstr \<Rightarrow> io_error + 'sa list) \<Rightarrow> (duration \<Rightarrow> 'sa \<Rightarrow> io_error + stream) \<Rightarrow> rstr \<Rightarrow> link_error + stream" where
  "connect_timeout resolve tcp addr =
    and_then (map_err (Resolving addr) (resolve addr)) (\<lambda>addrs. try_addrs addr tcp None addrs)"

definition connect ::
  "hello codec \<Rightarrow> hello_reply codec \<Rightarrow> bool \<Rightarrow> (rstr \<Rightarrow> io_error + 'sa list)
   \<Rightarrow> (duration \<Rightarrow> 'sa \<Rightarrow> io_error + stream) \<Rightarrow> rstr \<Rightarrow> rstr \<Rightarrow> link_error + stream" where
  "connect hc rc debug resolve tcp addr tok =
    and_then (connect_timeout resolve tcp addr) (\<lambda>s.
      case st_then (net_io (set_option No_delay s)) (\<lambda>_ s1.
           st_then (net_io (set_option (Read_timeout IO_TIMEOUT) s1)) (\<lambda>_ s2.
           st_then (net_io (set_option (Write_timeout IO_TIMEOUT) s2)) (\<lambda>_ s3.
             handshake_client_sync hc rc debug Lease_role tok s3))) of
        (Inl e, _) \<Rightarrow> Inl (Link e)
      | (Inr _, s4) \<Rightarrow> Inr s4)"

definition roundtrip ::
  "lease_request codec \<Rightarrow> lease_reply codec \<Rightarrow> bool \<Rightarrow> lease_request \<Rightarrow> stream
   \<Rightarrow> (net_error + lease_reply) \<times> stream" where
  "roundtrip qc pc debug req s =
    st_then (st_lift (map_err Net_serde (ser qc req)) s) (\<lambda>b s1.
    st_then (net_io (write_frame_sync debug b s1)) (\<lambda>_ s2.
    st_then (net_io (read_frame_sync s2)) (\<lambda>f s3.
      st_lift (map_err Net_serde (de pc f)) s3)))"

record lease_status =
  status_holder :: "rstr option"
  status_expires_in_s :: u32

definition query_status ::
  "(link_error + stream) \<Rightarrow> lease_request codec \<Rightarrow> lease_reply codec \<Rightarrow> bool
   \<Rightarrow> client_error + lease_status" where
  "query_status connected qc pc debug =
    and_then (map_err Transport connected) (\<lambda>s.
    and_then (map_err (Transport \<circ> Link) (fst (roundtrip qc pc debug Status_request s))) (\<lambda>reply.
      case reply of
        Status_reply who n \<Rightarrow> Inr \<lparr>status_holder = who, status_expires_in_s = n\<rparr>
      | other \<Rightarrow> Inl (Unexpected_reply other)))"

section \<open>Acquiring\<close>

record ('c, 'w) lease_io =
  io_connect :: "'w \<Rightarrow> (link_error + 'c) \<times> 'w"
  io_roundtrip :: "'c \<Rightarrow> lease_request \<Rightarrow> 'w \<Rightarrow> (link_error + lease_reply) \<times> 'w"
  io_spawn :: "'w \<Rightarrow> (link_error + unit) \<times> 'w"
  io_clock :: "'w \<Rightarrow> instant"
  io_sleep :: "duration \<Rightarrow> 'w \<Rightarrow> 'w"

text \<open>
  The handle that \<open>lease_acquire\<close> hands out owns the renewal thread, which owns the connection
  and the identifier; the handle is represented by these two. A deadline that cannot be
  represented panics before anything is sent.

  One turn of the acquire loop: done with an identifier or an error, or still busy.\<close>

definition acquire_attempt ::
  "('c, 'w) lease_io \<Rightarrow> rstr \<Rightarrow> duration \<Rightarrow> 'c
   \<Rightarrow> 'w \<Rightarrow> 'w \<times> ((client_error + u64) + (rstr \<times> u32))" where
  "acquire_attempt io who ttl c w =
    (case io_roundtrip io c (Acquire who (of_nat (as_secs ttl))) w of
       (Inl e, w') \<Rightarrow> (w', Inl (Inl (Transport e)))
     | (Inr (Granted i), w') \<Rightarrow> (w', Inl (Inr i))
     | (Inr (Busy other n), w') \<Rightarrow> (w', Inr (other, n))
     | (Inr other, w') \<Rightarrow> (w', Inl (Inl (Unexpected_reply other))))"

definition lease_acquire ::
  "('c, 'w) lease_io \<Rightarrow> rstr \<Rightarrow> duration \<Rightarrow> 'w \<Rightarrow> ((client_error + ('c \<times> u64)) \<times> 'w) option" where
  "lease_acquire io who timeout w =
    (case checked_add (io_clock io w) timeout of
       None \<Rightarrow> Some (Inl Lease_deadline_panic, w)
     | Some deadline \<Rightarrow>
         (case io_connect io w of
            (Inl e, w1) \<Rightarrow> Some (Inl (Transport e), w1)
          | (Inr c, w1) \<Rightarrow>
              (case retry_loop (acquire_attempt io who DEFAULT_TTL c) (io_clock io) (io_sleep io)
                      (from_secs 1) deadline w1 of
                 None \<Rightarrow> None
               | Some (w2, Inr (other, n)) \<Rightarrow> Some (Inl (Gave_up other n timeout), w2)
               | Some (w2, Inl (Inl e)) \<Rightarrow> Some (Inl e, w2)
               | Some (w2, Inl (Inr i)) \<Rightarrow>
                   (case io_spawn io w2 of
                      (Inl e, w3) \<Rightarrow> Some (Inl (Transport e), w3)
                    | (Inr _, w3) \<Rightarrow> Some (Inr (c, i), w3)))))"

section \<open>Renewing\<close>

definition reacquire ::
  "('c, 'w) lease_io \<Rightarrow> rstr \<Rightarrow> duration \<Rightarrow> 'w \<Rightarrow> (client_error + ('c \<times> u64)) \<times> 'w" where
  "reacquire io who ttl w =
    st_then (transport (io_connect io w)) (\<lambda>c w1.
    st_then (transport (io_roundtrip io c (Acquire who (of_nat (as_secs ttl))) w1)) (\<lambda>reply w2.
      case reply of
        Granted i \<Rightarrow> (Inr (c, i), w2)
      | Busy other _ \<Rightarrow> (Inl (Now_held_by other), w2)
      | other \<Rightarrow> (Inl (Unexpected_reply other), w2)))"

text \<open>What the thread prints.\<close>

datatype notice =
    Expired_reacquiring
  | Lost_and_reacquire_failed client_error
  | Unexpected_renew_reply lease_reply
  | Renew_failed_reconnecting link_error
  | Reconnect_failed client_error

text \<open>
  The thread sleeps a third of the time to live or until it is told to stop. On a stop it
  releases and ends (the flag in the result); on a timeout it renews. The list says what
  each wait ends with; at its end the thread is still waiting.
\<close>

datatype wake = Timer | Stop

type_synonym ('c, 'w) renewer = "('c \<times> u64) \<times> notice list \<times> 'w"

definition renew_once ::
  "('c, 'w) lease_io \<Rightarrow> rstr \<Rightarrow> duration \<Rightarrow> 'c \<times> u64 \<Rightarrow> 'w \<Rightarrow> ('c, 'w) renewer" where
  "renew_once io who ttl ci w =
    (case io_roundtrip io (fst ci) (Renew (snd ci)) w of
       (Inr Lease_ok, w1) \<Rightarrow> (ci, [], w1)
     | (Inr Gone, w1) \<Rightarrow>
         (case reacquire io who ttl w1 of
            (Inr ci', w2) \<Rightarrow> (ci', [Expired_reacquiring], w2)
          | (Inl e, w2) \<Rightarrow> (ci, [Expired_reacquiring, Lost_and_reacquire_failed e], w2))
     | (Inr other, w1) \<Rightarrow> (ci, [Unexpected_renew_reply other], w1)
     | (Inl e, w1) \<Rightarrow>
         (case reacquire io who ttl w1 of
            (Inr ci', w2) \<Rightarrow> (ci', [Renew_failed_reconnecting e], w2)
          | (Inl e', w2) \<Rightarrow> (ci, [Renew_failed_reconnecting e, Reconnect_failed e'], w2)))"

fun renew_loop ::
  "('c, 'w) lease_io \<Rightarrow> rstr \<Rightarrow> duration \<Rightarrow> wake list \<Rightarrow> 'c \<times> u64 \<Rightarrow> 'w
   \<Rightarrow> bool \<times> ('c, 'w) renewer" where
  "renew_loop io who ttl [] ci w = (False, ci, [], w)"
| "renew_loop io who ttl (Stop # _) ci w =
     (True, ci, [], snd (io_roundtrip io (fst ci) (Release (snd ci)) w))"
| "renew_loop io who ttl (Timer # wakes) ci w =
     (let (ci1, ns, w1) = renew_once io who ttl ci (io_sleep io (ttl div 3) w);
          (ended, ci2, ns', w2) = renew_loop io who ttl wakes ci1 w1
      in (ended, ci2, ns @ ns', w2))"

section \<open>Dropping the client\<close>

text \<open>
  The handle: the sending end of the stop channel and the thread. Dropping it closes the
  channel, which wakes the thread, then waits for the thread, but not longer than the join
  timeout; \<open>th_join\<close> reaps a finished thread.
\<close>

record ('s, 't) lease_client =
  stop :: "'s option"
  thread :: "'t option"

record ('s, 't, 'w) threads =
  th_drop_sender :: "'s \<Rightarrow> 'w \<Rightarrow> 'w"
  th_is_finished :: "'t \<Rightarrow> 'w \<Rightarrow> bool"
  th_join :: "'t \<Rightarrow> 'w \<Rightarrow> 'w"
  th_clock :: "'w \<Rightarrow> instant"
  th_sleep :: "duration \<Rightarrow> 'w \<Rightarrow> 'w"

datatype drop_notice = Did_not_exit duration

definition poll_finished :: "('s, 't, 'w) threads \<Rightarrow> 't \<Rightarrow> 'w \<Rightarrow> 'w \<times> (unit + unit)" where
  "poll_finished th t w = (w, if th_is_finished th t w then Inl () else Inr ())"

definition client_drop ::
  "('s, 't, 'w) threads \<Rightarrow> ('s, 't) lease_client \<Rightarrow> 'w \<Rightarrow> (drop_notice list \<times> 'w) option" where
  "client_drop th c w =
    (let w1 = (case stop c of None \<Rightarrow> w | Some s \<Rightarrow> th_drop_sender th s w) in
     case thread c of
       None \<Rightarrow> Some ([], w1)
     | Some t \<Rightarrow>
         (case retry_loop (poll_finished th t) (th_clock th) (th_sleep th) (from_millis 20)
                 (after (th_clock th w1) JOIN_TIMEOUT) w1 of
            None \<Rightarrow> None
          | Some (w2, Inl _) \<Rightarrow> Some ([], th_join th t w2)
          | Some (w2, Inr _) \<Rightarrow> Some ([Did_not_exit JOIN_TIMEOUT], w2)))"

section \<open>What the loops ask of their world\<close>

definition keeps_time :: "('c, 'w) lease_io \<Rightarrow> bool" where
  "keeps_time io \<longleftrightarrow>
    (\<forall>c r w. io_clock io w \<le> io_clock io (snd (io_roundtrip io c r w))) \<and>
    (\<forall>d w. after (io_clock io w) d \<le> io_clock io (io_sleep io d w))"

lemma fst_acquire_attempt:
  "fst (acquire_attempt io who ttl c w) =
   snd (io_roundtrip io c (Acquire who (of_nat (as_secs ttl))) w)"
  by (auto simp: acquire_attempt_def split: prod.splits sum.splits lease_reply.splits)

lemma acquire_attempt_timed:
  "keeps_time io \<Longrightarrow> timed_world (acquire_attempt io who ttl c) (io_clock io) (io_sleep io)"
  by unfold_locales (auto simp: keeps_time_def fst_acquire_attempt)

lemma acquire_attempt_done:
  "acquire_attempt io who ttl c u = (v, Inl (Inr i)) \<longleftrightarrow>
   io_roundtrip io c (Acquire who (of_nat (as_secs ttl))) u = (Inr (Granted i), v)"
  by (auto simp: acquire_attempt_def split: prod.splits sum.splits lease_reply.splits)

lemma acquire_attempt_busy:
  "acquire_attempt io who ttl c u = (v, Inr (other, n)) \<longleftrightarrow>
   io_roundtrip io c (Acquire who (of_nat (as_secs ttl))) u = (Inr (Busy other n), v)"
  by (auto simp: acquire_attempt_def split: prod.splits sum.splits lease_reply.splits)

lemma acquire_loop_returns:
  assumes "keeps_time io"
  obtains v r where "retry_loop (acquire_attempt io who DEFAULT_TTL c) (io_clock io) (io_sleep io)
    (from_secs 1) deadline w = Some (v, r)"
  using timed_world.retry_terminates [OF acquire_attempt_timed [OF assms, of who DEFAULT_TTL c],
      of "from_secs 1" deadline w]
  by (auto simp: from_secs_def nanos_per_sec_def)

text \<open>The possible courses of an acquire, with the last round trip that decided it.\<close>

lemma lease_acquire_cases:
  assumes "keeps_time io"
  obtains (no_connection) e w1 where "lease_acquire io who timeout w = Some (Inl (Transport e), w1)"
  | (failed) v e where
      "lease_acquire io who timeout w = Some (Inl e, v)" "\<And>o' n t. e \<noteq> Gave_up o' n t"
  | (gave_up) c u v other n where "lease_acquire io who timeout w = Some (Inl (Gave_up other n timeout), v)"
      "io_roundtrip io c (Acquire who 60) u = (Inr (Busy other n), v)"
      "after (io_clock io w) timeout \<le> io_clock io v"
  | (granted) c u v i w3 where "lease_acquire io who timeout w = Some (Inr (c, i), w3)"
      "io_roundtrip io c (Acquire who 60) u = (Inr (Granted i), v)" "io_spawn io v = (Inr (), w3)"
proof (cases "ns_of (io_clock io w) + timeout < instant_limit")
  case False
  then show thesis by (intro failed) (auto simp: lease_acquire_def checked_add_def)
next
  case fits: True
  obtain x w1 where Pair: "io_connect io w = (x, w1)" by (rule prod.exhaust)
  show thesis
  proof (cases x)
    case (Inl e)
    with Pair fits show thesis by (intro no_connection) (simp add: lease_acquire_def checked_add_def)
  next
    case (Inr c)
    let ?deadline = "after (io_clock io w) timeout"
    obtain v r where loop: "retry_loop (acquire_attempt io who DEFAULT_TTL c) (io_clock io)
        (io_sleep io) (from_secs 1) ?deadline w1 = Some (v, r)"
      by (rule acquire_loop_returns [OF assms])
    obtain u where u: "acquire_attempt io who DEFAULT_TTL c u = (v, r)"
      "\<And>a. r = Inr a \<Longrightarrow> ?deadline \<le> io_clock io v"
      by (rule retry_result [OF loop, of "\<lambda>_. True"]) auto
    have t: "of_nat (as_secs DEFAULT_TTL) = (60 :: u32)"
      by (simp add: DEFAULT_TTL_def time_simps)
    have acq: "lease_acquire io who timeout w = (case r of
        Inr (other, n) \<Rightarrow> Some (Inl (Gave_up other n timeout), v)
      | Inl (Inl e) \<Rightarrow> Some (Inl e, v)
      | Inl (Inr i) \<Rightarrow> (case io_spawn io v of (Inl e, w3) \<Rightarrow> Some (Inl (Transport e), w3)
          | (Inr _, w3) \<Rightarrow> Some (Inr (c, i), w3)))"
      using Pair Inr loop fits by (auto simp: lease_acquire_def checked_add_def split: sum.split)
    show thesis
    proof (cases r)
      case (Inr a)
      then show thesis
        using gave_up [of "fst a" "snd a" v c u] u acq acquire_attempt_busy [of io who DEFAULT_TTL c u v] t
        by (cases a) auto
    next
      case (Inl a)
      show thesis
      proof (cases a)
        case (Inl e)
        have "e \<noteq> Gave_up o' n t'" for o' n t'
          using u(1) \<open>r = Inl a\<close> Inl
          by (auto simp: acquire_attempt_def split: prod.splits sum.splits lease_reply.splits)
        then show thesis using failed acq \<open>r = Inl a\<close> Inl by simp
      next
        case (Inr i)
        have g: "io_roundtrip io c (Acquire who 60) u = (Inr (Granted i), v)"
          using u(1) \<open>r = Inl a\<close> Inr acquire_attempt_done [of io who DEFAULT_TTL c u v i] t by simp
        show thesis
        proof (cases "io_spawn io v")
          case (Pair y w3)
          then show thesis
            using g acq \<open>r = Inl a\<close> Inr no_connection granted [of c i w3 u v]
            by (cases y) auto
        qed
      qed
    qed
  qed
qed

lemma lease_acquire_granted:
  assumes "lease_acquire io who timeout w = Some (Inr (c, i), w')"
  obtains w1 w2 where "io_connect io w = (Inr c, w1)"
    "retry_loop (acquire_attempt io who DEFAULT_TTL c) (io_clock io) (io_sleep io)
       (from_secs 1) (after (io_clock io w) timeout) w1 = Some (w2, Inl (Inr i))"
    "io_spawn io w2 = (Inr (), w')"
  using assms
  by (auto simp: lease_acquire_def checked_add_def split: prod.splits sum.splits option.splits if_splits)

section \<open>Every wait is bounded\<close>

lemma st_then_options:
  assumes "\<And>x v. m = (Inr x, v) \<Longrightarrow> sock_options (snd (k x v)) = sock_options v"
  shows "sock_options (snd (st_then m k)) = sock_options (snd m)"
  using assms by (cases "(m, k)" rule: st_then.cases) auto

text \<open>The handshake leaves the options of the connection as \<open>connect\<close> set them.\<close>

lemma frame_options [simp]:
  "sock_options (snd (write_frame debug d s)) = sock_options s"
  "sock_options (snd (read_frame s)) = sock_options s"
proof -
  have w: "sock_options (snd (write_all d s)) = sock_options s" for d s
    by (auto simp: write_all_def split: list.splits option.splits)
  have r: "sock_options (snd (read_exact n s)) = sock_options s" for n s
    by (simp add: read_exact_def)
  show "sock_options (snd (write_frame debug d s)) = sock_options s"
    by (simp add: write_frame_def st_then_options flush_def w)
  show "sock_options (snd (read_frame s)) = sock_options s"
    by (simp add: read_frame_def st_then_options Let_def r)
qed

lemma msg_options [simp]:
  "sock_options (snd (send_msg c debug m s)) = sock_options s"
  "sock_options (snd (recv_msg c s)) = sock_options s"
  by (simp_all add: send_msg_def recv_msg_def st_then_options net_io_def st_lift_def)

lemma handshake_options:
  "sock_options (snd (handshake_client_sync hc rc debug r tok s)) = sock_options s"
  by (simp add: handshake_client_sync_def st_then_options Let_def split: hello_reply.split)

lemma net_io_Inr: "net_io m = (Inr x, v) \<longleftrightarrow> m = (Inr x, v)"
  by (cases m; cases "fst m") (auto simp: net_io_def)

lemma set_option_sets: "set_option opt s = (Inr u, v) \<Longrightarrow> sock_options v = sock_options s @ [opt]"
  by (auto simp: set_option_def split: list.splits option.splits)

lemma try_addrs_Inr:
  "try_addrs addr tcp last_err addrs = Inr s \<longleftrightarrow>
   (\<exists>pre sa post. addrs = pre @ sa # post \<and> (\<forall>a \<in> set pre. \<not> is_ok (tcp LEASE_CONNECT_TIMEOUT a))
      \<and> tcp LEASE_CONNECT_TIMEOUT sa = Inr s)"
proof (induction addrs arbitrary: last_err)
  case Nil
  then show ?case by (simp split: option.split)
next
  case (Cons a addrs)
  let ?refused = "\<lambda>pre. \<forall>a \<in> set pre. \<not> is_ok (tcp LEASE_CONNECT_TIMEOUT a)"
  have "(\<exists>pre sa post. a # addrs = pre @ sa # post \<and> ?refused pre \<and> tcp LEASE_CONNECT_TIMEOUT sa = Inr s)
      \<longleftrightarrow> tcp LEASE_CONNECT_TIMEOUT a = Inr s \<or> \<not> is_ok (tcp LEASE_CONNECT_TIMEOUT a)
        \<and> (\<exists>pre sa post. addrs = pre @ sa # post \<and> ?refused pre \<and> tcp LEASE_CONNECT_TIMEOUT sa = Inr s)"
    (is "?l \<longleftrightarrow> ?now \<or> ?no \<and> ?later")
  proof
    assume ?l
    then obtain pre sa post where p: "a # addrs = pre @ sa # post" "?refused pre"
      "tcp LEASE_CONNECT_TIMEOUT sa = Inr s"
      by blast
    then show "?now \<or> ?no \<and> ?later" by (cases pre) auto
  next
    assume "?now \<or> ?no \<and> ?later"
    then show ?l by (metis append_Cons append_Nil set_ConsD empty_iff list.set(1))
  qed
  with Cons.IH show ?case by (cases "tcp LEASE_CONNECT_TIMEOUT a") auto
qed

text \<open>
  No connection to a lease server can block for ever. A connection that \<open>connect\<close> returns
  was made to the first resolved address that accepts within the connect timeout, those
  before it were tried and refused, and its reads and writes are limited to the I/O timeout
  from before the handshake on.
\<close>

theorem lease_connections_are_bounded:
  assumes "connect hc rc debug resolve tcp addr tok = Inr s"
  shows "\<exists>pre sa post s0. resolve addr = Inr (pre @ sa # post)
    \<and> (\<forall>a \<in> set pre. \<not> is_ok (tcp LEASE_CONNECT_TIMEOUT a)) \<and> tcp LEASE_CONNECT_TIMEOUT sa = Inr s0
    \<and> sock_options s = sock_options s0 @ [No_delay, Read_timeout IO_TIMEOUT, Write_timeout IO_TIMEOUT]"
proof -
  obtain addrs s0 where a: "resolve addr = Inr addrs" "try_addrs addr tcp None addrs = Inr s0"
    and "(case st_then (net_io (set_option No_delay s0)) (\<lambda>_ s1.
           st_then (net_io (set_option (Read_timeout IO_TIMEOUT) s1)) (\<lambda>_ s2.
           st_then (net_io (set_option (Write_timeout IO_TIMEOUT) s2)) (\<lambda>_ s3.
             handshake_client_sync hc rc debug Lease_role tok s3))) of
        (Inl e, _) \<Rightarrow> Inl (Link e) | (Inr _, s4) \<Rightarrow> Inr s4) = Inr s"
    using assms by (auto simp: connect_def connect_timeout_def result_simps)
  then obtain s1 s2 s3 where o: "set_option No_delay s0 = (Inr (), s1)"
    "set_option (Read_timeout IO_TIMEOUT) s1 = (Inr (), s2)"
    "set_option (Write_timeout IO_TIMEOUT) s2 = (Inr (), s3)"
    "handshake_client_sync hc rc debug Lease_role tok s3 = (Inr (), s)"
    by (auto simp: result_simps net_io_Inr split: prod.splits sum.splits)
  have "sock_options s = sock_options s3"
    using handshake_options [of hc rc debug Lease_role tok s3] o(4) by simp
  with o(1-3) [THEN set_option_sets]
  have "sock_options s = sock_options s0 @ [No_delay, Read_timeout IO_TIMEOUT, Write_timeout IO_TIMEOUT]"
    by simp
  with a show ?thesis by (auto simp: try_addrs_Inr)
qed

text \<open>The wait on drop.\<close>

lemma client_drop_bounded:
  assumes sleep: "\<And>d v. after (th_clock th v) d \<le> th_clock th (th_sleep th d v)
      \<and> th_clock th (th_sleep th d v) \<le> after (th_clock th v) (d + slack)"
    and thread: "thread c = Some t"
    and w1: "w1 = (case stop c of None \<Rightarrow> w | Some s \<Rightarrow> th_drop_sender th s w)"
  obtains (joined) v where "client_drop th c w = Some ([], th_join th t v)" "th_is_finished th t v"
      "th_clock th v \<le> after (th_clock th w1) (JOIN_TIMEOUT + from_millis 20 + slack)"
  | (detached) v where "client_drop th c w = Some ([Did_not_exit JOIN_TIMEOUT], v)" "\<not> th_is_finished th t v"
      "after (th_clock th w1) JOIN_TIMEOUT \<le> th_clock th v"
      "th_clock th v \<le> after (th_clock th w1) (JOIN_TIMEOUT + from_millis 20 + slack)"
proof -
  let ?deadline = "after (th_clock th w1) JOIN_TIMEOUT"
  let ?P = "\<lambda>v. th_clock th v \<le> after (th_clock th w1) (JOIN_TIMEOUT + from_millis 20 + slack)"
  have timed: "timed_world (poll_finished th t) (th_clock th) (th_sleep th)"
    by unfold_locales (simp_all add: poll_finished_def sleep)
  obtain v r where loop: "retry_loop (poll_finished th t) (th_clock th) (th_sleep th) (from_millis 20)
      ?deadline w1 = Some (v, r)"
    using timed_world.retry_terminates [OF timed, of "from_millis 20" ?deadline w1]
    by (auto simp: from_millis_def)
  have keep: "?P (th_sleep th (from_millis 20) w')"
    if "?P u" "poll_finished th t u = (w', Inr x)" "th_clock th w' < ?deadline" for u w' x
    using that sleep [of w' "from_millis 20"] by (auto simp: less_instant_def less_eq_instant_def)
  obtain u where u: "?P u" "poll_finished th t u = (v, r)" "\<And>a. r = Inr a \<Longrightarrow> ?deadline \<le> th_clock th v"
    by (rule retry_result [OF loop, of ?P, OF _ keep]) (auto simp: less_eq_instant_def)
  have d: "client_drop th c w = (case r of Inl _ \<Rightarrow> Some ([], th_join th t v)
      | Inr _ \<Rightarrow> Some ([Did_not_exit JOIN_TIMEOUT], v))"
    using loop thread by (auto simp: client_drop_def Let_def simp flip: w1 split: sum.split)
  show thesis
    using d u joined [of v] detached [of v]
    by (cases r) (auto simp: poll_finished_def split: if_splits)
qed

section \<open>The loopback world\<close>

text \<open>
  One daemon, running the model's own server, and a network to it. Every round trip of the
  client takes the latency; the requests of strangers that come in meanwhile are the next
  entry of the script. The client waits for an answer no longer than its socket's timeouts
  let it: when the latency reaches them the network delivers nothing to it, and connecting and
  every round trip end with the error of a timeout. A connection that was cut fails every round
  trip. Opening one takes a round trip to connect and another for the handshake, and works as
  long as the daemon is reachable.
\<close>

record loopback =
  lb_daemon :: lease_server
  lb_now :: instant
  lb_ids :: "nat \<Rightarrow> u64"
  lb_grants :: nat
  lb_conns :: nat
  lb_cut :: "nat list"
  lb_reachable :: bool
  lb_latency :: duration
  lb_script :: "lease_request list list"

definition lb_handle :: "lease_request \<Rightarrow> loopback \<Rightarrow> (link_error + lease_reply) \<times> loopback" where
  "lb_handle req w =
    (case handle req (lb_now w) (Some (to_le_bytes 8 (unat (lb_ids w (lb_grants w))))) (lb_daemon w) of
       (Inl _, srv) \<Rightarrow> (Inl (Link (Net_io Unexpected_eof)), w\<lparr>lb_daemon := srv\<rparr>)
     | (Inr reply, srv) \<Rightarrow> (Inr reply, w\<lparr>lb_daemon := srv, lb_grants := Suc (lb_grants w)\<rparr>))"

fun lb_strangers :: "lease_request list \<Rightarrow> loopback \<Rightarrow> loopback" where
  "lb_strangers [] w = w"
| "lb_strangers (r # rs) w = lb_strangers rs (snd (lb_handle r w))"

definition lb_timely :: "loopback \<Rightarrow> bool" where
  "lb_timely w \<longleftrightarrow> lb_latency w < IO_TIMEOUT"

definition lb_wait :: "loopback \<Rightarrow> duration" where
  "lb_wait w = min (lb_latency w) IO_TIMEOUT"

definition lb_meanwhile :: "loopback \<Rightarrow> loopback" where
  "lb_meanwhile w =
    (let w1 = w\<lparr>lb_now := after (lb_now w) (lb_wait w), lb_script := tl (lb_script w)\<rparr>
     in case lb_script w of [] \<Rightarrow> w1 | rs # _ \<Rightarrow> lb_strangers rs w1)"

definition lb_connect :: "loopback \<Rightarrow> (link_error + nat) \<times> loopback" where
  "lb_connect w =
    (if \<not> lb_timely w then (Inl (Connecting (lit ''daemon'') (Os_error 110)), lb_meanwhile w)
     else if \<not> lb_reachable w then (Inl (Connecting (lit ''daemon'') (Os_error 111)), lb_meanwhile w)
     else (Inr (lb_conns w), (lb_meanwhile (lb_meanwhile w))\<lparr>lb_conns := Suc (lb_conns w)\<rparr>))"

definition lb_roundtrip :: "nat \<Rightarrow> lease_request \<Rightarrow> loopback \<Rightarrow> (link_error + lease_reply) \<times> loopback" where
  "lb_roundtrip c req w =
    (if c \<in> set (lb_cut w) then (Inl (Link (Net_io (Os_error 32))), lb_meanwhile w)
     else if \<not> lb_timely w then (Inl (Link (Net_io (Os_error 11))), lb_meanwhile w)
     else lb_handle req (lb_meanwhile w))"

definition loopback_io :: "(nat, loopback) lease_io" where
  "loopback_io =
    \<lparr>io_connect = lb_connect, io_roundtrip = lb_roundtrip, io_spawn = (\<lambda>w. (Inr (), w)),
     io_clock = lb_now, io_sleep = (\<lambda>d w. w\<lparr>lb_now := after (lb_now w) d\<rparr>)\<rparr>"

lemma loopback_io_simps [simp]:
  "io_connect loopback_io = lb_connect" "io_roundtrip loopback_io = lb_roundtrip"
  "io_spawn loopback_io w = (Inr (), w)"
  "io_clock loopback_io = lb_now"
  "io_sleep loopback_io d w = w\<lparr>lb_now := after (lb_now w) d\<rparr>"
  by (simp_all add: loopback_io_def)

lemma lb_wait_timely: "lb_timely w \<Longrightarrow> lb_wait w = lb_latency w"
  by (simp add: lb_wait_def lb_timely_def)

lemma lb_roundtrip_timely:
  "lb_timely w \<Longrightarrow> c \<notin> set (lb_cut w) \<Longrightarrow> lb_roundtrip c req w = lb_handle req (lb_meanwhile w)"
  by (simp add: lb_roundtrip_def)

lemma lb_roundtrip_answered:
  "lb_roundtrip c req w = (Inr r, w') \<Longrightarrow> lb_timely w \<and> lb_handle req (lb_meanwhile w) = (Inr r, w')"
  by (simp add: lb_roundtrip_def split: if_splits)

lemma lb_now_handle [simp]: "lb_now (snd (lb_handle r w)) = lb_now w"
  by (auto simp: lb_handle_def split: prod.splits sum.splits)

lemma lb_now_strangers [simp]: "lb_now (lb_strangers rs w) = lb_now w"
  by (induction rs w rule: lb_strangers.induct) auto

lemma lb_now_meanwhile [simp]: "lb_now (lb_meanwhile w) = after (lb_now w) (lb_wait w)"
  by (auto simp: lb_meanwhile_def Let_def split: list.splits)

lemma lb_now_roundtrip [simp]: "lb_now (snd (lb_roundtrip c req w)) = after (lb_now w) (lb_wait w)"
  by (simp add: lb_roundtrip_def)

lemma keeps_time_loopback: "keeps_time loopback_io"
  by (simp add: keeps_time_def)

interpretation loop_acquire: timed_world "acquire_attempt loopback_io who ttl c" lb_now
    "io_sleep loopback_io"
  using acquire_attempt_timed [OF keeps_time_loopback] by simp

text \<open>The client's view of the loopback daemon.\<close>

definition lb_lease :: "loopback \<Rightarrow> held option" where
  "lb_lease w = in_force (lb_now w) (lb_daemon w)"

lemma alive_lb_handle: "server_alive (lb_daemon w) \<Longrightarrow> server_alive (lb_daemon (snd (lb_handle r w)))"
  using server_alive_handle [of "lb_daemon w" "Some (to_le_bytes 8 (unat (lb_ids w (lb_grants w))))"
      "lb_ids w (lb_grants w)" r "lb_now w"]
  by (auto simp: lb_handle_def split: prod.splits sum.splits)

lemma fst_lb_handle:
  "server_alive (lb_daemon w) \<Longrightarrow>
   fst (lb_handle r w) = Inr (spec_reply r (lb_now w) (lb_ids w (lb_grants w)) (lb_lease w))"
  using fst_handle [of "lb_daemon w" "Some (to_le_bytes 8 (unat (lb_ids w (lb_grants w))))"
      "lb_ids w (lb_grants w)" r "lb_now w"]
  by (auto simp: lb_handle_def lb_lease_def split: prod.splits sum.splits)

lemma lb_lease_handle:
  "server_alive (lb_daemon w) \<Longrightarrow>
   lb_lease (snd (lb_handle r w)) = slot_after r (lb_now w) (lb_ids w (lb_grants w)) (lb_lease w)"
  using in_force_handle [of "lb_daemon w" "Some (to_le_bytes 8 (unat (lb_ids w (lb_grants w))))"
      "lb_ids w (lb_grants w)" r "lb_now w"]
  by (auto simp: lb_handle_def lb_lease_def split: prod.splits sum.splits)

lemma lb_handle_frame [simp]:
  "lb_cut (snd (lb_handle r w)) = lb_cut w" "lb_reachable (snd (lb_handle r w)) = lb_reachable w"
  "lb_conns (snd (lb_handle r w)) = lb_conns w" "lb_latency (snd (lb_handle r w)) = lb_latency w"
  "lb_script (snd (lb_handle r w)) = lb_script w" "lb_ids (snd (lb_handle r w)) = lb_ids w"
  "lb_timely (snd (lb_handle r w)) = lb_timely w" "lb_wait (snd (lb_handle r w)) = lb_wait w"
  by (auto simp: lb_handle_def lb_timely_def lb_wait_def split: prod.splits sum.splits)

lemma lb_strangers_frame [simp]:
  "lb_cut (lb_strangers rs w) = lb_cut w" "lb_reachable (lb_strangers rs w) = lb_reachable w"
  "lb_conns (lb_strangers rs w) = lb_conns w" "lb_latency (lb_strangers rs w) = lb_latency w"
  "lb_script (lb_strangers rs w) = lb_script w"
  by (induction rs w rule: lb_strangers.induct) auto

lemma lb_meanwhile_frame [simp]:
  "lb_cut (lb_meanwhile w) = lb_cut w" "lb_reachable (lb_meanwhile w) = lb_reachable w"
  "lb_conns (lb_meanwhile w) = lb_conns w" "lb_latency (lb_meanwhile w) = lb_latency w"
  "lb_script (lb_meanwhile w) = tl (lb_script w)"
  "lb_timely (lb_meanwhile w) = lb_timely w" "lb_wait (lb_meanwhile w) = lb_wait w"
  by (auto simp: lb_meanwhile_def lb_timely_def lb_wait_def Let_def split: list.splits)

lemma lb_update_frame [simp]:
  "lb_timely (w\<lparr>lb_now := t\<rparr>) = lb_timely w" "lb_timely (w\<lparr>lb_conns := k\<rparr>) = lb_timely w"
  "lb_wait (w\<lparr>lb_now := t\<rparr>) = lb_wait w" "lb_wait (w\<lparr>lb_conns := k\<rparr>) = lb_wait w"
  by (simp_all add: lb_timely_def lb_wait_def)

lemma alive_lb_strangers: "server_alive (lb_daemon w) \<Longrightarrow> server_alive (lb_daemon (lb_strangers rs w))"
  by (induction rs w rule: lb_strangers.induct) (auto simp: alive_lb_handle)

lemma alive_lb_meanwhile: "server_alive (lb_daemon w) \<Longrightarrow> server_alive (lb_daemon (lb_meanwhile w))"
  by (auto simp: lb_meanwhile_def Let_def alive_lb_strangers split: list.splits)

text \<open>Strangers that do not use our identifier leave a lease in force untouched, except that
  a renewal under our identifier would extend it, so they must not send one either.\<close>

definition foreign :: "u64 \<Rightarrow> lease_request \<Rightarrow> bool" where
  "foreign i r \<longleftrightarrow> r \<noteq> Renew i \<and> r \<noteq> Release i"

lemma slot_after_foreign: "foreign (held_id h) r \<Longrightarrow> slot_after r t k (Some h) = Some h"
  by (auto simp: foreign_def slot_after_def split: lease_request.splits)

lemma lb_lease_strangers:
  "server_alive (lb_daemon w) \<Longrightarrow> lb_lease w = Some h \<Longrightarrow> list_all (foreign (held_id h)) rs \<Longrightarrow>
   lb_lease (lb_strangers rs w) = Some h"
  by (induction rs w rule: lb_strangers.induct)
    (auto simp: alive_lb_handle lb_lease_handle slot_after_foreign)

lemma lb_lease_meanwhile:
  assumes "server_alive (lb_daemon w)" and "lb_lease w = Some h"
    and "after (lb_now w) (lb_wait w) < expires_at h"
    and "\<forall>rs \<in> set (lb_script w). list_all (foreign (held_id h)) rs"
  shows "lb_lease (lb_meanwhile w) = Some h"
proof -
  let ?w = "w\<lparr>lb_now := after (lb_now w) (lb_wait w), lb_script := tl (lb_script w)\<rparr>"
  have "lb_lease ?w = Some h"
    using assms(2,3) by (simp add: lb_lease_def in_force_Some)
  with assms show ?thesis
    using lb_lease_strangers [of ?w h "hd (lb_script w)"]
    by (auto simp: lb_meanwhile_def Let_def split: list.splits)
qed

lemma lb_lease_sleep:
  "lb_lease w = Some h \<Longrightarrow> after (lb_now w) d < expires_at h \<Longrightarrow>
   lb_lease (w\<lparr>lb_now := after (lb_now w) d\<rparr>) = Some h"
  by (simp add: lb_lease_def in_force_Some)

section \<open>A client of the loopback daemon\<close>

lemma ttl_default [simp]: "clamp_ttl 60 = DEFAULT_TTL" "of_nat (as_secs DEFAULT_TTL) = (60 :: u32)"
  by (simp_all add: DEFAULT_TTL_def clamp_ttl_def time_simps)

lemma acquire_loopback:
  assumes "server_alive (lb_daemon w)"
    and "lease_acquire loopback_io who timeout w = Some (Inr (c, i), w')"
  shows "server_alive (lb_daemon w')" and "lb_timely w'" and "\<exists>h. lb_lease w' = Some h \<and> held_id h = i
    \<and> held_holder h = who \<and> held_ttl h = DEFAULT_TTL \<and> expires_at h = after (lb_now w') DEFAULT_TTL"
proof -
  obtain w1 w2 where w1: "io_connect loopback_io w = (Inr c, w1)"
    and loop: "retry_loop (acquire_attempt loopback_io who DEFAULT_TTL c) (io_clock loopback_io)
      (io_sleep loopback_io) (from_secs 1) (after (io_clock loopback_io w) timeout) w1
      = Some (w2, Inl (Inr i))" and "io_spawn loopback_io w2 = (Inr (), w')"
    by (rule lease_acquire_granted [OF assms(2)])
  then have [simp]: "w' = w2" by simp
  let ?P = "\<lambda>w. server_alive (lb_daemon w)"
  have "?P w1" using w1 assms(1) by (auto simp: lb_connect_def alive_lb_meanwhile split: if_splits)
  moreover have "?P (io_sleep loopback_io (from_secs 1) v)" if "?P u"
    "acquire_attempt loopback_io who DEFAULT_TTL c u = (v, Inr a)" for u v a
    using that fst_acquire_attempt [of loopback_io who DEFAULT_TTL c u]
    by (auto simp: lb_roundtrip_def alive_lb_handle alive_lb_meanwhile split: if_splits)
  ultimately obtain u where u: "?P u"
    "acquire_attempt loopback_io who DEFAULT_TTL c u = (w2, Inl (Inr i))"
    by (rule retry_result [OF loop, of ?P]) auto
  then have t: "lb_timely u" and h: "lb_handle (Acquire who 60) (lb_meanwhile u) = (Inr (Granted i), w2)"
    by (auto simp: acquire_attempt_done dest: lb_roundtrip_answered)
  from t show "lb_timely w'" using lb_handle_frame(7) [of "Acquire who 60" "lb_meanwhile u"] h by simp
  have m: "server_alive (lb_daemon (lb_meanwhile u))" using u(1) by (rule alive_lb_meanwhile)
  show "server_alive (lb_daemon w')"
    using alive_lb_handle [OF m, of "Acquire who 60"] h by simp
  have f: "lb_lease (lb_meanwhile u) = None" "lb_ids (lb_meanwhile u) (lb_grants (lb_meanwhile u)) = i"
    using fst_lb_handle [OF m, of "Acquire who 60"] h
    by (auto simp: spec_reply_def split: option.splits)
  have "lb_now w2 = lb_now (lb_meanwhile u)" using lb_now_handle [of "Acquire who 60" "lb_meanwhile u"] h by simp
  with f show "\<exists>h. lb_lease w' = Some h \<and> held_id h = i
    \<and> held_holder h = who \<and> held_ttl h = DEFAULT_TTL \<and> expires_at h = after (lb_now w') DEFAULT_TTL"
    using lb_lease_handle [OF m, of "Acquire who 60"] h by (simp add: slot_after_def)
qed

text \<open>One renewal over a working connection, in time: the lease runs anew from now.\<close>

definition undisturbed :: "u64 \<Rightarrow> loopback \<Rightarrow> bool" where
  "undisturbed i w \<longleftrightarrow> (\<forall>rs \<in> set (lb_script w). list_all (foreign i) rs)"

lemma undisturbed_frame [simp]:
  "undisturbed i (lb_meanwhile w) \<longleftrightarrow> (\<forall>rs \<in> set (tl (lb_script w)). list_all (foreign i) rs)"
  "undisturbed i (snd (lb_handle r w)) = undisturbed i w"
  "undisturbed i (w\<lparr>lb_now := t\<rparr>) = undisturbed i w"
  by (simp_all add: undisturbed_def)

lemma undisturbed_tl: "undisturbed i w \<Longrightarrow> undisturbed i (lb_meanwhile w)"
  by (auto simp: undisturbed_def dest: list.set_sel(2) [rotated])
    (metis list.sel(2) list.set_sel(2))

lemma renew_once_in_time:
  assumes "server_alive (lb_daemon w)" and "lb_lease w = Some h" and "c \<notin> set (lb_cut w)"
    and "lb_timely w" and "after (lb_now w) (lb_wait w) < expires_at h" and "undisturbed (held_id h) w"
  shows "\<exists>w'. renew_once loopback_io who ttl (c, held_id h) w = ((c, held_id h), [], w')
    \<and> server_alive (lb_daemon w') \<and> undisturbed (held_id h) w'
    \<and> lb_now w' = after (lb_now w) (lb_wait w)
    \<and> lb_lease w' = Some (h\<lparr>expires_at := after (lb_now w') (held_ttl h)\<rparr>)
    \<and> lb_cut w' = lb_cut w \<and> lb_timely w' \<and> lb_wait w' = lb_wait w"
proof -
  let ?m = "lb_meanwhile w"
  obtain r w' where h: "lb_handle (Renew (held_id h)) ?m = (r, w')"
    by (cases "lb_handle (Renew (held_id h)) ?m") auto
  have m: "server_alive (lb_daemon ?m)" "lb_lease ?m = Some h"
    using assms alive_lb_meanwhile lb_lease_meanwhile by (auto simp: undisturbed_def)
  have r: "r = Inr Lease_ok"
    using fst_lb_handle [OF m(1), of "Renew (held_id h)"] m(2) h by (simp add: spec_reply_def)
  have f: "lb_now w' = lb_now ?m" "lb_cut w' = lb_cut w" "lb_timely w'" "lb_wait w' = lb_wait w"
    "undisturbed (held_id h) w' = undisturbed (held_id h) ?m"
    using lb_now_handle [of "Renew (held_id h)" ?m] lb_handle_frame [of "Renew (held_id h)" ?m]
      undisturbed_frame(2) [of "held_id h" "Renew (held_id h)" ?m] h assms(4) by simp_all
  have "lb_lease w' = Some (h\<lparr>expires_at := after (lb_now w') (held_ttl h)\<rparr>)" "server_alive (lb_daemon w')"
    using m f alive_lb_handle [OF m(1), of "Renew (held_id h)"]
      lb_lease_handle [OF m(1), of "Renew (held_id h)"] h by (simp_all add: slot_after_def)
  moreover have "renew_once loopback_io who ttl (c, held_id h) w = ((c, held_id h), [], w')"
    using h r assms(3,4) by (simp add: renew_once_def lb_roundtrip_timely)
  ultimately show ?thesis
    using f undisturbed_tl [OF assms(6)] by simp
qed

lemma renew_loop_in_time:
  assumes "server_alive (lb_daemon w)" and "lb_lease w = Some h" and "held_id h = i"
    and "held_ttl h = ttl" and "c \<notin> set (lb_cut w)" and "undisturbed i w"
    and "lb_timely w" and "ttl div 3 + lb_wait w < ttl"
    and "ns_of (lb_now w) + (ttl div 3 + lb_wait w) < ns_of (expires_at h)"
  shows "\<exists>w' h'. renew_loop loopback_io who ttl (replicate n Timer @ wakes) (c, i) w
      = renew_loop loopback_io who ttl wakes (c, i) w'
    \<and> server_alive (lb_daemon w') \<and> lb_lease w' = Some h' \<and> held_id h' = i \<and> held_ttl h' = ttl
    \<and> c \<notin> set (lb_cut w') \<and> undisturbed i w' \<and> lb_timely w' \<and> lb_wait w' = lb_wait w
    \<and> ns_of (lb_now w') + (ttl div 3 + lb_wait w') < ns_of (expires_at h')"
  using assms
proof (induction n arbitrary: w h)
  case 0
  then show ?case by fastforce
next
  case (Suc n)
  let ?w = "w\<lparr>lb_now := after (lb_now w) (ttl div 3)\<rparr>"
  have l: "lb_lease ?w = Some h"
    using Suc.prems by (intro lb_lease_sleep) (auto simp: less_instant_def)
  have "\<exists>w'. renew_once loopback_io who ttl (c, i) ?w = ((c, i), [], w')
    \<and> server_alive (lb_daemon w') \<and> undisturbed i w'
    \<and> lb_now w' = after (lb_now ?w) (lb_wait ?w)
    \<and> lb_lease w' = Some (h\<lparr>expires_at := after (lb_now w') (held_ttl h)\<rparr>)
    \<and> lb_cut w' = lb_cut ?w \<and> lb_timely w' \<and> lb_wait w' = lb_wait ?w"
    using renew_once_in_time [of ?w h c who ttl] Suc.prems l by (simp add: less_instant_def)
  then obtain w' where w': "renew_once loopback_io who ttl (c, i) ?w = ((c, i), [], w')"
    "server_alive (lb_daemon w')" "undisturbed i w'" "lb_cut w' = lb_cut w" "lb_timely w'" "lb_wait w' = lb_wait w"
    "lb_lease w' = Some (h\<lparr>expires_at := after (lb_now w') ttl\<rparr>)"
    using Suc.prems(4) by auto
  then show ?case
    using Suc.IH [of w' "h\<lparr>expires_at := after (lb_now w') ttl\<rparr>"] Suc.prems
    by (auto simp: Let_def split: prod.splits)
qed

text \<open>
  The renewal thread beside the thread that drops the handle, which has a clock of its own.
  Told to stop, the renewal thread does what the loop does on a stop; the world is then the
  one at the end of that, and the thread is seen to have finished from that time on.
\<close>

record lb_threads =
  lt_world :: loopback
  lt_lease :: "nat \<times> u64"
  lt_clock :: instant
  lt_exit :: "instant option"

definition lt_stop :: "lb_threads \<Rightarrow> lb_threads" where
  "lt_stop w =
    (if lt_exit w \<noteq> None then w
     else (case renew_loop loopback_io [] DEFAULT_TTL [Stop] (lt_lease w) (lt_world w) of
             (ended, ci, _, v) \<Rightarrow> w\<lparr>lt_world := v, lt_lease := ci,
               lt_exit := (if ended then Some (lb_now v) else None)\<rparr>))"

definition loopback_threads :: "(unit, unit, lb_threads) threads" where
  "loopback_threads =
    \<lparr>th_drop_sender = (\<lambda>_. lt_stop),
     th_is_finished = (\<lambda>_ w. case lt_exit w of Some t \<Rightarrow> t \<le> lt_clock w | None \<Rightarrow> False),
     th_join = (\<lambda>_ w. w), th_clock = lt_clock,
     th_sleep = (\<lambda>d w. w\<lparr>lt_clock := after (lt_clock w) d\<rparr>)\<rparr>"

lemma loopback_threads_simps [simp]:
  "th_drop_sender loopback_threads u w = lt_stop w"
  "th_is_finished loopback_threads t w = (case lt_exit w of Some t \<Rightarrow> t \<le> lt_clock w | None \<Rightarrow> False)"
  "th_join loopback_threads t w = w" "th_clock loopback_threads w = lt_clock w"
  "th_sleep loopback_threads d w = w\<lparr>lt_clock := after (lt_clock w) d\<rparr>"
  by (simp_all add: loopback_threads_def)

lemma lb_lease_None_later: "lb_lease w = None \<Longrightarrow> lb_now w \<le> t \<Longrightarrow> lb_lease (w\<lparr>lb_now := t\<rparr>) = None"
  using in_force_no_revival [of "lb_now w" t "lb_daemon w"]
  by (cases "in_force t (lb_daemon w)") (auto simp: lb_lease_def)

text \<open>
  Dropping the handle stops the thread, which releases the lease. The thread is joined at the
  first poll after its round trip, which is shorter than the join timeout.
\<close>

lemma drop_waits_for_exit:
  assumes "lt_exit s = Some T" and "lt_clock s \<le> T" and "T < after (lt_clock s) JOIN_TIMEOUT"
    and "lt_stop w = s" and "lt_clock w = lt_clock s"
  shows "\<exists>t. client_drop loopback_threads \<lparr>stop = Some (), thread = Some ()\<rparr> w = Some ([], s\<lparr>lt_clock := t\<rparr>)
    \<and> T \<le> t \<and> t \<le> after T (from_millis 20)"
proof -
  let ?th = loopback_threads
  let ?deadline = "after (lt_clock s) JOIN_TIMEOUT"
  let ?P = "\<lambda>u. u = s\<lparr>lt_clock := lt_clock u\<rparr> \<and> lt_clock u \<le> after T (from_millis 20)"
  have timed: "timed_world (poll_finished ?th ()) (th_clock ?th) (th_sleep ?th)"
    by unfold_locales (simp_all add: poll_finished_def)
  obtain v r where loop: "retry_loop (poll_finished ?th ()) (th_clock ?th) (th_sleep ?th) (from_millis 20) ?deadline s
      = Some (v, r)"
    using timed_world.retry_terminates [OF timed, of "from_millis 20" ?deadline s] by (auto simp: from_millis_def)
  have start: "?P s" using assms(2) by (simp add: order_trans [OF _ after_ge])
  have keep: "?P (th_sleep ?th (from_millis 20) u')" if P: "?P u" and x: "poll_finished ?th () u = (u', Inr x)" for u u' x
  proof -
    have e: "lt_exit u = Some T" using P assms(1) by (metis lb_threads.select_convs(4) lb_threads.surjective lb_threads.update_convs(3))
    have u: "u' = u" "\<not> T \<le> lt_clock u" using x e by (auto simp: poll_finished_def split: if_splits)
    have "u\<lparr>lt_clock := t\<rparr> = s\<lparr>lt_clock := t\<rparr>" for t
    proof -
      have "u\<lparr>lt_clock := t\<rparr> = s\<lparr>lt_clock := lt_clock u\<rparr>\<lparr>lt_clock := t\<rparr>" using P by metis
      then show ?thesis by simp
    qed
    moreover have "after (lt_clock u) (from_millis 20) \<le> after T (from_millis 20)"
      using u(2) by (intro after_mono) simp
    ultimately show ?thesis using u(1) by simp
  qed
  obtain u where u: "?P u" "poll_finished ?th () u = (v, r)" "\<And>a. r = Inr a \<Longrightarrow> ?deadline \<le> th_clock ?th v"
    by (rule retry_result [OF loop start keep]) auto
  have e: "lt_exit u = Some T" using u(1) assms(1) by (metis lb_threads.select_convs(4) lb_threads.surjective lb_threads.update_convs(3))
  have fin: "r = Inl ()" "v = u" "T \<le> lt_clock u"
    using u(2,3) e assms(3) by (auto simp: poll_finished_def split: if_splits)
  have "client_drop ?th \<lparr>stop = Some (), thread = Some ()\<rparr> w = Some ([], u)"
    using loop assms(4,5) fin by (simp add: client_drop_def Let_def)
  with u(1) fin(3) show ?thesis by metis
qed

lemma drop_releases:
  assumes "server_alive (lb_daemon w)" and "lb_lease w = Some h" and "held_id h = i"
    and "c \<notin> set (lb_cut w)" and "undisturbed i w" and "lb_timely w"
    and "after (lb_now w) (lb_wait w) < expires_at h"
  shows "\<exists>w'. client_drop loopback_threads \<lparr>stop = Some (), thread = Some ()\<rparr>
        \<lparr>lt_world = w, lt_lease = (c, i), lt_clock = lb_now w, lt_exit = None\<rparr> = Some ([], w')
      \<and> lb_lease (lt_world w') = None \<and> lb_now (lt_world w') \<le> lt_clock w'
      \<and> lt_clock w' \<le> after (lb_now w) (lb_wait w + from_millis 20)"
proof -
  obtain r v where v: "lb_handle (Release i) (lb_meanwhile w) = (r, v)" by (rule prod.exhaust)
  have m: "lb_lease (lb_meanwhile w) = Some h" "server_alive (lb_daemon (lb_meanwhile w))"
    using assms lb_lease_meanwhile [of w h] alive_lb_meanwhile [of w] by (auto simp: undisturbed_def)
  then have free: "lb_lease v = None"
    using v assms(3) lb_lease_handle [of "lb_meanwhile w" "Release i"] by (simp add: slot_after_def)
  have now: "lb_now v = after (lb_now w) (lb_wait w)"
    using lb_now_handle [of "Release i" "lb_meanwhile w"] v by simp
  let ?w = "\<lparr>lt_world = w, lt_lease = (c, i), lt_clock = lb_now w, lt_exit = None\<rparr>"
  let ?s = "\<lparr>lt_world = v, lt_lease = (c, i), lt_clock = lb_now w, lt_exit = Some (lb_now v)\<rparr>"
  have "lt_stop ?w = ?s"
    using v assms(4,6) by (simp add: lt_stop_def lb_roundtrip_timely)
  moreover have "lb_now v < after (lb_now w) JOIN_TIMEOUT"
    using now by (simp add: less_instant_def lb_wait_def IO_TIMEOUT_def JOIN_TIMEOUT_def time_simps)
  ultimately obtain t where t: "client_drop loopback_threads \<lparr>stop = Some (), thread = Some ()\<rparr> ?w
      = Some ([], ?s\<lparr>lt_clock := t\<rparr>)" "lb_now v \<le> t" "t \<le> after (lb_now v) (from_millis 20)"
    using drop_waits_for_exit [of ?s "lb_now v" ?w] now by auto
  moreover have "after (lb_now v) (from_millis 20) = after (lb_now w) (lb_wait w + from_millis 20)"
    using now by (simp add: after_def)
  ultimately show ?thesis using free by (intro exI [of _ "?s\<lparr>lt_clock := t\<rparr>"]) simp
qed

text \<open>
  A turn of the renewal loop over a cut connection, while the lease is still in force: what
  the client is told when it asks anew, and how long that takes. Over a network slower than
  the timeouts it does not get as far as asking.
\<close>

definition lb_refusal :: "rstr \<Rightarrow> loopback \<Rightarrow> client_error" where
  "lb_refusal who w = (if lb_timely w then Now_held_by who
     else Transport (Connecting (lit ''daemon'') (Os_error 110)))"

definition lb_turn :: "loopback \<Rightarrow> duration" where
  "lb_turn w = (if lb_timely w then 4 * lb_wait w else 2 * lb_wait w)"

lemma lb_meanwhile_quiet:
  "lb_script w = [] \<Longrightarrow> lb_meanwhile w = w\<lparr>lb_now := after (lb_now w) (lb_wait w)\<rparr>"
  by (simp add: lb_meanwhile_def)

lemma renew_once_cut:
  assumes "server_alive (lb_daemon w)" and "c \<in> set (lb_cut w)" and "lb_reachable w"
    and "\<forall>k \<ge> lb_conns w. k \<notin> set (lb_cut w)" and "lb_script w = []"
  shows "\<exists>w'. lb_now w' = after (lb_now w) (lb_turn w) \<and> server_alive (lb_daemon w')
    \<and> lb_cut w' = lb_cut w \<and> lb_reachable w' \<and> lb_script w' = []
    \<and> lb_conns w \<le> lb_conns w' \<and> lb_latency w' = lb_latency w
    \<and> (\<forall>h. lb_lease w = Some h \<longrightarrow> lb_now w' < expires_at h \<longrightarrow>
         lb_lease w' = Some h \<and> renew_once loopback_io who ttl (c, i) w =
           ((c, i), [Renew_failed_reconnecting (Link (Net_io (Os_error 32))),
                     Reconnect_failed (lb_refusal (held_holder h) w)], w'))"
proof (cases "lb_timely w")
  case False
  let ?v = "w\<lparr>lb_now := after (lb_now w) (2 * lb_wait w)\<rparr>"
  have "renew_once loopback_io who ttl (c, i) w =
      ((c, i), [Renew_failed_reconnecting (Link (Net_io (Os_error 32))), Reconnect_failed (lb_refusal who' w)], ?v)" for who'
    using assms(2,5) False
    by (simp add: renew_once_def reacquire_def transport_def lb_roundtrip_def lb_connect_def lb_refusal_def
        lb_meanwhile_quiet after_def)
  moreover have "lb_lease ?v = Some h" if "lb_lease w = Some h" "lb_now ?v < expires_at h" for h
    using that by (simp add: lb_lease_def in_force_Some)
  ultimately show ?thesis
    using assms False by (intro exI [of _ ?v]) (simp add: lb_turn_def)
next
  case True
  let ?v = "w\<lparr>lb_now := after (lb_now w) (4 * lb_wait w), lb_conns := Suc (lb_conns w)\<rparr>"
  let ?req = "Acquire who (of_nat (as_secs ttl))"
  obtain r w' where h: "lb_handle ?req ?v = (r, w')" by (cases "lb_handle ?req ?v") auto
  have v: "server_alive (lb_daemon ?v)" using assms(1) by simp
  have f: "lb_now w' = lb_now ?v" "lb_cut w' = lb_cut w" "lb_reachable w' = lb_reachable w"
    "lb_script w' = []" "lb_conns w' = Suc (lb_conns w)" "lb_latency w' = lb_latency w"
    using lb_handle_frame [of ?req ?v] lb_now_handle [of ?req ?v] h assms(5) by simp_all
  have "server_alive (lb_daemon w')" using alive_lb_handle [OF v, of ?req] h by simp
  moreover have "lb_lease w' = Some h' \<and> renew_once loopback_io who ttl (c, i) w =
           ((c, i), [Renew_failed_reconnecting (Link (Net_io (Os_error 32))),
                     Reconnect_failed (lb_refusal (held_holder h') w)], w')"
    if "lb_lease w = Some h'" "lb_now w' < expires_at h'" for h'
  proof -
    have l: "lb_lease ?v = Some h'"
      using that f(1) by (simp add: lb_lease_def in_force_Some)
    then obtain n where "r = Inr (Busy (held_holder h') n)" "lb_lease w' = Some h'"
      using fst_lb_handle [OF v, of ?req] lb_lease_handle [OF v, of ?req] h
      by (auto simp: spec_reply_def slot_after_def)
    moreover have "lb_connect (lb_meanwhile w)
        = (Inr (lb_conns w), ?v\<lparr>lb_now := after (lb_now w) (3 * lb_wait w)\<rparr>)"
      using assms(3,5) True by (simp add: lb_connect_def lb_meanwhile_quiet after_def)
    moreover have "lb_meanwhile (?v\<lparr>lb_now := after (lb_now w) (3 * lb_wait w)\<rparr>) = ?v"
      using assms(5) by (simp add: lb_meanwhile_quiet after_def)
    ultimately show ?thesis
      using h assms True by (simp add: renew_once_def reacquire_def transport_def lb_roundtrip_def lb_refusal_def)
  qed
  ultimately show ?thesis
    using f assms(3) True by (intro exI [of _ w']) (simp add: lb_turn_def)
qed

lemma snd_reacquire: "snd (reacquire io who ttl w) =
    (case io_connect io w of
       (Inl _, w1) \<Rightarrow> w1
     | (Inr c, w1) \<Rightarrow> snd (io_roundtrip io c (Acquire who (of_nat (as_secs ttl))) w1))"
proof (cases "io_connect io w")
  case (Pair x w1)
  show ?thesis
  proof (cases x)
    case (Inr c)
    obtain y w2 where "io_roundtrip io c (Acquire who (of_nat (as_secs ttl))) w1 = (y, w2)"
      by (cases "io_roundtrip io c (Acquire who (of_nat (as_secs ttl))) w1") auto
    with Pair Inr show ?thesis
      by (cases y) (simp_all add: reacquire_def transport_def split: lease_reply.splits)
  qed (simp add: Pair reacquire_def transport_def)
qed

lemma renew_once_clock:
  "lb_now w \<le> lb_now (snd (snd (renew_once loopback_io who ttl ci w)))"
proof -
  have k: "lb_now w \<le> lb_now (snd (io_roundtrip loopback_io c req w))" for c req w
    using keeps_time_loopback by (simp add: keeps_time_def)
  have n: "lb_now w \<le> lb_now (snd (lb_connect w))" for w
    by (auto simp: lb_connect_def intro: order_trans [OF after_ge after_ge])
  have r: "lb_now w \<le> lb_now (snd (reacquire loopback_io who ttl w))" for w
    using n [of w] by (auto simp: snd_reacquire split: prod.splits sum.splits intro: order_trans [OF _ after_ge])
  show ?thesis
    using k [of w "fst ci" "Renew (snd ci)"]
      r [of "snd (io_roundtrip loopback_io (fst ci) (Renew (snd ci)) w)"]
    by (auto simp: renew_once_def simp del: loopback_io_simps
        split: prod.splits sum.splits lease_reply.splits)
qed

lemma renew_once_cut_clock:
  assumes "c \<in> set (lb_cut w)" and "lb_reachable w"
  shows "lb_now (snd (snd (renew_once loopback_io who ttl (c, i) w))) = after (lb_now w) (lb_turn w)"
proof -
  have "lb_now (snd (reacquire loopback_io who ttl (lb_meanwhile w))) = after (lb_now w) (lb_turn w)"
    using assms by (simp add: snd_reacquire lb_connect_def lb_turn_def after_def)
  with assms(1) show ?thesis
    by (auto simp: renew_once_def lb_roundtrip_def split: prod.splits sum.splits)
qed

lemma renew_loop_clock:
  "lb_now w \<le> lb_now (snd (snd (snd (renew_loop loopback_io who ttl wakes ci w))))"
proof (induction wakes arbitrary: ci w)
  case Nil
  then show ?case by simp
next
  case (Cons x wakes)
  show ?case
  proof (cases x)
    case Timer
    let ?w = "w\<lparr>lb_now := after (lb_now w) (ttl div 3)\<rparr>"
    obtain ci1 ns1 w1 where r: "renew_once loopback_io who ttl ci ?w = (ci1, ns1, w1)"
      by (cases "renew_once loopback_io who ttl ci ?w") auto
    have "lb_now w \<le> lb_now ?w" by simp
    also have "\<dots> \<le> lb_now w1" using renew_once_clock [of ?w who ttl ci] r by simp
    also note Cons.IH [of w1 ci1]
    finally show ?thesis using r Timer by (auto simp: Let_def split: prod.splits)
  next
    case Stop
    have "lb_now w \<le> lb_now (snd (io_roundtrip loopback_io (fst ci) (Release (snd ci)) w))"
      using keeps_time_loopback unfolding keeps_time_def by simp
    with Stop show ?thesis by (simp del: loopback_io_simps)
  qed
qed

section \<open>Properties\<close>

text \<open>
  C22: acquiring always comes to an end, whatever daemon and network do, and its two ordinary
  outcomes are honest. Success means the last round trip, on that connection, was answered
  with a grant of exactly that identifier and the renewal thread was started then; giving up means the last answer named the holder
  reported in the error, at or after the deadline.
\<close>

theorem acquire_returns:
  assumes "keeps_time io"
  shows "\<exists>r w'. lease_acquire io who timeout w = Some (r, w')
    \<and> (\<forall>c i. r = Inr (c, i) \<longrightarrow> (\<exists>u v. io_roundtrip io c (Acquire who 60) u = (Inr (Granted i), v)
         \<and> io_spawn io v = (Inr (), w')))
    \<and> (\<forall>other n t. r = Inl (Gave_up other n t) \<longrightarrow> t = timeout
         \<and> after (io_clock io w) timeout \<le> io_clock io w'
         \<and> (\<exists>c u. io_roundtrip io c (Acquire who 60) u = (Inr (Busy other n), w')))"
  by (rule lease_acquire_cases [OF assms, of who timeout w]) auto

theorem acquire_returns_witness:
  "\<exists>r. lease_acquire loopback_io (lit ''a'') 5 \<lparr>lb_daemon = new_lease_server, lb_now = Instant 0,
     lb_ids = (\<lambda>_. 7), lb_grants = 0, lb_conns = 0, lb_cut = [], lb_reachable = True,
     lb_latency = 1, lb_script = []\<rparr> = Some r"
  using acquire_returns [OF keeps_time_loopback, of "lit ''a''" 5] by fast


text \<open>
  C12: letting go of the rig never hangs. Dropping the handle of a lease ends in any world
  whose clock runs, even if the renewal thread is stuck: either the thread has ended and is
  joined, or the join timeout has passed and the thread is left behind with a notice; it
  takes at most the join timeout and one poll of twenty milliseconds, each as late as the
  system's sleep is.
\<close>

theorem dropping_the_client_is_bounded:
  assumes "\<And>d v. after (th_clock th v) d \<le> th_clock th (th_sleep th d v)
      \<and> th_clock th (th_sleep th d v) \<le> after (th_clock th v) (d + slack)"
    and "thread c = Some t" and "stop c = Some s"
  shows "\<exists>v. th_clock th v \<le> after (th_clock th (th_drop_sender th s w)) (JOIN_TIMEOUT + from_millis 20 + slack)
    \<and> (if th_is_finished th t v then client_drop th c w = Some ([], th_join th t v)
       else after (th_clock th (th_drop_sender th s w)) JOIN_TIMEOUT \<le> th_clock th v
         \<and> client_drop th c w = Some ([Did_not_exit JOIN_TIMEOUT], v))"
proof -
  have w1: "th_drop_sender th s w = (case stop c of None \<Rightarrow> w | Some s \<Rightarrow> th_drop_sender th s w)"
    using assms(3) by simp
  from client_drop_bounded [OF assms(1,2) w1] show ?thesis
    by cases auto
qed

text \<open>
  C13: after a broken connection the client cannot resume its own lease. Although the daemon
  stays reachable and every reconnection succeeds, each turn of the renewal loop asks for a
  new lease, is told that the rig is held (by the client itself), and goes back to the dead
  connection; over a network slower than the timeouts it is not even told that. As long as
  the old lease is in force its deadline is never moved, so it runs out, and from then on
  anyone may take the rig.
\<close>

theorem broken_connection_loses_the_lease:
  assumes "server_alive (lb_daemon w)" and "lb_lease w = Some h" and "held_id h = i"
    and "c \<in> set (lb_cut w)" and "lb_reachable w" and "\<forall>k \<ge> lb_conns w. k \<notin> set (lb_cut w)"
    and "lb_script w = []"
    and "renew_loop loopback_io (held_holder h) ttl (replicate n Timer) (c, i) w = (ended, ci, notices, w')"
    and "lb_now w' < expires_at h"
  shows "ci = (c, i) \<and> lb_lease w' = Some h
    \<and> notices = concat (replicate n [Renew_failed_reconnecting (Link (Net_io (Os_error 32))),
        Reconnect_failed (if lb_latency w < IO_TIMEOUT then Now_held_by (held_holder h)
          else Transport (Connecting (lit ''daemon'') (Os_error 110)))])"
  using assms
proof (induction n arbitrary: w notices)
  case 0
  then show ?case by simp
next
  case (Suc n)
  let ?io = loopback_io and ?who = "held_holder h"
  let ?w = "w\<lparr>lb_now := after (lb_now w) (ttl div 3)\<rparr>"
  obtain ci1 ns1 w1 where r: "renew_once ?io ?who ttl (c, i) ?w = (ci1, ns1, w1)"
    by (cases "renew_once ?io ?who ttl (c, i) ?w") auto
  obtain ns2 where rest: "renew_loop ?io ?who ttl (replicate n Timer) ci1 w1 = (ended, ci, ns2, w')"
    "notices = ns1 @ ns2"
    using Suc.prems(8) r by (auto simp: Let_def split: prod.splits)
  have "lb_now w1 \<le> lb_now w'"
    using renew_loop_clock [of w1 ?who ttl "replicate n Timer" ci1] rest(1) by simp
  then have early: "lb_now w1 < expires_at h" using Suc.prems(9) by simp
  then have "lb_now ?w < expires_at h"
    using renew_once_clock [of ?w ?who ttl "(c, i)"] r by simp
  then have l: "lb_lease ?w = Some h"
    using Suc.prems(2) by (simp add: lb_lease_def in_force_Some)
  obtain v where v: "lb_now v = after (lb_now ?w) (lb_turn ?w)" "server_alive (lb_daemon v)"
    "lb_cut v = lb_cut w" "lb_reachable v" "lb_script v = []" "lb_conns w \<le> lb_conns v" "lb_latency v = lb_latency w"
    "lb_now v < expires_at h \<Longrightarrow> lb_lease v = Some h \<and> renew_once ?io ?who ttl (c, i) ?w =
           ((c, i), [Renew_failed_reconnecting (Link (Net_io (Os_error 32))),
                     Reconnect_failed (lb_refusal ?who w)], v)"
    using renew_once_cut [of ?w c ?who ttl i] Suc.prems l by (auto simp: lb_refusal_def)
  have "lb_now w1 = lb_now v"
    using renew_once_cut_clock [of c ?w ?who ttl i] Suc.prems r v(1) by simp
  then have "server_alive (lb_daemon w1) \<and> lb_latency w1 = lb_latency w \<and> lb_cut w1 = lb_cut w \<and> lb_reachable w1
      \<and> lb_script w1 = [] \<and> lb_conns w \<le> lb_conns w1 \<and> lb_lease w1 = Some h \<and> ci1 = (c, i)
      \<and> ns1 = [Renew_failed_reconnecting (Link (Net_io (Os_error 32))), Reconnect_failed (lb_refusal ?who w)]"
    using v r early by simp
  then show ?case
    using Suc.IH [of w1 ns2] Suc.prems rest by (simp add: lb_refusal_def lb_timely_def)
qed

text \<open>The instances: a fresh loopback world, and one whose first connection was cut.\<close>

definition lb_start :: "nat list \<Rightarrow> held option \<Rightarrow> loopback" where
  "lb_start broken lease =
    \<lparr>lb_daemon = \<lparr>slot = lease, poisoned = False\<rparr>, lb_now = Instant 0, lb_ids = (\<lambda>_. 7),
     lb_grants = 0, lb_conns = (case lease of None \<Rightarrow> 0 | Some _ \<Rightarrow> 1), lb_cut = broken,
     lb_reachable = True, lb_latency = 1, lb_script = []\<rparr>"

definition lb_connected :: loopback where
  "lb_connected = (lb_meanwhile (lb_meanwhile (lb_start [] None)))\<lparr>lb_conns := 1\<rparr>"

lemma lb_connected_eq: "lb_connected = (lb_start [] None)\<lparr>lb_now := Instant 2, lb_conns := 1\<rparr>"
  by (simp add: lb_connected_def lb_start_def lb_meanwhile_def lb_wait_def IO_TIMEOUT_def time_simps)

lemma lb_start_acquire:
  "lease_acquire loopback_io (lit ''a'') 5 (lb_start [] None) =
    Some (Inr (0, 7), snd (lb_handle (Acquire (lit ''a'') 60) (lb_meanwhile lb_connected)))"
proof -
  let ?m = "lb_meanwhile lb_connected"
  have m: "server_alive (lb_daemon ?m)" "lb_lease ?m = None" "lb_ids ?m (lb_grants ?m) = 7"
    by (simp_all add: lb_connected_eq lb_meanwhile_def lb_start_def server_alive_def lb_lease_def in_force_def)
  obtain r v where h: "lb_handle (Acquire (lit ''a'') 60) ?m = (r, v)"
    by (cases "lb_handle (Acquire (lit ''a'') 60) ?m") auto
  then have r: "r = Inr (Granted 7)"
    using fst_lb_handle [OF m(1), of "Acquire (lit ''a'') 60"] m by (simp add: spec_reply_def)
  have t: "lb_timely (lb_start [] None)" "lb_timely lb_connected" "lb_cut lb_connected = []"
    by (simp_all add: lb_connected_eq lb_timely_def lb_start_def IO_TIMEOUT_def time_simps)
  then have "lb_connect (lb_start [] None) = (Inr 0, lb_connected)"
    by (simp add: lb_connect_def lb_connected_def) (simp add: lb_start_def)
  moreover have "lb_roundtrip 0 (Acquire (lit ''a'') 60) lb_connected = (Inr (Granted 7), v)"
    using t h r by (simp add: lb_roundtrip_timely)
  moreover have "lb_now (lb_start [] None) = Instant 0" by (simp add: lb_start_def)
  ultimately show ?thesis
    using h by (simp add: lease_acquire_def checked_add_def instant_limit_def retry_loop.simps acquire_attempt_def)
qed


text \<open>A thread that never ends, in a world that is just its clock.\<close>

definition stuck_thread :: "(unit, unit, instant) threads" where
  "stuck_thread = \<lparr>th_drop_sender = (\<lambda>_ t. t), th_is_finished = (\<lambda>_ _. False), th_join = (\<lambda>_ t. t),
     th_clock = (\<lambda>t. t), th_sleep = (\<lambda>d t. after t d)\<rparr>"

theorem dropping_the_client_is_bounded_witness:
  "\<exists>v. client_drop stuck_thread \<lparr>stop = Some (), thread = Some ()\<rparr> (Instant 0) = Some ([Did_not_exit JOIN_TIMEOUT], v)
    \<and> v \<le> Instant 15020000000"
  using dropping_the_client_is_bounded [of stuck_thread 0 "\<lparr>stop = Some (), thread = Some ()\<rparr>" "()" "()" "Instant 0"]
  by (auto simp: stuck_thread_def JOIN_TIMEOUT_def time_simps)

theorem lease_connections_are_bounded_witness:
  "let tcp = (\<lambda>d a. if a = 0 then Inl (Os_error 111)
       else Inr (stream_of (wire text_reply (Hello_ok (lit ''rig''))) Unexpected_eof))
   in \<exists>s. connect text_hello text_reply False (\<lambda>_. Inr [0, 1 :: nat]) tcp (lit ''d'') (lit ''tok'') = Inr s
    \<and> sock_options s = [No_delay, Read_timeout IO_TIMEOUT, Write_timeout IO_TIMEOUT]"
proof -
  let ?in = "stream_of (wire text_reply (Hello_ok (lit ''rig''))) Unexpected_eof"
  let ?tcp = "\<lambda>(d :: duration) (a :: nat). if a = 0 then Inl (Os_error 111) else Inr ?in"
  have ok: "str_ok (lit ''tok'')" "str_ok (lit ''rig'')"
    by (simp_all add: str_ok_lit)
  have c: "carries text_hello (hello_msg Lease_role (lit ''tok''))" "carries text_reply (Hello_ok (lit ''rig''))"
    by (simp_all add: carries_text_hello carries_text_reply ok str_len_lit MAX_FRAME_def)
  have h: "handshake_client_sync text_hello text_reply False Lease_role (lit ''tok'') (?in\<lparr>sock_options := opts\<rparr>)
      = (Inr (), ?in\<lparr>sock_options := opts, rx := [], tx := wire text_hello (hello_msg Lease_role (lit ''tok''))\<rparr>)" for opts
    using handshake_client_eq [OF c, of "?in\<lparr>sock_options := opts\<rparr>" "[]" False]
    by (simp add: handshake_client_sync_eq)
  have o: "set_option opt (?in\<lparr>sock_options := opts\<rparr>) = (Inr (), ?in\<lparr>sock_options := opts @ [opt]\<rparr>)" for opt opts
    by (simp add: set_option_def)
  have "?in = ?in\<lparr>sock_options := []\<rparr>" by (simp add: stream_of_def)
  then have "\<exists>s. connect text_hello text_reply False (\<lambda>_. Inr [0, 1]) ?tcp (lit ''d'') (lit ''tok'') = Inr s"
    using o [of No_delay "[]"] o [of "Read_timeout IO_TIMEOUT" "[No_delay]"]
      o [of "Write_timeout IO_TIMEOUT" "[No_delay, Read_timeout IO_TIMEOUT]"]
      h [of "[No_delay, Read_timeout IO_TIMEOUT, Write_timeout IO_TIMEOUT]"]
    by (simp add: connect_def connect_timeout_def net_io_def)
  then obtain s where s: "connect text_hello text_reply False (\<lambda>_. Inr [0, 1]) ?tcp (lit ''d'') (lit ''tok'') = Inr s"
    by blast
  from lease_connections_are_bounded [OF s] have "sock_options s
      = [No_delay, Read_timeout IO_TIMEOUT, Write_timeout IO_TIMEOUT]"
    by (auto simp: stream_of_def split: if_splits)
  with s show ?thesis by (auto simp: Let_def)
qed

lemma renew_loop_twice:
  "snd (snd (snd (renew_loop io who ttl (replicate 2 Timer) ci w))) =
    (let r = renew_once io who ttl ci (io_sleep io (ttl div 3) w)
     in snd (snd (renew_once io who ttl (fst r) (io_sleep io (ttl div 3) (snd (snd r))))))"
  by (simp add: numeral_2_eq_2 Let_def split_beta)

theorem broken_connection_loses_the_lease_witness:
  "let h = \<lparr>held_id = 7, held_holder = lit ''a'', expires_at = Instant 60, held_ttl = 60\<rparr>;
       w = lb_start [0] (Some h)
   in lb_lease (snd (snd (snd (renew_loop loopback_io (lit ''a'') 30 [Timer, Timer] (0, 7) w)))) = Some h"
proof -
  let ?h = "\<lparr>held_id = 7, held_holder = lit ''a'', expires_at = Instant 60, held_ttl = 60\<rparr>"
  let ?w = "lb_start [0] (Some ?h)"
  let ?f = "\<lambda>w. w\<lparr>lb_now := after (lb_now w) 10\<rparr>"
  have start: "server_alive (lb_daemon ?w)" "lb_lease ?w = Some ?h" "lb_lease (?f ?w) = Some ?h"
    by (simp_all add: lb_start_def server_alive_def lb_lease_def in_force_Some less_instant_def)
  have turn: "lb_turn v = 4" if "lb_latency v = 1" for v
    using that by (simp add: lb_turn_def lb_wait_def lb_timely_def IO_TIMEOUT_def time_simps)
  obtain w1 where w1: "lb_now w1 = Instant 14" "lb_cut w1 = [0]" "lb_reachable w1" "1 \<le> lb_conns w1"
    "lb_latency w1 = 1" "fst (renew_once loopback_io (lit ''a'') 30 (0, 7) (?f ?w)) = (0, 7)"
    "snd (snd (renew_once loopback_io (lit ''a'') 30 (0, 7) (?f ?w))) = w1"
    using renew_once_cut [of "?f ?w" 0 "lit ''a''" 30 7] start turn [of "?f ?w"]
    by (auto simp: lb_start_def less_instant_def after_def)
  let ?loop = "renew_loop loopback_io (lit ''a'') 30 (replicate 2 Timer) (0, 7) ?w"
  obtain ended ci ns w2 where r: "?loop = (ended, ci, ns, w2)" by (cases ?loop) auto
  have "snd (snd (snd ?loop)) = snd (snd (renew_once loopback_io (lit ''a'') 30 (0, 7) (?f w1)))"
    using w1(6,7) by (simp add: renew_loop_twice Let_def)
  then have "lb_now w2 = Instant 28"
    using renew_once_cut_clock [of 0 "?f w1" "lit ''a''" 30 7] w1 r turn [of "?f w1"] by (simp add: after_def)
  then have t: "lb_now w2 < expires_at ?h" by (simp add: less_instant_def)
  have "\<forall>k \<ge> lb_conns ?w. k \<notin> set (lb_cut ?w)" "0 \<in> set (lb_cut ?w)" "lb_reachable ?w"
    "lb_script ?w = []"
    by (simp_all add: lb_start_def)
  then have "lb_lease w2 = Some ?h"
    using broken_connection_loses_the_lease [OF start(1,2), of 7 0 30 2 ended ci ns w2] r t by simp
  with r show ?thesis by (simp add: numeral_2_eq_2)
qed

end
