(* ===== verification/LeaseSession.thy ===== *)
theory LeaseSession
  imports LeaseClient
begin

text \<open>
  A whole lease session over bytes: the client's handshake and round trips
  (\<open>handshake_client_sync\<close>, \<open>roundtrip\<close>) against the handshake and the connection loop of the
  server (\<open>handshake_server\<close>, \<open>LeaseServer::serve_conn\<close> in \<open>banc-host/src/net\<close>), as a daemon
  that accepts a connection composes them. The two ends are joined only by what each writes
  being what the other reads.
\<close>

section \<open>The two ends\<close>

fun ask_all ::
  "lease_request codec \<Rightarrow> lease_reply codec \<Rightarrow> bool \<Rightarrow> lease_request list \<Rightarrow> stream
   \<Rightarrow> (net_error + lease_reply list) \<times> stream" where
  "ask_all qc pc debug [] s = (Inr [], s)"
| "ask_all qc pc debug (req # reqs) s =
     st_then (roundtrip qc pc debug req s) (\<lambda>reply s1.
     st_then (ask_all qc pc debug reqs s1) (\<lambda>replies s2. (Inr (reply # replies), s2)))"

definition client_session ::
  "hello codec \<Rightarrow> hello_reply codec \<Rightarrow> lease_request codec \<Rightarrow> lease_reply codec \<Rightarrow> bool \<Rightarrow> rstr
   \<Rightarrow> lease_request list \<Rightarrow> stream \<Rightarrow> (net_error + lease_reply list) \<times> stream" where
  "client_session hc hrc qc pc debug tok reqs s =
    st_then (handshake_client_sync hc hrc debug Lease_role tok s) (\<lambda>_ s1. ask_all qc pc debug reqs s1)"

text \<open>A node connection is handed to the message protocol, which is not the lease server's.\<close>

definition daemon_session ::
  "hello codec \<Rightarrow> hello_reply codec \<Rightarrow> lease_request codec \<Rightarrow> lease_reply codec \<Rightarrow> bool \<Rightarrow> rstr \<Rightarrow> rstr
   \<Rightarrow> serve_env \<Rightarrow> lease_server \<Rightarrow> stream \<Rightarrow> (serve_error + unit) \<times> lease_server \<times> stream" where
  "daemon_session hc hrc qc pc debug secret rig_name env srv s =
    (case handshake_server hc hrc debug secret rig_name s of
       (Inl e, s1) \<Rightarrow> (Inl (Serve_net e), srv, s1)
     | (Inr Node_role, s1) \<Rightarrow> (Inr (), srv, s1)
     | (Inr Lease_role, s1) \<Rightarrow> serve_conn qc pc debug env 0 srv s1)"

section \<open>What is sent only grows\<close>

definition extends_tx :: "stream \<Rightarrow> stream \<Rightarrow> bool" where
  "extends_tx s s' \<longleftrightarrow> (\<exists>more. tx s' = tx s @ more)"

lemma extends_refl [simp]: "extends_tx s s"
  by (simp add: extends_tx_def)

lemma extends_same [simp]: "tx s' = tx s \<Longrightarrow> extends_tx s s'"
  by (simp add: extends_tx_def)

lemma extends_trans: "extends_tx s t \<Longrightarrow> extends_tx t u \<Longrightarrow> extends_tx s u"
  by (auto simp: extends_tx_def)

lemma extends_st_then:
  assumes "extends_tx s (snd m)" and "\<And>x v. m = (Inr x, v) \<Longrightarrow> extends_tx v (snd (k x v))"
  shows "extends_tx s (snd (st_then m k))"
  using assms extends_trans by (cases "(m, k)" rule: st_then.cases) auto

lemma extends_write_all: "extends_tx s (snd (write_all d s))"
  by (auto simp: extends_tx_def write_all_def split: list.splits option.splits)

lemma extends_write_frame: "extends_tx s (snd (write_frame debug d s))"
  by (auto simp: write_frame_def flush_def intro!: extends_st_then extends_write_all)

lemma extends_send_msg: "extends_tx s (snd (send_msg c debug m s))"
  by (auto simp: send_msg_def st_lift_def net_io_def intro!: extends_st_then extends_write_frame)

lemma roundtrip_msgs:
  "roundtrip qc pc debug req s = st_then (send_msg qc debug req s) (\<lambda>_ s1. recv_msg pc s1)"
  by (cases "map_err Net_serde (ser qc req)")
    (simp_all add: roundtrip_def send_msg_def recv_msg_def)

lemma extends_roundtrip: "extends_tx s (snd (roundtrip qc pc debug req s))"
  by (auto simp: roundtrip_msgs intro!: extends_st_then extends_send_msg)

lemma extends_ask_all: "extends_tx s (snd (ask_all qc pc debug reqs s))"
  by (induction reqs arbitrary: s) (auto intro!: extends_st_then extends_roundtrip)

lemma extends_serve_conn: "extends_tx s (snd (snd (serve_conn qc rc debug env k srv s)))"
proof (induction qc rc debug env k srv s rule: serve_conn.induct)
  case (1 qc rc debug env k srv s)
  have rd: "extends_tx s s1" if "read_frame s = (r, s1)" for r s1
    using that recv_msg_tx [of qc s] extends_same [of s1 s]
    by (auto simp: read_frame_def read_exact_def Let_def split: if_splits elim!: st_then.elims)
  have snd: "extends_tx s1 s2" if "send_msg rc debug m s1 = (r, s2)" for m r s1 s2
    using extends_send_msg [of s1 rc debug m] that by simp
  have step: "extends_tx s u" if "read_frame s = (r, s1)" "send_msg rc debug m s1 = (r', s2)" "extends_tx s2 u"
    for r s1 m r' s2 u
    using extends_trans [OF rd [OF that(1)] extends_trans [OF snd [OF that(2)] that(3)]] .
  show ?case
    by (subst serve_conn.simps)
      (auto split: prod.splits sum.splits io_error.splits intro: rd step [OF _ _ 1] step [OF _ _ extends_refl])
qed

section \<open>Prefixes of a session\<close>

abbreviation wires :: "'m codec \<Rightarrow> 'm list \<Rightarrow> bytes" where
  "wires c ms \<equiv> concat (map (wire c) ms)"

lemma roundtrip_ok:
  assumes "carries qc req" and "carries pc reply" and "tx_plan s = []" and "rx s = wire pc reply @ rest"
  shows "roundtrip qc pc debug req s = (Inr reply, s\<lparr>rx := rest, tx := tx s @ wire qc req\<rparr>)"
  using assms by (simp add: roundtrip_msgs send_msg_ok recv_msg_ok)

lemma roundtrip_sends:
  assumes "carries qc req" and "tx_plan s = []"
  shows "tx (snd (roundtrip qc pc debug req s)) = tx s @ wire qc req"
proof -
  let ?s = "s\<lparr>tx := tx s @ wire qc req\<rparr>"
  have "tx (snd (recv_msg pc ?s)) = tx s @ wire qc req" using recv_msg_tx [of pc ?s] by simp
  with assms show ?thesis by (simp add: roundtrip_msgs send_msg_ok)
qed

text \<open>A client that has read the first replies has sent one request more than these.\<close>

lemma ask_all_prefix:
  assumes "list_all (carries qc) reqs" and "list_all (carries pc) replies" and "length replies \<le> length reqs"
    and "tx_plan s = []" and "rx s = wires pc replies @ tail"
  shows "\<exists>more. tx (snd (ask_all qc pc debug reqs s))
    = tx s @ wires qc (take (Suc (length replies)) reqs) @ more"
  using assms
proof (induction reqs arbitrary: replies s)
  case Nil
  then show ?case by simp
next
  case (Cons req reqs)
  show ?case
  proof (cases replies)
    case Nil
    let ?m = "roundtrip qc pc debug req s"
    have "extends_tx (snd ?m) (snd (ask_all qc pc debug (req # reqs) s))"
    proof (cases ?m)
      case (Pair x v)
      then show ?thesis
        by (cases x) (auto intro!: extends_st_then extends_ask_all)
    qed
    moreover have "tx (snd ?m) = tx s @ wire qc req"
      using Cons.prems by (intro roundtrip_sends) auto
    ultimately show ?thesis using Nil by (auto simp: extends_tx_def)
  next
    case (Cons reply replies')
    let ?s = "s\<lparr>rx := wires pc replies' @ tail, tx := tx s @ wire qc req\<rparr>"
    have r: "roundtrip qc pc debug req s = (Inr reply, ?s)"
      using Cons.prems Cons by (intro roundtrip_ok) auto
    obtain x v where v: "ask_all qc pc debug reqs ?s = (x, v)" by (rule prod.exhaust)
    have "tx (snd (ask_all qc pc debug (req # reqs) s)) = tx v"
      using r v by (cases x) simp_all
    moreover obtain more where "tx v = tx ?s @ wires qc (take (Suc (length replies')) reqs) @ more"
      using Cons.IH [of replies' ?s] Cons.prems Cons v by auto
    ultimately show ?thesis using Cons by simp
  qed
qed

lemma ask_all_ok:
  assumes "list_all (carries qc) reqs" and "list_all (carries pc) replies" and "length replies = length reqs"
    and "tx_plan s = []" and "rx s = wires pc replies @ tail"
  shows "ask_all qc pc debug reqs s = (Inr replies, s\<lparr>rx := tail, tx := tx s @ wires qc reqs\<rparr>)"
  using assms
proof (induction reqs arbitrary: replies s)
  case (Cons req reqs)
  then obtain reply replies' where r: "replies = reply # replies'" by (cases replies) auto
  let ?s = "s\<lparr>rx := wires pc replies' @ tail, tx := tx s @ wire qc req\<rparr>"
  have "roundtrip qc pc debug req s = (Inr reply, ?s)"
    using Cons.prems r by (intro roundtrip_ok) auto
  with Cons.IH [of replies' ?s] Cons.prems r show ?case by simp
qed simp

text \<open>A server that has read the first requests has sent as many replies.\<close>

lemma serve_conn_prefix:
  assumes "list_all (carries qc) reqs" and "list_all (carries rc) replies"
    and "answers env k srv reqs = (Inr replies, srv')" and "n \<le> length reqs" and "tx_plan s = []"
    and "rx s = wires qc (take n reqs) @ tail"
  shows "\<exists>more. tx (snd (snd (serve_conn qc rc debug env k srv s))) = tx s @ wires rc (take n replies) @ more"
  using assms
proof (induction n arbitrary: k srv s reqs replies)
  case 0
  then show ?case using extends_serve_conn [of s qc rc debug env k srv] by (simp add: extends_tx_def)
next
  case (Suc n)
  then obtain req reqs' where q: "reqs = req # reqs'" by (cases reqs) auto
  obtain reply srv1 replies' where h: "handle req (clock_at env k) (random_at env k)
      (interfere env k srv) = (Inr reply, srv1)"
    and a: "answers env (Suc k) srv1 reqs' = (Inr replies', srv')" "replies = reply # replies'"
    using Suc.prems(3) q by (auto split: prod.splits sum.splits)
  let ?s = "s\<lparr>rx := wires qc (take n reqs') @ tail, tx := tx s @ wire rc reply\<rparr>"
  have "serve_conn qc rc debug env k srv s = serve_conn qc rc debug env (Suc k) srv1 ?s"
    using Suc.prems q h a by (intro serve_conn_step) auto
  with Suc.IH [of reqs' replies' "Suc k" srv1 ?s] Suc.prems q a show ?case by auto
qed

lemma answers_length: "answers env k srv reqs = (Inr replies, srv') \<Longrightarrow> length replies = length reqs"
  by (induction reqs arbitrary: k srv replies) (auto split: prod.splits sum.splits)

section \<open>The session as a whole\<close>

lemma client_session_starts:
  assumes "carries hc (hello_msg Lease_role tok)" and "tx_plan cli = []" and "tx cli = []"
  shows "\<exists>more. tx (snd (client_session hc hrc qc pc debug tok reqs cli)) = wire hc (hello_msg Lease_role tok) @ more"
proof -
  let ?m = "handshake_client_sync hc hrc debug Lease_role tok cli"
  have "tx (snd ?m) = wire hc (hello_msg Lease_role tok)"
    using handshake_client_tx [OF assms(1,2), of hrc debug] assms(3)
    by (auto simp: handshake_client_sync_eq split: prod.splits sum.splits)
  moreover have "extends_tx (snd ?m) (snd (client_session hc hrc qc pc debug tok reqs cli))"
    unfolding client_session_def by (rule extends_st_then) (simp_all add: extends_ask_all)
  ultimately show ?thesis by (simp add: extends_tx_def)
qed

lemma client_session_welcomed:
  assumes "carries hc (hello_msg Lease_role tok)" and "carries hrc reply"
    and "tx_plan cli = []" and "tx cli = []" and "rx cli = wire hrc reply @ tail"
  shows "client_session hc hrc qc pc debug tok reqs cli =
    (case reply of
       Hello_ok _ \<Rightarrow> ask_all qc pc debug reqs (cli\<lparr>rx := tail, tx := wire hc (hello_msg Lease_role tok)\<rparr>)
     | Hello_denied \<Rightarrow> (Inl Denied_by_daemon, cli\<lparr>rx := tail, tx := wire hc (hello_msg Lease_role tok)\<rparr>))"
  using assms handshake_client_eq [OF assms(1,2,5,3), of debug]
  by (cases reply) (simp_all add: client_session_def handshake_client_sync_eq)

lemma daemon_session_welcomes:
  assumes "carries hc (hello_msg Lease_role tok)" and "carries hrc (server_reply tok' rig (hello_msg Lease_role tok))"
    and "tx_plan s = []" and "opt_plan s = []" and "rx s = wire hc (hello_msg Lease_role tok) @ tail"
    and "tx s = []"
  obtains s1 where "rx s1 = tail" "tx_plan s1 = []" "rx_end s1 = rx_end s"
    "tx s1 = wire hrc (server_reply tok' rig (hello_msg Lease_role tok))"
    "daemon_session hc hrc qc pc debug tok' rig env srv s =
      (if utf8 tok = utf8 tok' then serve_conn qc pc debug env 0 srv s1
       else (Inl (Serve_net (Handshake_refused NET_VERSION False)), srv, s1))"
proof
  let ?s1 = "s\<lparr>rx := tail, tx := wire hrc (server_reply tok' rig (hello_msg Lease_role tok)),
    sock_options := sock_options s @ [No_delay]\<rparr>"
  show "daemon_session hc hrc qc pc debug tok' rig env srv s =
      (if utf8 tok = utf8 tok' then serve_conn qc pc debug env 0 srv ?s1
       else (Inl (Serve_net (Handshake_refused NET_VERSION False)), srv, ?s1))"
    using assms handshake_server_eq [OF assms(1,2,5,3,4), of debug]
    by (simp add: daemon_session_def server_result_def)
qed (use assms in simp_all)

text \<open>
  C7: a lease session works end to end, from bytes to bytes. A client that presents the
  daemon's token and sends any requests is given exactly the handler's replies, in order,
  whatever other connections do to the server in between, and leaves the server as the
  handler does; with another token it is denied and the server is untouched. This follows
  from each end reading what the other wrote and nothing else.
\<close>

theorem lease_session_end_to_end:
  assumes "carries hc (hello_msg Lease_role tok)" and "carries hrc (Hello_ok rig)" and "carries hrc Hello_denied"
    and "str_ok tok" and "str_ok secret"
    and "list_all (carries qc) reqs" and "answers env 0 srv reqs = (Inr replies, srv')"
    and "list_all (carries pc) replies"
    and client: "client_session hc hrc qc pc debug tok reqs cli = (cres, cli')"
    and daemon: "daemon_session hc hrc qc pc debug secret rig env srv s = (sres, srv'', s')"
    and fresh: "tx_plan cli = []" "tx cli = []" "tx_plan s = []" "opt_plan s = []" "tx s = []"
    and "rx_end s = Unexpected_eof" and "rx s = tx cli'" and "rx cli = tx s'"
  shows "if tok = secret then cres = Inr replies \<and> sres = Inr () \<and> srv'' = srv'
    else cres = Inl Denied_by_daemon \<and> srv'' = srv"
proof -
  let ?hello = "wire hc (hello_msg Lease_role tok)" and ?ok = "wire hrc (Hello_ok rig)"
  have same: "utf8 tok = utf8 secret \<longleftrightarrow> tok = secret" using assms(4,5) by (auto simp: utf8_inject)
  have reply: "carries hrc (server_reply secret rig (hello_msg Lease_role tok))"
    by (rule carries_server_reply [OF assms(2,3)])
  note server = daemon_session_welcomes [OF assms(1) reply fresh(3,4) _ fresh(5), of _ qc pc debug env srv]
  obtain t0 where t0: "rx s = ?hello @ t0"
    using client_session_starts [OF assms(1) fresh(1,2), of hrc qc pc debug reqs] client \<open>rx s = tx cli'\<close> by auto
  show ?thesis
  proof (cases "tok = secret")
    case False
    from server [OF t0] have "tx s' = wire hrc Hello_denied" "srv'' = srv"
      using False same daemon by (auto simp: server_reply_def)
    then have "rx cli = wire hrc Hello_denied @ []" using \<open>rx cli = tx s'\<close> by simp
    with False \<open>srv'' = srv\<close> show ?thesis
      using client_session_welcomed [OF assms(1,3) fresh(1,2), of "[]" qc pc debug reqs] client by simp
  next
    case True
    have len: "length replies = length reqs" by (rule answers_length [OF assms(7)])
    have served: "\<exists>more. rx cli = ?ok @ wires pc (take n replies) @ more"
      if "n \<le> length reqs" "rx s = ?hello @ wires qc (take n reqs) @ t" for n t
    proof (rule server [OF that(2)])
      fix s1 assume s1: "rx s1 = wires qc (take n reqs) @ t" "tx_plan s1 = []"
        "tx s1 = wire hrc (server_reply secret rig (hello_msg Lease_role tok))"
        "daemon_session hc hrc qc pc debug secret rig env srv s =
          (if utf8 tok = utf8 secret then serve_conn qc pc debug env 0 srv s1
           else (Inl (Serve_net (Handshake_refused NET_VERSION False)), srv, s1))"
      then have "serve_conn qc pc debug env 0 srv s1 = (sres, srv'', s')" using True daemon by simp
      then show ?thesis
        using serve_conn_prefix [OF assms(6,8,7) that(1) s1(2,1), of debug] s1(3) True \<open>rx cli = tx s'\<close>
        by (auto simp: server_reply_def)
    qed
    have asked: "\<exists>more. rx s = ?hello @ wires qc (take (Suc n) reqs) @ more"
      if "n \<le> length reqs" "rx cli = ?ok @ wires pc (take n replies) @ t" for n t
    proof -
      let ?c = "cli\<lparr>rx := wires pc (take n replies) @ t, tx := ?hello\<rparr>"
      have l: "length (take n replies) = n" using that(1) len by simp
      have "list_all (carries pc) (take n replies)"
        using assms(8) by (auto simp: list_all_iff dest: in_set_takeD)
      then have "\<exists>more. tx (snd (ask_all qc pc debug reqs ?c))
          = tx ?c @ wires qc (take (Suc (length (take n replies))) reqs) @ more"
        by (rule ask_all_prefix [OF assms(6)]) (use that(1) l fresh(1) in simp_all)
      moreover have "ask_all qc pc debug reqs ?c = (cres, cli')"
        using client_session_welcomed [OF assms(1,2) fresh(1,2) that(2), of qc pc debug reqs] client by simp
      ultimately show ?thesis using l \<open>rx s = tx cli'\<close> by auto
    qed
    have "\<exists>t. rx s = ?hello @ wires qc (take n reqs) @ t" if "n \<le> length reqs" for n
      using that
    proof (induction n)
      case (Suc n)
      then show ?case using served [of n] asked [of n] by fastforce
    qed (use t0 in simp)
    then obtain t where t: "rx cli = ?ok @ wires pc replies @ t"
      using served [of "length reqs"] len by fastforce
    have "ask_all qc pc debug reqs (cli\<lparr>rx := wires pc replies @ t, tx := ?hello\<rparr>)
        = (Inr replies, cli\<lparr>rx := t, tx := ?hello @ wires qc reqs\<rparr>)"
      using ask_all_ok [OF assms(6,8) len, of "cli\<lparr>rx := wires pc replies @ t, tx := ?hello\<rparr>" t debug] fresh(1)
      by simp
    then have c: "cres = Inr replies" "rx s = ?hello @ wires qc reqs"
      using client_session_welcomed [OF assms(1,2) fresh(1,2) t, of qc pc debug reqs] client
        \<open>rx s = tx cli'\<close> by auto
    show ?thesis
    proof (rule server [OF c(2)])
      fix s1 assume s1: "rx s1 = wires qc reqs" "tx_plan s1 = []" "rx_end s1 = rx_end s"
        "daemon_session hc hrc qc pc debug secret rig env srv s =
          (if utf8 tok = utf8 secret then serve_conn qc pc debug env 0 srv s1
           else (Inl (Serve_net (Handshake_refused NET_VERSION False)), srv, s1))"
      then show ?thesis
        using serve_conn_session [OF assms(6,8,7) s1(1) _ s1(2), of debug] True daemon c(1)
          \<open>rx_end s = Unexpected_eof\<close> by simp
    qed
  qed
qed

text \<open>The instance: two status queries to a fresh server.\<close>

theorem lease_session_end_to_end_witness:
  "let env = \<lparr>interfere = (\<lambda>_ s. s), clock_at = (\<lambda>k. Instant k), random_at = (\<lambda>_. None)\<rparr>;
       replies = [Status_reply None 0, Status_reply None 0];
       cli = stream_of (wire text_reply (Hello_ok (lit ''rig'')) @ wires demo_replies replies) Unexpected_eof
   in fst (client_session text_hello text_reply demo_requests demo_replies True (lit ''tok'')
        [Status_request, Status_request] cli) = Inr replies"
proof -
  let ?env = "\<lparr>interfere = (\<lambda>_ s. s), clock_at = (\<lambda>k. Instant k), random_at = (\<lambda>_. None)\<rparr>"
  let ?reqs = "[Status_request, Status_request]" and ?replies = "[Status_reply None 0, Status_reply None 0]"
  let ?cli = "stream_of (wire text_reply (Hello_ok (lit ''rig'')) @ wires demo_replies ?replies) Unexpected_eof"
  let ?s = "stream_of (wire text_hello (hello_msg Lease_role (lit ''tok'')) @ wires demo_requests ?reqs) Unexpected_eof"
  let ?run = "client_session text_hello text_reply demo_requests demo_replies True (lit ''tok'') ?reqs ?cli"
  let ?srun = "daemon_session text_hello text_reply demo_requests demo_replies True (lit ''tok'') (lit ''rig'')
    ?env new_lease_server ?s"
  have ok: "str_ok (lit ''tok'')" "str_ok (lit ''rig'')"
    by (simp_all add: str_ok_lit)
  have c: "carries text_hello (hello_msg Lease_role (lit ''tok''))" "carries text_reply (Hello_ok (lit ''rig''))"
    by (simp_all add: carries_text_hello carries_text_reply ok str_len_lit MAX_FRAME_def)
  have m: "list_all (carries demo_requests) ?reqs" "list_all (carries demo_replies) ?replies"
    by (simp_all add: carries_def demo_requests_def demo_replies_def MAX_FRAME_def)
  have st: "handle Status_request t None new_lease_server = (Inr (Status_reply None 0), new_lease_server)"
    for t by (simp add: handle_status new_lease_server_def in_force_def)
  have a: "answers ?env 0 new_lease_server ?reqs = (Inr ?replies, new_lease_server)" by (simp add: st)
  have "tx (snd ?run) = rx ?s"
    using client_session_welcomed [OF c, of ?cli "wires demo_replies ?replies" demo_requests demo_replies True ?reqs]
      ask_all_ok [OF m, of "?cli\<lparr>rx := wires demo_replies ?replies, tx := wire text_hello (hello_msg Lease_role (lit ''tok''))\<rparr>" "[]" True]
    by simp
  moreover have "tx (snd (snd ?srun)) = rx ?cli"
  proof (rule daemon_session_welcomes [OF c(1), of text_reply "lit ''tok''" "lit ''rig''" ?s
        "wires demo_requests ?reqs" demo_requests demo_replies True ?env new_lease_server])
    fix s1 assume "rx s1 = wires demo_requests ?reqs" "tx_plan s1 = []" "rx_end s1 = rx_end ?s"
      "tx s1 = wire text_reply (server_reply (lit ''tok'') (lit ''rig'') (hello_msg Lease_role (lit ''tok'')))"
      "?srun = (if utf8 (lit ''tok'') = utf8 (lit ''tok'') then serve_conn demo_requests demo_replies True ?env 0
          new_lease_server s1 else (Inl (Serve_net (Handshake_refused NET_VERSION False)), new_lease_server, s1))"
    then show ?thesis
      using serve_conn_session [OF m a, of s1 True] by (simp add: server_reply_def)
  qed (use c in \<open>simp_all add: server_reply_def\<close>)
  ultimately show ?thesis
    using lease_session_end_to_end [OF c carries_text_reply(1) ok(1) ok(1) m(1) a m(2), of True ?cli "fst ?run"
        "snd ?run" ?s "fst ?srun" "fst (snd ?srun)" "snd (snd ?srun)"]
    by (simp add: Let_def)
qed

end
