(* ===== verification/LeaseContention.thy ===== *)
theory LeaseContention
  imports LeaseClient
begin

text \<open>
  Two runners and one rig: the client's acquire loop (\<open>banc-host/src/net/lease.rs\<close>) against a
  daemon whose lease someone else has and no longer renews, a crashed runner or a dead job.
  Other clients may query, or renew and release what is not theirs, in between.
\<close>

definition bystander :: "u64 \<Rightarrow> lease_request \<Rightarrow> bool" where
  "bystander i r \<longleftrightarrow> foreign i r \<and> (\<forall>who ttl. r \<noteq> Acquire who ttl)"

definition deserted :: "held \<Rightarrow> nat \<Rightarrow> loopback \<Rightarrow> bool" where
  "deserted h c w \<longleftrightarrow> server_alive (lb_daemon w) \<and> lb_timely w \<and> c \<notin> set (lb_cut w)
     \<and> (\<forall>rs \<in> set (lb_script w). list_all (bystander (held_id h)) rs)
     \<and> lb_lease w = (if lb_now w < expires_at h then Some h else None)"

lemma bystander_foreign: "list_all (bystander i) rs \<Longrightarrow> list_all (foreign i) rs"
  by (auto simp: bystander_def list_all_iff)

lemma lb_lease_strangers_free:
  "server_alive (lb_daemon w) \<Longrightarrow> lb_lease w = None \<Longrightarrow> list_all (bystander i) rs \<Longrightarrow>
   lb_lease (lb_strangers rs w) = None"
  by (induction rs w rule: lb_strangers.induct)
    (auto simp: alive_lb_handle lb_lease_handle bystander_def slot_after_def split: lease_request.splits)

lemma deserted_meanwhile:
  assumes "deserted h c w"
  shows "deserted h c (lb_meanwhile w)"
proof -
  let ?t = "after (lb_now w) (lb_wait w)"
  let ?w = "w\<lparr>lb_now := ?t, lb_script := tl (lb_script w)\<rparr>"
  have a: "server_alive (lb_daemon w)" and c: "c \<notin> set (lb_cut w)" "lb_timely w"
    and s: "\<forall>rs \<in> set (lb_script w). list_all (bystander (held_id h)) rs"
    and l: "lb_lease w = (if lb_now w < expires_at h then Some h else None)"
    using assms by (simp_all add: deserted_def)
  have "lb_lease (lb_meanwhile w) = (if ?t < expires_at h then Some h else None)"
  proof (cases "?t < expires_at h")
    case True
    then have "lb_now w < expires_at h" by (simp add: less_instant_def)
    with a l s True show ?thesis
      using lb_lease_meanwhile [of w h] by (auto intro: bystander_foreign)
  next
    case False
    have "lb_lease ?w = None"
      using l False lb_lease_None_later [of w ?t] by (auto simp: lb_lease_def in_force_def drop_expired_def
          split: option.splits if_splits)
    with a s False show ?thesis
      using lb_lease_strangers_free [of ?w "held_id h" "hd (lb_script w)"]
      by (auto simp: lb_meanwhile_def Let_def split: list.splits)
  qed
  moreover have "\<forall>rs \<in> set (tl (lb_script w)). list_all (bystander (held_id h)) rs"
    using s by (auto dest: list.set_sel(2) [rotated]) (metis list.sel(2) list.set_sel(2))
  ultimately show ?thesis
    using a c by (simp add: deserted_def alive_lb_meanwhile)
qed

lemma deserted_later:
  "deserted h c w \<Longrightarrow> deserted h c (w\<lparr>lb_now := after (lb_now w) d\<rparr>)"
  by (auto simp: deserted_def lb_lease_def in_force_def drop_expired_def time_simps
      split: option.splits if_splits)

text \<open>One request of the waiting client: busy while the old lease lasts, granted afterwards.\<close>

definition new_lease :: "u64 \<Rightarrow> rstr \<Rightarrow> instant \<Rightarrow> held" where
  "new_lease i who t = \<lparr>held_id = i, held_holder = who, expires_at = after t DEFAULT_TTL, held_ttl = DEFAULT_TTL\<rparr>"

lemma deserted_attempt:
  assumes "deserted h c w"
  obtains (busy) n v where "acquire_attempt loopback_io who DEFAULT_TTL c w = (v, Inr (held_holder h, n))"
      "deserted h c v" "lb_now v = after (lb_now w) (lb_latency w)" "lb_now v < expires_at h" "lb_latency v = lb_latency w"
  | (granted) i v where "acquire_attempt loopback_io who DEFAULT_TTL c w = (v, Inl (Inr i))"
      "server_alive (lb_daemon v)" "lb_now v = after (lb_now w) (lb_latency w)" "expires_at h \<le> lb_now v"
      "lb_lease v = Some (new_lease i who (lb_now v))"
proof -
  let ?m = "lb_meanwhile w" and ?req = "Acquire who 60"
  have m: "deserted h c ?m" by (rule deserted_meanwhile [OF assms])
  then have alive: "server_alive (lb_daemon ?m)"
    and l: "lb_lease ?m = (if lb_now ?m < expires_at h then Some h else None)"
    by (simp_all add: deserted_def)
  obtain r v where h: "lb_handle ?req ?m = (r, v)" by (rule prod.exhaust)
  let ?i = "lb_ids ?m (lb_grants ?m)"
  have r: "r = Inr (spec_reply ?req (lb_now ?m) ?i (lb_lease ?m))"
    and lv: "lb_lease v = slot_after ?req (lb_now ?m) ?i (lb_lease ?m)"
    and av: "server_alive (lb_daemon v)"
    using fst_lb_handle [OF alive, of ?req] lb_lease_handle [OF alive, of ?req] alive_lb_handle [OF alive, of ?req] h
    by simp_all
  have t: "lb_timely w" using assms by (simp add: deserted_def)
  have f: "lb_now v = lb_now ?m" "lb_cut v = lb_cut w" "lb_latency v = lb_latency w" "lb_timely v"
    "lb_script v = tl (lb_script w)" "lb_now ?m = after (lb_now w) (lb_latency w)"
    using lb_handle_frame [of ?req ?m] lb_now_handle [of ?req ?m] h t by (simp_all add: lb_wait_timely)
  have c: "io_roundtrip loopback_io c ?req w = (r, v)"
    using assms h by (simp add: deserted_def lb_roundtrip_timely)
  show thesis
  proof (cases "lb_now ?m < expires_at h")
    case True
    have "deserted h c v"
      using m lv l True av f by (simp add: deserted_def slot_after_def)
    then show thesis
      using busy [of v] True l r c f by (auto simp: spec_reply_def acquire_attempt_def)
  next
    case False
    then show thesis
      using granted [of v ?i] l r c f lv av
      by (auto simp: spec_reply_def acquire_attempt_def slot_after_def new_lease_def not_less)
  qed
qed

text \<open>The retry loop of the waiting client, from any moment on.\<close>

lemma deserted_wait:
  assumes "deserted h c w" and "lb_now w < after (expires_at h) d"
    and "lb_now w \<le> after deadline d" and "from_secs 1 \<le> d"
  shows "\<exists>v r. retry_loop (acquire_attempt loopback_io who DEFAULT_TTL c) lb_now (io_sleep loopback_io)
        (from_secs 1) deadline w = Some (v, r)
    \<and> ((\<exists>i. r = Inl (Inr i) \<and> lb_lease v = Some (new_lease i who (lb_now v)) \<and> server_alive (lb_daemon v)
          \<and> expires_at h \<le> lb_now v \<and> lb_now v < after (expires_at h) (d + lb_latency w)
          \<and> lb_now v \<le> after deadline (d + lb_latency w))
      \<or> (\<exists>n. r = Inr (held_holder h, n) \<and> lb_lease v = Some h \<and> deadline \<le> lb_now v \<and> lb_now v < expires_at h))"
  using assms
proof (induction "ns_of (after (expires_at h) d) - ns_of (lb_now w)" arbitrary: w rule: less_induct)
  case less
  from less.prems(1) show ?case
  proof (cases rule: deserted_attempt [where who = who])
    case (granted i v)
    then have "retry_loop (acquire_attempt loopback_io who DEFAULT_TTL c) lb_now (io_sleep loopback_io)
        (from_secs 1) deadline w = Some (v, Inl (Inr i))"
      by (simp add: retry_loop.simps)
    moreover have "lb_now v < after (expires_at h) (d + lb_latency w)"
      "lb_now v \<le> after deadline (d + lb_latency w)"
      using granted(3) less.prems(2,3) by (simp_all add: less_instant_def less_eq_instant_def)
    ultimately show ?thesis using granted by blast
  next
    case (busy n v)
    show ?thesis
    proof (cases "deadline \<le> lb_now v")
      case True
      with busy have "retry_loop (acquire_attempt loopback_io who DEFAULT_TTL c) lb_now (io_sleep loopback_io)
          (from_secs 1) deadline w = Some (v, Inr (held_holder h, n))"
        by (simp add: retry_loop.simps)
      with busy True show ?thesis by (auto simp: deserted_def)
    next
      case False
      let ?v = "v\<lparr>lb_now := after (lb_now v) (from_secs 1)\<rparr>"
      have "ns_of (lb_now w) < ns_of (lb_now ?v)"
        using busy(3) by (simp add: from_secs_def nanos_per_sec_def)
      moreover have t: "lb_now ?v < after (expires_at h) d" "lb_now ?v \<le> after deadline d"
        using busy(4) False less.prems(4) by (simp_all add: less_instant_def less_eq_instant_def)
      ultimately have "ns_of (after (expires_at h) d) - ns_of (lb_now ?v)
          < ns_of (after (expires_at h) d) - ns_of (lb_now w)"
        by (simp add: less_instant_def)
      note IH = less.hyps [OF this deserted_later [OF busy(2)] t less.prems(4)]
      have "retry_loop (acquire_attempt loopback_io who DEFAULT_TTL c) lb_now (io_sleep loopback_io)
          (from_secs 1) deadline w = retry_loop (acquire_attempt loopback_io who DEFAULT_TTL c) lb_now
          (io_sleep loopback_io) (from_secs 1) deadline ?v"
        using busy(1) False by (subst retry_loop.simps) simp
      with IH busy(5) show ?thesis by simp
    qed
  qed
qed

section \<open>Property\<close>

text \<open>
  C5: a waiting runner takes over from one that died. While a lease that nobody renews is in
  force, another runner's acquire waits. Over a network that answers within the I/O timeout:
  if the lease ends before the acquire's deadline it is granted, at most a pause of a second
  (or the time to connect, when that is longer) and one round trip after that end, with the
  lease in the runner's name for the full time to live, and the dead runner's identifier is
  refused should it come back; if the lease outlasts the deadline by more than that, the
  acquire gives up, names the holder, and leaves the lease as it was. Over a slower network
  the acquire ends at once with the error of the connection.
\<close>

theorem waiting_runner_succeeds_a_dead_one:
  fixes w :: loopback
  defines "late \<equiv> max (from_secs 1) (2 * lb_latency w) + lb_latency w"
  assumes "server_alive (lb_daemon w)" and "lb_lease w = Some h" and "lb_reachable w"
    and "lb_conns w \<notin> set (lb_cut w)" and "ns_of (lb_now w) + timeout < instant_limit"
    and "\<forall>rs \<in> set (lb_script w). list_all (bystander (held_id h)) rs"
  shows "(lb_latency w < IO_TIMEOUT \<and> expires_at h \<le> after (lb_now w) timeout \<longrightarrow>
      (\<exists>i w'. lease_acquire loopback_io who timeout w = Some (Inr (lb_conns w, i), w')
         \<and> lb_lease w' = Some (new_lease i who (lb_now w'))
         \<and> expires_at h \<le> lb_now w' \<and> lb_now w' < after (expires_at h) late
         \<and> (i \<noteq> held_id h \<longrightarrow> fst (lb_handle (Renew (held_id h)) w') = Inr Gone)))
    \<and> (lb_latency w < IO_TIMEOUT \<and> after (lb_now w) (timeout + late) < expires_at h \<longrightarrow>
      (\<exists>n w'. lease_acquire loopback_io who timeout w = Some (Inl (Gave_up (held_holder h) n timeout), w')
         \<and> lb_lease w' = Some h))
    \<and> (IO_TIMEOUT \<le> lb_latency w \<longrightarrow>
      (\<exists>w'. lease_acquire loopback_io who timeout w
         = Some (Inl (Transport (Connecting (lit ''daemon'') (Os_error 110))), w')))"
proof (cases "lb_timely w")
  case False
  then show ?thesis
    using assms(6) by (simp add: lb_timely_def lease_acquire_def checked_add_def lb_connect_def)
next
  case timely: True
  let ?c = "lb_conns w" and ?deadline = "after (lb_now w) timeout" and ?d = "max (from_secs 1) (2 * lb_latency w)"
  let ?w = "(lb_meanwhile (lb_meanwhile w))\<lparr>lb_conns := Suc ?c\<rparr>"
  have now: "lb_now w < expires_at h" using assms(3) by (simp add: lb_lease_def in_force_Some)
  have "deserted h ?c w" using assms(2,3,5,7) timely now by (simp add: deserted_def)
  then have "deserted h ?c (lb_meanwhile (lb_meanwhile w))"
    by (intro deserted_meanwhile)
  then have d: "deserted h ?c ?w" by (simp add: deserted_def lb_lease_def)
  have conn: "lb_connect w = (Inr ?c, ?w)" using timely assms(4) by (simp add: lb_connect_def)
  have early: "lb_now ?w < after (expires_at h) ?d" "lb_now ?w \<le> after ?deadline ?d" "from_secs 1 \<le> ?d"
    using now timely by (auto simp: less_instant_def less_eq_instant_def lb_wait_timely)
  have lat: "lb_latency ?w = lb_latency w" by simp
  from deserted_wait [OF d early, of who] obtain v r where
    loop: "retry_loop (acquire_attempt loopback_io who DEFAULT_TTL ?c) lb_now (io_sleep loopback_io)
        (from_secs 1) ?deadline ?w = Some (v, r)"
    and r: "(\<exists>i. r = Inl (Inr i) \<and> lb_lease v = Some (new_lease i who (lb_now v)) \<and> server_alive (lb_daemon v)
          \<and> expires_at h \<le> lb_now v \<and> lb_now v < after (expires_at h) late
          \<and> lb_now v \<le> after ?deadline late)
      \<or> (\<exists>n. r = Inr (held_holder h, n) \<and> lb_lease v = Some h \<and> ?deadline \<le> lb_now v \<and> lb_now v < expires_at h)"
    unfolding lat late_def by auto
  have acq: "lease_acquire loopback_io who timeout w = (case r of
      Inr (other, n) \<Rightarrow> Some (Inl (Gave_up other n timeout), v)
    | Inl (Inl e) \<Rightarrow> Some (Inl e, v)
    | Inl (Inr i) \<Rightarrow> Some (Inr (?c, i), v))"
    using loop conn assms(6) by (auto simp: lease_acquire_def checked_add_def split: sum.split)
  from r show ?thesis
  proof (elim disjE exE conjE)
    fix i
    assume g: "r = Inl (Inr i)" "lb_lease v = Some (new_lease i who (lb_now v))" "server_alive (lb_daemon v)"
      "expires_at h \<le> lb_now v" "lb_now v < after (expires_at h) late"
      "lb_now v \<le> after ?deadline late"
    have "i \<noteq> held_id h \<longrightarrow> fst (lb_handle (Renew (held_id h)) v) = Inr Gone"
      using fst_lb_handle [OF g(3), of "Renew (held_id h)"] g(2) by (simp add: spec_reply_def new_lease_def)
    moreover have "\<not> after (lb_now w) (timeout + late) < expires_at h"
      using g(4,6) by (simp add: less_instant_def less_eq_instant_def)
    ultimately show ?thesis using g acq timely by (auto simp: lb_timely_def)
  next
    fix n
    assume "r = Inr (held_holder h, n)" "lb_lease v = Some h" "?deadline \<le> lb_now v" "lb_now v < expires_at h"
    then show ?thesis using acq timely by (auto simp: less_instant_def less_eq_instant_def lb_timely_def)
  qed
qed

theorem waiting_runner_succeeds_a_dead_one_witness:
  "let h = \<lparr>held_id = 9, held_holder = lit ''ci'', expires_at = Instant 4000000000, held_ttl = 60\<rparr>
   in (\<exists>i w'. lease_acquire loopback_io (lit ''a'') 5000000000 (lb_start [] (Some h)) = Some (Inr (1, i), w'))
    \<and> (\<exists>n w'. lease_acquire loopback_io (lit ''a'') 1000000000 (lb_start [] (Some h))
          = Some (Inl (Gave_up (lit ''ci'') n 1000000000), w'))"
proof -
  let ?h = "\<lparr>held_id = 9, held_holder = lit ''ci'', expires_at = Instant 4000000000, held_ttl = 60\<rparr>"
  let ?w = "lb_start [] (Some ?h)"
  have w: "server_alive (lb_daemon ?w)" "lb_lease ?w = Some ?h" "lb_reachable ?w" "lb_conns ?w \<notin> set (lb_cut ?w)"
    "\<forall>rs \<in> set (lb_script ?w). list_all (bystander (held_id ?h)) rs"
    by (simp_all add: lb_start_def server_alive_def lb_lease_def in_force_Some less_instant_def)
  have f: "lb_latency ?w = 1" "lb_now ?w = Instant 0" "lb_conns ?w = 1" "1 < IO_TIMEOUT"
    by (simp_all add: lb_start_def IO_TIMEOUT_def time_simps)
  note run = waiting_runner_succeeds_a_dead_one [OF w(1-4) _ w(5), of _ "lit ''a''", unfolded f(1,2,3)]
  have "\<exists>i w'. lease_acquire loopback_io (lit ''a'') 5000000000 ?w = Some (Inr (1, i), w')"
    using run [of 5000000000] f(4) by (auto simp: instant_limit_def less_eq_instant_def)
  moreover have "\<exists>n w'. lease_acquire loopback_io (lit ''a'') 1000000000 ?w
      = Some (Inl (Gave_up (lit ''ci'') n 1000000000), w')"
    using run [of 1000000000] f(4)
    by (auto simp: instant_limit_def less_instant_def from_secs_def nanos_per_sec_def)
  ultimately show ?thesis by simp
qed

end
