(* ===== verification/Config.thy ===== *)
theory Config
  imports Timing "HOL-Library.Multiset"
begin

text \<open>
  The rig topology file (\<open>banc-host/src/config.rs\<close>): its data, where it is looked for, how it
  is loaded and what \<open>validate\<close> rejects. Reading a file, asking whether a path is a file, the
  environment and the TOML parser are arguments; a TOML table that is passed through
  untouched has an arbitrary type.

  A path is kept as its components, which is what \<open>Path\<close> compares, joins and pops by.
\<close>

section \<open>Paths and the environment\<close>

record path =
  absolute :: bool
  parts :: "rstr list"

fun split_on :: "rchar \<Rightarrow> rstr \<Rightarrow> rstr list" where
  "split_on c [] = [[]]"
| "split_on c (x # xs) =
     (if x = c then [] # split_on c xs
      else case split_on c xs of [] \<Rightarrow> [[x]] | p # ps \<Rightarrow> (x # p) # ps)"

text \<open>Empty components and inner dots do not count, a leading dot does.\<close>

definition path_of :: "rstr \<Rightarrow> path" where
  "path_of s =
    (let segs = filter (\<lambda>p. p \<noteq> []) (split_on 47 s) in
     \<lparr>absolute = (take 1 s = lit ''/''),
      parts = (case segs of [] \<Rightarrow> []
        | p # ps \<Rightarrow> (if p = lit ''.'' \<and> take 1 s = lit ''/'' then [] else [p])
            @ filter (\<lambda>q. q \<noteq> lit ''.'') ps)\<rparr>)"

definition join :: "path \<Rightarrow> path \<Rightarrow> path" where
  "join dir p = (if absolute p then p else dir\<lparr>parts := parts dir @ parts p\<rparr>)"

definition file_in :: "path \<Rightarrow> rstr \<Rightarrow> path" where
  "file_in dir name = join dir \<lparr>absolute = False, parts = [name]\<rparr>"

text \<open>\<open>PathBuf::pop\<close> and \<open>Path::parent\<close>: there is no parent above the last component.\<close>

definition parent :: "path \<Rightarrow> path option" where
  "parent p = (if parts p = [] then None else Some (p\<lparr>parts := butlast (parts p)\<rparr>))"

text \<open>An environment variable; one that is not Unicode still denotes a path.\<close>

datatype env_value = Unset | Not_unicode path | Value rstr

lemma parts_file_in [simp]: "parts (file_in d n) = parts d @ [n]" "absolute (file_in d n) = absolute d"
  by (simp_all add: file_in_def join_def)

lemma parent_file_in [simp]: "parent (file_in d n) = Some d"
  by (simp add: parent_def file_in_def join_def)

lemma file_in_inject [simp]: "file_in d n = file_in d' n' \<longleftrightarrow> d = d' \<and> n = n'"
  by (cases d; cases d') (auto simp: file_in_def join_def)

section \<open>The configuration\<close>

definition CONFIG_FILE :: rstr where
  "CONFIG_FILE = lit ''banc-rig.toml''"

definition ENV_VAR :: rstr where
  "ENV_VAR = lit ''BANC_RIG''"

record lease_config =
  lease_addr :: rstr
  lease_token_file :: path

record rig_meta =
  rig_name :: "rstr option"
  lock_file :: "path option"
  rig_lease :: "lease_config option"

record 't target_config =
  chip :: rstr
  probe :: "rstr option"
  probe_host :: "rstr option"
  target_token_file :: "path option"
  target_params :: 't

record assistant_config =
  assistant_name :: rstr
  serial :: "rstr option"
  product :: "rstr option"
  addr :: "rstr option"
  token_file :: "path option"
  unique_id :: "rstr option"

record 't instrument_config =
  instrument_name :: rstr
  kind :: rstr
  address :: "rstr option"
  params :: 't

record 't rig_config =
  rig :: rig_meta
  target :: "'t target_config option"
  assistants :: "assistant_config list"
  instruments :: "'t instrument_config list"

definition is_network :: "assistant_config \<Rightarrow> bool" where
  "is_network a \<longleftrightarrow> addr a \<noteq> None"

section \<open>Locating and loading\<close>

datatype config_error =
    Assistant_without_name
  | Duplicate_assistant rstr
  | Instrument_without_name
  | Duplicate_instrument rstr
  | Two_transports rstr
  | Addr_without_token rstr
  | Empty_addr rstr
  | Matches_any_device rstr
  | Token_without_addr rstr
  | Bad_unique_id rstr rstr
  | Empty_lease_addr

datatype ('io, 'e) load_error =
    Env_path_missing path
  | No_current_dir 'io
  | Unreadable_config 'io
  | Parsing path 'e
  | Invalid_config path config_error

function search_up :: "(path \<Rightarrow> bool) \<Rightarrow> path \<Rightarrow> path option" where
  "search_up is_file dir =
    (if is_file (file_in dir CONFIG_FILE) then Some (file_in dir CONFIG_FILE)
     else case parent dir of None \<Rightarrow> None | Some dir' \<Rightarrow> search_up is_file dir')"
  by pat_completeness auto
termination
  by (relation "measure (\<lambda>(_, dir). length (parts dir))") (auto simp: parent_def split: if_splits)

declare search_up.simps [simp del]

definition locate ::
  "env_value \<Rightarrow> (path \<Rightarrow> bool) \<Rightarrow> 'io + path \<Rightarrow> ('io, 'e) load_error + path option" where
  "locate env is_file current_dir =
    (case env of
       Value s \<Rightarrow>
         let path = path_of s in
         and_then (ensure (is_file path) (Env_path_missing path)) (\<lambda>_. Inr (Some path))
     | _ \<Rightarrow> and_then (map_err No_current_dir current_dir) (\<lambda>dir. Inr (search_up is_file dir)))"

section \<open>Validation\<close>

text \<open>The names seen so far, tagged with the kind of entry, as the code keeps them.\<close>

fun check_assistant_names :: "(rstr \<times> rstr) set \<Rightarrow> assistant_config list \<Rightarrow> config_error + unit" where
  "check_assistant_names seen [] = Inr ()"
| "check_assistant_names seen (a # as) =
     and_then (ensure (trim (assistant_name a) \<noteq> []) Assistant_without_name) (\<lambda>_.
     and_then (ensure ((lit ''assistant'', assistant_name a) \<notin> seen)
                 (Duplicate_assistant (assistant_name a))) (\<lambda>_.
     check_assistant_names (insert (lit ''assistant'', assistant_name a) seen) as))"

fun check_instrument_names ::
  "(rstr \<times> rstr) set \<Rightarrow> 't instrument_config list \<Rightarrow> config_error + unit" where
  "check_instrument_names seen [] = Inr ()"
| "check_instrument_names seen (i # is) =
     and_then (ensure (trim (instrument_name i) \<noteq> []) Instrument_without_name) (\<lambda>_.
     and_then (ensure ((lit ''instrument'', instrument_name i) \<notin> seen)
                 (Duplicate_instrument (instrument_name i))) (\<lambda>_.
     check_instrument_names (insert (lit ''instrument'', instrument_name i) seen) is))"

definition check_assistant :: "assistant_config \<Rightarrow> config_error + unit" where
  "check_assistant a =
    and_then
      (if is_network a then
         and_then (ensure (serial a = None \<and> product a = None) (Two_transports (assistant_name a))) (\<lambda>_.
         and_then (ensure (token_file a \<noteq> None) (Addr_without_token (assistant_name a))) (\<lambda>_.
         ensure (trim (case addr a of Some s \<Rightarrow> s | None \<Rightarrow> []) \<noteq> []) (Empty_addr (assistant_name a))))
       else
         and_then (ensure (serial a \<noteq> None \<or> product a \<noteq> None) (Matches_any_device (assistant_name a))) (\<lambda>_.
         ensure (token_file a = None) (Token_without_addr (assistant_name a))))
      (\<lambda>_. case unique_id a of
             None \<Rightarrow> Inr ()
           | Some i \<Rightarrow> ensure (str_len i = 16 \<and> list_all is_ascii_hexdigit i)
                         (Bad_unique_id (assistant_name a) i))"

fun check_assistants :: "assistant_config list \<Rightarrow> config_error + unit" where
  "check_assistants [] = Inr ()"
| "check_assistants (a # as) = and_then (check_assistant a) (\<lambda>_. check_assistants as)"

definition validate :: "'t rig_config \<Rightarrow> config_error + unit" where
  "validate c =
    and_then (check_assistant_names {} (assistants c)) (\<lambda>_.
    and_then (check_instrument_names {} (instruments c)) (\<lambda>_.
    and_then (check_assistants (assistants c)) (\<lambda>_.
      case rig_lease (rig c) of
        None \<Rightarrow> Inr ()
      | Some l \<Rightarrow> ensure (trim (lease_addr l) \<noteq> []) Empty_lease_addr)))"

definition load ::
  "(path \<Rightarrow> 'io + rstr) \<Rightarrow> (rstr \<Rightarrow> 'e + 't rig_config) \<Rightarrow> path
   \<Rightarrow> ('io, 'e) load_error + 't rig_config" where
  "load read_to_string from_str path =
    and_then (map_err Unreadable_config (read_to_string path)) (\<lambda>text.
    and_then (map_err (Parsing path) (from_str text)) (\<lambda>config.
    and_then (map_err (Invalid_config path) (validate config)) (\<lambda>_. Inr config)))"

definition assistant :: "'t rig_config \<Rightarrow> rstr \<Rightarrow> assistant_config option" where
  "assistant c name = find (\<lambda>a. assistant_name a = name) (assistants c)"

definition instrument :: "'t rig_config \<Rightarrow> rstr \<Rightarrow> 't instrument_config option" where
  "instrument c name = find (\<lambda>i. instrument_name i = name) (instruments c)"

section \<open>What a valid configuration is\<close>

text \<open>
  The specification: every entry is reachable in exactly one way, names identify entries, and
  a pinned identifier has sixteen hexadecimal digits.
\<close>

datatype reach = Over_usb "rstr option" "rstr option" | Over_network rstr path

definition blank :: "rstr \<Rightarrow> bool" where
  "blank s \<longleftrightarrow> list_all is_whitespace s"

fun reach_of :: "rstr option \<Rightarrow> path option \<Rightarrow> rstr option \<Rightarrow> rstr option \<Rightarrow> reach option" where
  "reach_of (Some a) (Some t) None None = (if blank a then None else Some (Over_network a t))"
| "reach_of None None (Some s) p = Some (Over_usb (Some s) p)"
| "reach_of None None None (Some p) = Some (Over_usb None (Some p))"
| "reach_of _ _ _ _ = None"

definition reached :: "assistant_config \<Rightarrow> reach option" where
  "reached a = reach_of (addr a) (token_file a) (serial a) (product a)"

definition pin_ok :: "assistant_config \<Rightarrow> bool" where
  "pin_ok a \<longleftrightarrow> (case unique_id a of None \<Rightarrow> True
     | Some i \<Rightarrow> length i = 16 \<and> list_all is_ascii_hexdigit i)"

definition names_ok :: "rstr list \<Rightarrow> bool" where
  "names_ok ns \<longleftrightarrow> distinct ns \<and> (\<forall>n \<in> set ns. \<not> blank n)"

definition well_formed :: "'t rig_config \<Rightarrow> bool" where
  "well_formed c \<longleftrightarrow>
    names_ok (map assistant_name (assistants c)) \<and> names_ok (map instrument_name (instruments c))
    \<and> (\<forall>a \<in> set (assistants c). reached a \<noteq> None \<and> pin_ok a)
    \<and> (\<forall>l. rig_lease (rig c) = Some l \<longrightarrow> \<not> blank (lease_addr l))"

text \<open>What each error claims about the configuration.\<close>

fun defect :: "config_error \<Rightarrow> 't rig_config \<Rightarrow> bool" where
  "defect Assistant_without_name c \<longleftrightarrow> (\<exists>a \<in> set (assistants c). blank (assistant_name a))"
| "defect (Duplicate_assistant n) c \<longleftrightarrow> 2 \<le> count_list (map assistant_name (assistants c)) n"
| "defect Instrument_without_name c \<longleftrightarrow> (\<exists>i \<in> set (instruments c). blank (instrument_name i))"
| "defect (Duplicate_instrument n) c \<longleftrightarrow> 2 \<le> count_list (map instrument_name (instruments c)) n"
| "defect (Two_transports n) c \<longleftrightarrow> (\<exists>a \<in> set (assistants c). assistant_name a = n
      \<and> addr a \<noteq> None \<and> (serial a \<noteq> None \<or> product a \<noteq> None))"
| "defect (Addr_without_token n) c \<longleftrightarrow> (\<exists>a \<in> set (assistants c). assistant_name a = n
      \<and> addr a \<noteq> None \<and> token_file a = None)"
| "defect (Empty_addr n) c \<longleftrightarrow> (\<exists>a \<in> set (assistants c). assistant_name a = n
      \<and> (\<exists>s. addr a = Some s \<and> blank s))"
| "defect (Matches_any_device n) c \<longleftrightarrow> (\<exists>a \<in> set (assistants c). assistant_name a = n
      \<and> addr a = None \<and> serial a = None \<and> product a = None)"
| "defect (Token_without_addr n) c \<longleftrightarrow> (\<exists>a \<in> set (assistants c). assistant_name a = n
      \<and> addr a = None \<and> token_file a \<noteq> None)"
| "defect (Bad_unique_id n i) c \<longleftrightarrow> (\<exists>a \<in> set (assistants c). assistant_name a = n
      \<and> unique_id a = Some i \<and> \<not> pin_ok a)"
| "defect Empty_lease_addr c \<longleftrightarrow> (\<exists>l. rig_lease (rig c) = Some l \<and> blank (lease_addr l))"

lemma trim_blank: "trim s = [] \<longleftrightarrow> blank s"
  by (simp add: trim_empty_iff blank_def)

lemma str_len_pin:
  "list_all is_ascii_hexdigit s \<Longrightarrow> str_len s = length s"
  by (rule str_len_ascii) (auto simp: list_all_iff is_ascii_hexdigit_def is_ascii_digit_def)

lemma check_assistant_ok: "check_assistant a = Inr () \<longleftrightarrow> reached a \<noteq> None \<and> pin_ok a"
proof (cases "unique_id a")
  case None
  then show ?thesis
    by (cases "(addr a, token_file a, serial a, product a)" rule: reach_of.cases)
      (auto simp: check_assistant_def is_network_def reached_def pin_ok_def trim_blank result_simps)
next
  case (Some i)
  then show ?thesis
    by (cases "(addr a, token_file a, serial a, product a)" rule: reach_of.cases)
      (auto simp: check_assistant_def is_network_def reached_def pin_ok_def trim_blank str_len_pin result_simps)
qed

lemma check_assistants_ok:
  "check_assistants as = Inr () \<longleftrightarrow> (\<forall>a \<in> set as. reached a \<noteq> None \<and> pin_ok a)"
  by (induction as) (auto simp: result_simps check_assistant_ok)

lemma check_assistants_err:
  "check_assistants as = Inl e \<Longrightarrow> \<exists>a \<in> set as. check_assistant a = Inl e"
  by (induction as) (auto simp: result_simps)

lemma check_assistant_err:
  "a \<in> set (assistants c) \<Longrightarrow> check_assistant a = Inl e \<Longrightarrow> defect e c"
  by (auto simp: check_assistant_def is_network_def trim_blank result_simps pin_ok_def str_len_pin
      intro!: bexI [of _ a] split: if_splits option.splits)

lemma assistant_names_ok:
  "check_assistant_names (Pair (lit ''assistant'') ` ns) as = Inr () \<longleftrightarrow>
   names_ok (map assistant_name as) \<and> set (map assistant_name as) \<inter> ns = {}"
proof (induction as arbitrary: ns)
  case (Cons a as)
  from Cons [of "insert (assistant_name a) ns"] show ?case
    by (auto simp: result_simps trim_blank names_ok_def)
qed (simp add: names_ok_def)

lemma instrument_names_ok:
  "check_instrument_names (Pair (lit ''instrument'') ` ns) is = Inr () \<longleftrightarrow>
   names_ok (map instrument_name is) \<and> set (map instrument_name is) \<inter> ns = {}"
proof (induction "is" arbitrary: ns)
  case (Cons i "is")
  from Cons [of "insert (instrument_name i) ns"] show ?case
    by (auto simp: result_simps trim_blank names_ok_def)
qed (simp add: names_ok_def)

lemma assistant_names_err:
  "check_assistant_names (Pair (lit ''assistant'') ` ns) as = Inl e \<Longrightarrow>
   e = Assistant_without_name \<and> (\<exists>a \<in> set as. blank (assistant_name a))
   \<or> (\<exists>n. e = Duplicate_assistant n
        \<and> 2 \<le> count_list (map assistant_name as) n + of_bool (n \<in> ns))"
proof (induction as arbitrary: ns)
  case (Cons a as)
  let ?n = "assistant_name a"
  consider "blank ?n" | "\<not> blank ?n" "?n \<in> ns" | "\<not> blank ?n" "?n \<notin> ns" by blast
  then show ?case
  proof cases
    case 3
    then have "check_assistant_names (Pair (lit ''assistant'') ` insert ?n ns) as = Inl e"
      using Cons.prems by (auto simp: trim_blank ensure_def split: if_splits)
    from Cons.IH [OF this] show ?thesis
    proof (elim disjE exE)
      fix n
      assume "e = Duplicate_assistant n
        \<and> 2 \<le> count_list (map assistant_name as) n + of_bool (n \<in> insert ?n ns)"
      with 3 have "e = Duplicate_assistant n
        \<and> 2 \<le> count_list (map assistant_name (a # as)) n + of_bool (n \<in> ns)"
        by (cases "n = ?n") auto
      then show ?thesis by blast
    qed simp
  next
    case 2
    with Cons.prems have "e = Duplicate_assistant ?n" by (auto simp: trim_blank)
    with 2 show ?thesis
      by (intro disjI2 exI [of _ ?n]) simp
  qed (use Cons.prems in \<open>simp add: trim_blank\<close>)
qed simp

lemma instrument_names_err:
  "check_instrument_names (Pair (lit ''instrument'') ` ns) is = Inl e \<Longrightarrow>
   e = Instrument_without_name \<and> (\<exists>i \<in> set is. blank (instrument_name i))
   \<or> (\<exists>n. e = Duplicate_instrument n
        \<and> 2 \<le> count_list (map instrument_name is) n + of_bool (n \<in> ns))"
proof (induction "is" arbitrary: ns)
  case (Cons i "is")
  let ?n = "instrument_name i"
  consider "blank ?n" | "\<not> blank ?n" "?n \<in> ns" | "\<not> blank ?n" "?n \<notin> ns" by blast
  then show ?case
  proof cases
    case 3
    then have "check_instrument_names (Pair (lit ''instrument'') ` insert ?n ns) is = Inl e"
      using Cons.prems by (auto simp: trim_blank ensure_def split: if_splits)
    from Cons.IH [OF this] show ?thesis
    proof (elim disjE exE)
      fix n
      assume "e = Duplicate_instrument n
        \<and> 2 \<le> count_list (map instrument_name is) n + of_bool (n \<in> insert ?n ns)"
      with 3 have "e = Duplicate_instrument n
        \<and> 2 \<le> count_list (map instrument_name (i # is)) n + of_bool (n \<in> ns)"
        by (cases "n = ?n") auto
      then show ?thesis by blast
    qed simp
  next
    case 2
    with Cons.prems have "e = Duplicate_instrument ?n" by (auto simp: trim_blank)
    with 2 show ?thesis
      by (intro disjI2 exI [of _ ?n]) simp
  qed (use Cons.prems in \<open>simp add: trim_blank\<close>)
qed simp

lemmas empty_names_ok = assistant_names_ok [of "{}", simplified] instrument_names_ok [of "{}", simplified]
lemmas empty_names_err = assistant_names_err [of "{}", simplified] instrument_names_err [of "{}", simplified]

lemma validate_ok: "validate c = Inr () \<longleftrightarrow> well_formed c"
  unfolding validate_def well_formed_def and_then_Inr_iff
  by (simp add: empty_names_ok check_assistants_ok trim_blank split: option.split)

lemma validate_err:
  assumes "validate c = Inl e"
  shows "defect e c"
proof -
  consider "check_assistant_names {} (assistants c) = Inl e"
    | "check_instrument_names {} (instruments c) = Inl e"
    | "check_assistants (assistants c) = Inl e" | "defect e c"
    using assms unfolding validate_def and_then_Inl_iff
    by (auto simp del: split_paired_Ex simp: trim_blank split: option.splits)
  then show ?thesis
  proof cases
    case 1
    then show ?thesis using empty_names_err(1) by fastforce
  next
    case 2
    then show ?thesis using empty_names_err(2) by fastforce
  next
    case 3
    then show ?thesis using check_assistants_err check_assistant_err by blast
  qed
qed

section \<open>Lookups\<close>

lemma find_unique:
  "distinct (map f xs) \<Longrightarrow> find (\<lambda>x. f x = k) xs = Some x \<longleftrightarrow> x \<in> set xs \<and> f x = k"
  by (induction xs) auto

lemma find_permuted:
  assumes "distinct (map f xs)" and "mset ys = mset xs"
  shows "find (\<lambda>x. f x = k) ys = find (\<lambda>x. f x = k) xs"
proof -
  have "mset (map f ys) = mset (map f xs)" using assms(2) by simp
  then have "distinct (map f ys)" using assms(1) mset_eq_imp_distinct_iff by blast
  moreover have "set ys = set xs" using assms(2) by (rule mset_eq_setD)
  ultimately show ?thesis
    using find_unique [OF assms(1), of k] find_unique [of f ys k] by (metis option.exhaust)
qed

lemma lookups_of_valid:
  assumes "well_formed c"
  shows "distinct (map assistant_name (assistants c))" "distinct (map instrument_name (instruments c))"
  using assms by (auto simp: well_formed_def names_ok_def)

text \<open>The ancestors of a directory, itself included, by how many components they keep.\<close>

definition ancestor :: "path \<Rightarrow> nat \<Rightarrow> path" where
  "ancestor dir k = dir\<lparr>parts := take k (parts dir)\<rparr>"

lemma ancestor_self: "ancestor dir (length (parts dir)) = dir"
  by (simp add: ancestor_def)

lemma length_parent: "parent dir = Some d \<Longrightarrow> length (parts dir) = Suc (length (parts d))"
  by (auto simp: parent_def split: if_splits)

lemma ancestor_parent:
  assumes "parent dir = Some d" and "k \<le> length (parts d)"
  shows "ancestor d k = ancestor dir k"
proof -
  have "k < length (parts dir)" using assms length_parent [of dir d] by simp
  with assms(1) show ?thesis
    by (auto simp: parent_def ancestor_def take_butlast split: if_splits)
qed

lemma all_up_to_Suc: "(\<forall>k \<le> Suc n. P k) \<longleftrightarrow> P (Suc n) \<and> (\<forall>k \<le> n. P k)"
  by (auto simp: le_Suc_eq)

lemma search_up_None:
  "search_up is_file dir = None \<longleftrightarrow>
   (\<forall>k \<le> length (parts dir). \<not> is_file (file_in (ancestor dir k) CONFIG_FILE))"
proof (induction is_file dir rule: search_up.induct)
  case (1 is_file dir)
  show ?case
  proof (cases "parent dir")
    case None
    then have "length (parts dir) = 0" by (simp add: parent_def split: if_splits)
    with None show ?thesis
      using ancestor_self [of dir] by (subst search_up.simps) simp
  next
    case (Some d)
    have "search_up is_file dir = None \<longleftrightarrow>
        \<not> is_file (file_in dir CONFIG_FILE) \<and> search_up is_file d = None"
      using Some by (subst search_up.simps) simp
    also have "\<dots> \<longleftrightarrow> \<not> is_file (file_in dir CONFIG_FILE)
        \<and> (\<forall>k \<le> length (parts d). \<not> is_file (file_in (ancestor d k) CONFIG_FILE))"
      using 1 [OF _ Some] by blast
    also have "\<dots> \<longleftrightarrow> (\<forall>k \<le> Suc (length (parts d)). \<not> is_file (file_in (ancestor dir k) CONFIG_FILE))"
      using ancestor_parent [OF Some] length_parent [OF Some] ancestor_self [of dir]
      by (simp add: all_up_to_Suc)
    finally show ?thesis using length_parent [OF Some] by simp
  qed
qed

lemma search_up_Some:
  "search_up is_file dir = Some p \<Longrightarrow>
   \<exists>k \<le> length (parts dir). p = file_in (ancestor dir k) CONFIG_FILE \<and> is_file p
     \<and> (\<forall>j. k < j \<longrightarrow> j \<le> length (parts dir) \<longrightarrow> \<not> is_file (file_in (ancestor dir j) CONFIG_FILE))"
proof (induction is_file dir rule: search_up.induct)
  case (1 is_file dir)
  show ?case
  proof (cases "is_file (file_in dir CONFIG_FILE)")
    case True
    with 1 show ?thesis
      by (intro exI [of _ "length (parts dir)"]) (simp add: search_up.simps [of is_file dir] ancestor_self)
  next
    case False
    with 1(2) obtain d where d: "parent dir = Some d" "search_up is_file d = Some p"
      by (auto simp: search_up.simps [of is_file dir] split: option.splits)
    obtain k where k: "k \<le> length (parts d)" "p = file_in (ancestor d k) CONFIG_FILE" "is_file p"
      "\<And>j. k < j \<Longrightarrow> j \<le> length (parts d) \<Longrightarrow> \<not> is_file (file_in (ancestor d j) CONFIG_FILE)"
      using 1(1) [OF False d] by blast
    have "\<not> is_file (file_in (ancestor dir j) CONFIG_FILE)" if "k < j" "j \<le> length (parts dir)" for j
      using that k(4) [of j] False ancestor_parent [OF d(1), of j] length_parent [OF d(1)]
        ancestor_self [of dir] by (cases "j = length (parts dir)") auto
    with k ancestor_parent [OF d(1) k(1)] length_parent [OF d(1)] show ?thesis
      by (intro exI [of _ k]) simp
  qed
qed

section \<open>Properties\<close>

text \<open>
  C14: validation decides well-formedness and its message tells the truth. A configuration is
  accepted exactly when every assistant is reachable in exactly one way (USB with at least
  one match field and no token, or network with a non-blank address, a token and no USB
  field), pins have sixteen hexadecimal digits, names are non-blank and unique, and a lease
  has an address; otherwise the error that is returned names a defect the configuration has.
\<close>

theorem validate_decides_well_formedness:
  "case validate c of Inr _ \<Rightarrow> well_formed c | Inl e \<Rightarrow> \<not> well_formed c \<and> defect e c"
  using validate_ok [of c] validate_err [of c] by (cases "validate c") auto

text \<open>
  After validation a lookup by name is unambiguous. It returns the entry of that name
  whenever there is one, and the order in which the file lists the entries does not matter.
\<close>

theorem lookup_is_unambiguous:
  assumes "validate c = Inr ()"
    and "mset (assistants c') = mset (assistants c)" and "mset (instruments c') = mset (instruments c)"
  shows "(assistant c n = Some a \<longleftrightarrow> a \<in> set (assistants c) \<and> assistant_name a = n)
    \<and> (instrument c n = Some i \<longleftrightarrow> i \<in> set (instruments c) \<and> instrument_name i = n)
    \<and> assistant c' n = assistant c n \<and> instrument c' n = instrument c n"
proof -
  note d = lookups_of_valid [OF validate_ok [THEN iffD1, OF assms(1)]]
  show ?thesis
    unfolding assistant_def instrument_def
    using find_unique [OF d(1), of n a] find_unique [OF d(2), of n i]
      find_permuted [OF d(1) assms(2), of n] find_permuted [OF d(2) assms(3), of n] by simp
qed

definition usb_entry :: "string \<Rightarrow> string \<Rightarrow> assistant_config" where
  "usb_entry n s = \<lparr>assistant_name = lit n, serial = Some (lit s), product = None, addr = None,
     token_file = None, unique_id = None\<rparr>"

definition plain_config :: "assistant_config list \<Rightarrow> unit rig_config" where
  "plain_config as = \<lparr>rig = \<lparr>rig_name = None, lock_file = None, rig_lease = None\<rparr>, target = None,
     assistants = as, instruments = []\<rparr>"

theorem lookup_is_unambiguous_witness:
  "assistant (plain_config [usb_entry ''b'' ''2'', usb_entry ''a'' ''1'']) (lit ''a'')
     = assistant (plain_config [usb_entry ''a'' ''1'', usb_entry ''b'' ''2'']) (lit ''a'')"
  using lookup_is_unambiguous [of "plain_config [usb_entry ''a'' ''1'', usb_entry ''b'' ''2'']"
      "plain_config [usb_entry ''b'' ''2'', usb_entry ''a'' ''1'']"]
  by (simp add: plain_config_def usb_entry_def validate_def check_assistant_def is_network_def
      lit_def trim_blank blank_def is_whitespace_def)

text \<open>
  C16: which configuration a process uses. A variable that is set is binding, whatever the
  directories hold: the answer is the file it names when there is one, and the error that
  names it otherwise. Without a usable variable it is the one in the nearest enclosing
  directory, the current one included, and none exactly when no enclosing directory has one;
  a current directory that cannot be read is an error and not the answer that there is none.
\<close>

theorem locate_finds_nearest:
  assumes "env = Unset \<or> (\<exists>p. env = Not_unicode p)"
  shows "(\<exists>r. locate env is_file (Inr dir) = (Inr r :: ('io, 'e) load_error + path option)
      \<and> (case r of
           None \<Rightarrow> \<forall>k \<le> length (parts dir). \<not> is_file (file_in (ancestor dir k) CONFIG_FILE)
         | Some p \<Rightarrow> \<exists>k \<le> length (parts dir). p = file_in (ancestor dir k) CONFIG_FILE \<and> is_file p
             \<and> (\<forall>j. k < j \<longrightarrow> j \<le> length (parts dir) \<longrightarrow>
                  \<not> is_file (file_in (ancestor dir j) CONFIG_FILE))))
    \<and> locate env is_file (Inl e) = (Inl (No_current_dir e) :: ('io, 'e) load_error + path option)
    \<and> locate (Value s) is_file cwd = (if is_file (path_of s) then Inr (Some (path_of s))
        else (Inl (Env_path_missing (path_of s)) :: ('io, 'e) load_error + path option))"
proof (intro conjI exI)
  show "locate env is_file (Inr dir) = Inr (search_up is_file dir)"
    using assms by (auto simp: locate_def)
  show "case search_up is_file dir of
           None \<Rightarrow> \<forall>k \<le> length (parts dir). \<not> is_file (file_in (ancestor dir k) CONFIG_FILE)
         | Some p \<Rightarrow> \<exists>k \<le> length (parts dir). p = file_in (ancestor dir k) CONFIG_FILE \<and> is_file p
             \<and> (\<forall>j. k < j \<longrightarrow> j \<le> length (parts dir) \<longrightarrow>
                  \<not> is_file (file_in (ancestor dir j) CONFIG_FILE))"
    using search_up_None [of is_file dir] search_up_Some [of is_file dir]
    by (cases "search_up is_file dir") auto
  show "locate env is_file (Inl e) = Inl (No_current_dir e)"
    using assms by (auto simp: locate_def result_simps)
  show "locate (Value s) is_file cwd = (if is_file (path_of s) then Inr (Some (path_of s))
      else Inl (Env_path_missing (path_of s)))"
    by (simp add: locate_def Let_def ensure_def)
qed

theorem locate_finds_nearest_witness:
  "locate Unset (\<lambda>p. p = path_of (lit ''/home/banc-rig.toml'')) (Inr (path_of (lit ''/home/me''))) =
   (Inr (Some (path_of (lit ''/home/banc-rig.toml''))) :: (nat, nat) load_error + path option)
   \<and> locate (Value (lit ''/x'')) (\<lambda>p. p = path_of (lit ''/home/banc-rig.toml'')) (Inr (path_of (lit ''/home/me''))) =
   (Inl (Env_path_missing (path_of (lit ''/x''))) :: (nat, nat) load_error + path option)"
proof -
  let ?f = "\<lambda>p. p = path_of (lit ''/home/banc-rig.toml'')" and ?d = "path_of (lit ''/home/me'')"
  have p: "?f (file_in (ancestor ?d 1) CONFIG_FILE)" "1 \<le> length (parts ?d)"
    by (simp_all add: path_of_def lit_def file_in_def join_def ancestor_def CONFIG_FILE_def)
  have l: "locate Unset ?f (Inr ?d) = (Inr (search_up ?f ?d) :: (nat, nat) load_error + path option)"
    by (simp add: locate_def)
  note t = locate_finds_nearest [where 'io = nat and 'e = nat, of Unset ?f ?d, unfolded l]
  have "search_up ?f ?d \<noteq> None"
  proof
    assume "search_up ?f ?d = None"
    with t p show False by auto
  qed
  then obtain q where q: "search_up ?f ?d = Some q" by blast
  with t have "?f q" by auto
  moreover have "\<not> ?f (path_of (lit ''/x''))" by (simp add: path_of_def lit_def)
  ultimately show ?thesis
    using l q locate_finds_nearest [where 'io = nat and 'e = nat, of Unset ?f ?d 0 "lit ''/x''" "Inr ?d"]
    by simp
qed

end
