(* ===== verification/FileLock.thy ===== *)
theory FileLock
  imports Config Framing Exclusion
begin

text \<open>
  The lock file that serialises processes on one machine (\<open>RigLock\<close>, \<open>flock_status\<close> and the
  holder note in \<open>banc-host/src/rig.rs\<close>). The operating system is the record \<open>lock_os\<close> of
  the calls the code makes, over an arbitrary world; \<open>kernel\<close> is one such system, with
  inodes, open file descriptions and the rule of \<open>flock\<close> that a lock belongs to an open
  description of an inode. The JSON encoding of the note is an argument.
\<close>

section \<open>The holder note\<close>

record lock_holder =
  holder :: rstr
  holder_pid :: u32
  since :: u64

record 'm json =
  to_json :: "'m \<Rightarrow> unit + rstr"
  from_json :: "rstr \<Rightarrow> unit + 'm"

datatype open_error = Not_found | Open_failed io_error

record ('f, 'w) lock_os =
  os_create_dir_all :: "path \<Rightarrow> 'w \<Rightarrow> (io_error + unit) \<times> 'w"
  os_open_create :: "path \<Rightarrow> 'w \<Rightarrow> (io_error + 'f) \<times> 'w"
  os_open :: "path \<Rightarrow> 'w \<Rightarrow> (open_error + 'f) \<times> 'w"
  os_try_lock :: "'f \<Rightarrow> 'w \<Rightarrow> (io_error + bool) \<times> 'w"
  os_unlock :: "'f \<Rightarrow> 'w \<Rightarrow> (io_error + unit) \<times> 'w"
  os_truncate :: "'f \<Rightarrow> 'w \<Rightarrow> (io_error + unit) \<times> 'w"
  os_rewind :: "'f \<Rightarrow> 'w \<Rightarrow> (io_error + unit) \<times> 'w"
  os_write_all :: "'f \<Rightarrow> rstr \<Rightarrow> 'w \<Rightarrow> (io_error + unit) \<times> 'w"
  os_flush :: "'f \<Rightarrow> 'w \<Rightarrow> (io_error + unit) \<times> 'w"
  os_close :: "'f \<Rightarrow> 'w \<Rightarrow> 'w"
  os_read_to_string :: "path \<Rightarrow> 'w \<Rightarrow> io_error + rstr"
  os_clock :: "'w \<Rightarrow> instant"
  os_sleep :: "duration \<Rightarrow> 'w \<Rightarrow> 'w"
  os_unix_secs :: "'w \<Rightarrow> u64 option"
  os_pid :: u32

definition read_lock_holder :: "('f, 'w) lock_os \<Rightarrow> lock_holder json \<Rightarrow> path \<Rightarrow> 'w \<Rightarrow> lock_holder option" where
  "read_lock_holder os js path w =
    (case os_read_to_string os path w of
       Inl _ \<Rightarrow> None
     | Inr text \<Rightarrow> (case from_json js text of Inl _ \<Rightarrow> None | Inr n \<Rightarrow> Some n))"

section \<open>Taking, dropping and asking\<close>

datatype lock_error =
    Creating_directory io_error
  | Creating_lock path io_error
  | Locking io_error
  | Held_for_over path "lock_holder option" duration
  | Lock_deadline_panic

text \<open>Writing the note is best effort: every error is ignored.\<close>

definition write_note ::
  "('f, 'w) lock_os \<Rightarrow> lock_holder json \<Rightarrow> rstr \<Rightarrow> 'f \<Rightarrow> 'w \<Rightarrow> 'w" where
  "write_note os js who f w =
    (let note = \<lparr>holder = who, holder_pid = os_pid os,
           since = (case os_unix_secs os w of Some d \<Rightarrow> d | None \<Rightarrow> 0)\<rparr>;
         w1 = snd (os_truncate os f w);
         w2 = snd (os_rewind os f w1)
     in case to_json js note of
          Inl _ \<Rightarrow> w2
        | Inr text \<Rightarrow> snd (os_flush os f (snd (os_write_all os f text w2))))"

definition lock_attempt ::
  "('f, 'w) lock_os \<Rightarrow> lock_holder json \<Rightarrow> rstr \<Rightarrow> 'f \<Rightarrow> 'w \<Rightarrow> 'w \<times> ((lock_error + 'f) + unit)" where
  "lock_attempt os js who f w =
    (case os_try_lock os f w of
       (Inl e, w1) \<Rightarrow> (w1, Inl (Inl (Locking e)))
     | (Inr True, w1) \<Rightarrow> (write_note os js who f w1, Inl (Inr f))
     | (Inr False, w1) \<Rightarrow> (w1, Inr ()))"

text \<open>
  Leaving with an error drops the file, which closes it. So does the panic of a deadline that
  cannot be represented, for which \<open>Lock_deadline_panic\<close> stands.
\<close>

definition rig_lock_take ::
  "('f, 'w) lock_os \<Rightarrow> lock_holder json \<Rightarrow> rstr \<Rightarrow> path \<Rightarrow> duration \<Rightarrow> 'w
   \<Rightarrow> ((lock_error + 'f) \<times> 'w) option" where
  "rig_lock_take os js who path timeout w =
    (case (case parent path of
             None \<Rightarrow> (Inr (), w)
           | Some dir \<Rightarrow> os_create_dir_all os dir w) of
       (Inl e, w1) \<Rightarrow> Some (Inl (Creating_directory e), w1)
     | (Inr _, w1) \<Rightarrow>
         (case os_open_create os path w1 of
            (Inl e, w2) \<Rightarrow> Some (Inl (Creating_lock path e), w2)
          | (Inr f, w2) \<Rightarrow>
              (case checked_add (os_clock os w2) timeout of
                 None \<Rightarrow> Some (Inl Lock_deadline_panic, os_close os f w2)
               | Some deadline \<Rightarrow>
                   (case retry_loop (lock_attempt os js who f) (os_clock os) (os_sleep os)
                           (from_millis 200) deadline w2 of
                      None \<Rightarrow> None
                    | Some (w3, Inl (Inr f)) \<Rightarrow> Some (Inr f, w3)
                    | Some (w3, Inl (Inl e)) \<Rightarrow> Some (Inl e, os_close os f w3)
                    | Some (w3, Inr _) \<Rightarrow>
                        Some (Inl (Held_for_over path (read_lock_holder os js path w3) timeout),
                              os_close os f w3)))))"

definition rig_lock_drop :: "('f, 'w) lock_os \<Rightarrow> 'f \<Rightarrow> 'w \<Rightarrow> 'w" where
  "rig_lock_drop os f w = os_close os f (snd (os_unlock os f (snd (os_truncate os f w))))"

datatype flock_state = Free | Held_by_other "lock_holder option"

datatype status_error = Opening path io_error | Probing io_error

definition flock_status ::
  "('f, 'w) lock_os \<Rightarrow> lock_holder json \<Rightarrow> path \<Rightarrow> 'w \<Rightarrow> (status_error + flock_state) \<times> 'w" where
  "flock_status os js path w =
    (case os_open os path w of
       (Inl Not_found, w1) \<Rightarrow> (Inr Free, w1)
     | (Inl (Open_failed e), w1) \<Rightarrow> (Inl (Opening path e), w1)
     | (Inr f, w1) \<Rightarrow>
         (case os_try_lock os f w1 of
            (Inl e, w2) \<Rightarrow> (Inl (Probing e), os_close os f w2)
          | (Inr True, w2) \<Rightarrow> (Inr Free, os_close os f (snd (os_unlock os f w2)))
          | (Inr False, w2) \<Rightarrow>
              (Inr (Held_by_other (read_lock_holder os js path w2)), os_close os f w2)))"

section \<open>A kernel with lockable files\<close>

text \<open>
  An open file description knows its inode and the process that opened it. The lock table
  maps an inode to the description that holds it. Contents are kept as text.
\<close>

record fdesc =
  fd_inode :: nat
  fd_pid :: u32
  fd_id :: nat

record kernel =
  k_paths :: "path \<Rightarrow> nat option"
  k_data :: "nat \<Rightarrow> rstr"
  k_owner :: "nat \<Rightarrow> fdesc option"
  k_pos :: "nat \<Rightarrow> nat"
  k_next :: nat
  k_now :: instant
  k_unix :: u64

definition k_open_inode :: "u32 \<Rightarrow> nat \<Rightarrow> kernel \<Rightarrow> fdesc \<times> kernel" where
  "k_open_inode p i k =
    (\<lparr>fd_inode = i, fd_pid = p, fd_id = k_next k\<rparr>,
     k\<lparr>k_next := Suc (k_next k), k_pos := (k_pos k)(k_next k := 0)\<rparr>)"

definition k_open_create :: "u32 \<Rightarrow> path \<Rightarrow> kernel \<Rightarrow> (io_error + fdesc) \<times> kernel" where
  "k_open_create p path k =
    (case k_paths k path of
       Some i \<Rightarrow> (let (f, k') = k_open_inode p i k in (Inr f, k'))
     | None \<Rightarrow>
         (let i = k_next k;
              (f, k') = k_open_inode p i (k\<lparr>k_next := Suc i, k_paths := (k_paths k)(path := Some i),
                                            k_data := (k_data k)(i := [])\<rparr>)
          in (Inr f, k')))"

definition k_open :: "u32 \<Rightarrow> path \<Rightarrow> kernel \<Rightarrow> (open_error + fdesc) \<times> kernel" where
  "k_open p path k =
    (case k_paths k path of
       Some i \<Rightarrow> (let (f, k') = k_open_inode p i k in (Inr f, k'))
     | None \<Rightarrow> (Inl Not_found, k))"

definition k_try_lock :: "fdesc \<Rightarrow> kernel \<Rightarrow> (io_error + bool) \<times> kernel" where
  "k_try_lock f k =
    (case k_owner k (fd_inode f) of
       None \<Rightarrow> (Inr True, k\<lparr>k_owner := (k_owner k)(fd_inode f := Some f)\<rparr>)
     | Some g \<Rightarrow> (Inr (g = f), k))"

definition k_unlock :: "fdesc \<Rightarrow> kernel \<Rightarrow> kernel" where
  "k_unlock f k =
    (if k_owner k (fd_inode f) = Some f then k\<lparr>k_owner := (k_owner k)(fd_inode f := None)\<rparr> else k)"

definition k_write :: "fdesc \<Rightarrow> rstr \<Rightarrow> kernel \<Rightarrow> kernel" where
  "k_write f s k =
    (let old = k_data k (fd_inode f); pos = k_pos k (fd_id f)
     in k\<lparr>k_data := (k_data k)(fd_inode f :=
            take pos old @ replicate (pos - length old) 0 @ s @ drop (pos + length s) old),
          k_pos := (k_pos k)(fd_id f := pos + length s)\<rparr>)"

definition k_unlink :: "path \<Rightarrow> kernel \<Rightarrow> kernel" where
  "k_unlink path k = k\<lparr>k_paths := (k_paths k)(path := None)\<rparr>"

definition kernel_os :: "u32 \<Rightarrow> (fdesc, kernel) lock_os" where
  "kernel_os p =
    \<lparr>os_create_dir_all = (\<lambda>_ k. (Inr (), k)),
     os_open_create = k_open_create p,
     os_open = k_open p,
     os_try_lock = k_try_lock,
     os_unlock = (\<lambda>f k. (Inr (), k_unlock f k)),
     os_truncate = (\<lambda>f k. (Inr (), k\<lparr>k_data := (k_data k)(fd_inode f := [])\<rparr>)),
     os_rewind = (\<lambda>f k. (Inr (), k\<lparr>k_pos := (k_pos k)(fd_id f := 0)\<rparr>)),
     os_write_all = (\<lambda>f s k. (Inr (), k_write f s k)),
     os_flush = (\<lambda>f k. (Inr (), k)),
     os_close = k_unlock,
     os_read_to_string = (\<lambda>path k. case k_paths k path of
        None \<Rightarrow> Inl (Os_error 2) | Some i \<Rightarrow> Inr (k_data k i)),
     os_clock = k_now,
     os_sleep = (\<lambda>d k. k\<lparr>k_now := after (k_now k) d\<rparr>),
     os_unix_secs = (\<lambda>k. Some (k_unix k)),
     os_pid = p\<rparr>"

lemma kernel_os_simps [simp]:
  "os_create_dir_all (kernel_os p) dir k = (Inr (), k)"
  "os_open_create (kernel_os p) = k_open_create p" "os_open (kernel_os p) = k_open p"
  "os_try_lock (kernel_os p) = k_try_lock" "os_unlock (kernel_os p) f k = (Inr (), k_unlock f k)"
  "os_truncate (kernel_os p) f k = (Inr (), k\<lparr>k_data := (k_data k)(fd_inode f := [])\<rparr>)"
  "os_rewind (kernel_os p) f k = (Inr (), k\<lparr>k_pos := (k_pos k)(fd_id f := 0)\<rparr>)"
  "os_write_all (kernel_os p) f t k = (Inr (), k_write f t k)" "os_flush (kernel_os p) f k = (Inr (), k)"
  "os_close (kernel_os p) = k_unlock" "os_clock (kernel_os p) = k_now"
  "os_sleep (kernel_os p) d k = k\<lparr>k_now := after (k_now k) d\<rparr>"
  "os_unix_secs (kernel_os p) k = Some (k_unix k)" "os_pid (kernel_os p) = p"
  "os_read_to_string (kernel_os p) path k =
     (case k_paths k path of None \<Rightarrow> Inl (Os_error 2) | Some i \<Rightarrow> Inr (k_data k i))"
  by (simp_all add: kernel_os_def)

text \<open>Lock tables stay consistent: holders are descriptions of the inode they hold.\<close>

definition kernel_ok :: "kernel \<Rightarrow> bool" where
  "kernel_ok k \<longleftrightarrow> (\<forall>path i. k_paths k path = Some i \<longrightarrow> i < k_next k)
    \<and> (\<forall>i f. k_owner k i = Some f \<longrightarrow> i < k_next k \<and> fd_inode f = i \<and> fd_id f < k_next k)"

text \<open>The note a process leaves, as a reader of the file sees it.\<close>

definition note_of :: "rstr \<Rightarrow> u32 \<Rightarrow> kernel \<Rightarrow> lock_holder" where
  "note_of who p k = \<lparr>holder = who, holder_pid = p, since = k_unix k\<rparr>"

definition note_text :: "lock_holder json \<Rightarrow> lock_holder \<Rightarrow> rstr" where
  "note_text js n = (case to_json js n of Inl _ \<Rightarrow> [] | Inr t \<Rightarrow> t)"

named_theorems kernel_simps "what the calls change in the kernel"

lemma write_note_kernel [kernel_simps]:
  "k_owner (write_note (kernel_os p) js who f k) = k_owner k"
  "k_paths (write_note (kernel_os p) js who f k) = k_paths k"
  "k_next (write_note (kernel_os p) js who f k) = k_next k"
  "k_now (write_note (kernel_os p) js who f k) = k_now k"
  "k_data (write_note (kernel_os p) js who f k) =
     (k_data k)(fd_inode f := note_text js (note_of who p k))"
  by (auto simp: write_note_def Let_def note_of_def note_text_def k_write_def split: sum.split)

lemma lock_attempt_kernel [kernel_simps]:
  "lock_attempt (kernel_os p) js who f k =
    (case k_owner k (fd_inode f) of
       None \<Rightarrow> (write_note (kernel_os p) js who f (k\<lparr>k_owner := (k_owner k)(fd_inode f := Some f)\<rparr>), Inl (Inr f))
     | Some g \<Rightarrow> if g = f then (write_note (kernel_os p) js who f k, Inl (Inr f)) else (k, Inr ()))"
  by (simp add: lock_attempt_def k_try_lock_def split: option.split)

interpretation kernel_retry: timed_world "lock_attempt (kernel_os p) js who f" k_now
    "os_sleep (kernel_os p)"
  by unfold_locales (auto simp: kernel_simps split: option.split)

lemma k_unlock_simps [kernel_simps]:
  "k_owner (k_unlock f k) =
     (if k_owner k (fd_inode f) = Some f then (k_owner k)(fd_inode f := None) else k_owner k)"
  "k_paths (k_unlock f k) = k_paths k" "k_next (k_unlock f k) = k_next k"
  "k_data (k_unlock f k) = k_data k" "k_now (k_unlock f k) = k_now k"
  by (simp_all add: k_unlock_def)

lemma kernel_okI:
  assumes "\<And>path i. k_paths k path = Some i \<Longrightarrow> i < k_next k"
    and "\<And>i f. k_owner k i = Some f \<Longrightarrow> i < k_next k \<and> fd_inode f = i \<and> fd_id f < k_next k"
  shows "kernel_ok k"
  using assms by (simp add: kernel_ok_def)

lemma kernel_okD:
  assumes "kernel_ok k"
  shows "k_paths k path = Some i \<Longrightarrow> i < k_next k"
    and "k_owner k i = Some f \<Longrightarrow> i < k_next k" and "k_owner k i = Some f \<Longrightarrow> fd_inode f = i"
    and "k_owner k i = Some f \<Longrightarrow> fd_id f < k_next k"
  using assms by (auto simp: kernel_ok_def)

lemma k_open_create_opens:
  assumes "kernel_ok k"
  obtains f k1 where "k_open_create p path k = (Inr f, k1)" "fd_pid f = p"
    "k_paths k1 = (k_paths k)(path := Some (fd_inode f))" "k_owner k1 = k_owner k"
    "k_now k1 = k_now k" "k_unix k1 = k_unix k" "kernel_ok k1" "fd_inode f < k_next k1" "fd_id f < k_next k1"
    "k_paths k path = None \<and> k_owner k (fd_inode f) = None
     \<or> k_paths k path = Some (fd_inode f) \<and> k_data k1 = k_data k"
    "\<forall>i. k_owner k i \<noteq> Some f"
proof (cases "k_paths k path")
  case None
  let ?f = "\<lparr>fd_inode = k_next k, fd_pid = p, fd_id = Suc (k_next k)\<rparr>"
  obtain k1 where o: "k_open_create p path k = (Inr ?f, k1)"
    and k1: "k1 = k\<lparr>k_next := Suc (Suc (k_next k)), k_paths := (k_paths k)(path := Some (k_next k)),
      k_data := (k_data k)(k_next k := []), k_pos := (k_pos k)(Suc (k_next k) := 0)\<rparr>"
    by (simp add: k_open_create_def None k_open_inode_def Let_def)
  have "kernel_ok k1"
    using kernel_okD [OF assms] by (intro kernel_okI) (auto simp: k1 less_SucI split: if_splits)
  moreover have "k_owner k (k_next k) = None" "\<forall>i. k_owner k i \<noteq> Some ?f"
    using kernel_okD(2,3) [OF assms] by (fastforce)+
  ultimately show thesis
    using that [OF o] None by (simp add: k1)
next
  case (Some i)
  let ?f = "\<lparr>fd_inode = i, fd_pid = p, fd_id = k_next k\<rparr>"
  obtain k1 where o: "k_open_create p path k = (Inr ?f, k1)"
    and k1: "k1 = k\<lparr>k_next := Suc (k_next k), k_pos := (k_pos k)(k_next k := 0)\<rparr>"
    by (simp add: k_open_create_def Some k_open_inode_def Let_def)
  have "kernel_ok k1"
    using kernel_okD [OF assms] by (intro kernel_okI) (auto simp: k1 less_SucI)
  moreover have "\<forall>i. k_owner k i \<noteq> Some ?f"
    using kernel_okD(4) [OF assms] by fastforce
  ultimately show thesis
    using that [OF o] Some kernel_okD(1) [OF assms Some] by (simp add: k1 fun_upd_idem)
qed

text \<open>
  Taking the lock of a path whose inode nobody holds, and of one somebody holds; and with a
  deadline that the clock cannot represent.
\<close>

definition deadline_fits :: "duration \<Rightarrow> kernel \<Rightarrow> bool" where
  "deadline_fits timeout k \<longleftrightarrow> ns_of (k_now k) + timeout < instant_limit"

lemma take_overflow:
  assumes ok: "kernel_ok k" and par: "parent path \<noteq> None" and over: "\<not> deadline_fits timeout k"
  shows "\<exists>k'. rig_lock_take (kernel_os p) js who path timeout k = Some (Inl Lock_deadline_panic, k')
    \<and> kernel_ok k' \<and> k_owner k' = k_owner k
    \<and> (\<forall>i. k_paths k path = Some i \<longrightarrow> k_paths k' = k_paths k)
    \<and> (k_paths k path = None \<longrightarrow> (\<exists>i. k_paths k' path = Some i \<and> k_owner k i = None))"
proof -
  obtain f k1 where o: "k_open_create p path k = (Inr f, k1)" "fd_pid f = p"
    "k_paths k1 = (k_paths k)(path := Some (fd_inode f))" "k_owner k1 = k_owner k"
    "k_now k1 = k_now k" "k_unix k1 = k_unix k" "kernel_ok k1" "fd_inode f < k_next k1" "fd_id f < k_next k1"
    "k_paths k path = None \<and> k_owner k (fd_inode f) = None
     \<or> k_paths k path = Some (fd_inode f) \<and> k_data k1 = k_data k" "\<forall>i. k_owner k i \<noteq> Some f"
    by (rule k_open_create_opens [OF ok, of p path])
  have "k_unlock f k1 = k1" using o(4,11) by (simp add: k_unlock_def)
  then have "rig_lock_take (kernel_os p) js who path timeout k = Some (Inl Lock_deadline_panic, k1)"
    using o(1,5) par over by (auto simp: rig_lock_take_def deadline_fits_def checked_add_def)
  moreover have "(\<forall>i. k_paths k path = Some i \<longrightarrow> k_paths k1 = k_paths k)
    \<and> (k_paths k path = None \<longrightarrow> (\<exists>i. k_paths k1 path = Some i \<and> k_owner k i = None))"
    using o(3,10) by (auto simp: fun_upd_idem)
  ultimately show ?thesis using o(4,7) by (intro exI [of _ k1]) simp
qed

lemma take_free_lock:
  assumes ok: "kernel_ok k" and free: "\<And>i. k_paths k path = Some i \<Longrightarrow> k_owner k i = None"
    and par: "parent path \<noteq> None" and can: "deadline_fits timeout k"
  shows "\<exists>f k'. rig_lock_take (kernel_os p) js who path timeout k = Some (Inr f, k')
    \<and> fd_pid f = p \<and> kernel_ok k' \<and> k_now k' = k_now k
    \<and> k_paths k' = (k_paths k)(path := Some (fd_inode f)) \<and> k_owner k (fd_inode f) = None
    \<and> k_owner k' = (k_owner k)(fd_inode f := Some f)
    \<and> k_data k' (fd_inode f) = note_text js (note_of who p k)"
proof -
  obtain f k1 where o: "k_open_create p path k = (Inr f, k1)" "fd_pid f = p"
    "k_paths k1 = (k_paths k)(path := Some (fd_inode f))" "k_owner k1 = k_owner k"
    "k_now k1 = k_now k" "k_unix k1 = k_unix k" "kernel_ok k1" "fd_inode f < k_next k1" "fd_id f < k_next k1"
    "k_paths k path = None \<and> k_owner k (fd_inode f) = None
     \<or> k_paths k path = Some (fd_inode f) \<and> k_data k1 = k_data k"
    by (rule k_open_create_opens [OF ok, of p path])
  have n: "k_owner k (fd_inode f) = None" using o(10) free by auto
  let ?k = "write_note (kernel_os p) js who f (k1\<lparr>k_owner := (k_owner k1)(fd_inode f := Some f)\<rparr>)"
  have "rig_lock_take (kernel_os p) js who path timeout k = Some (Inr f, ?k)"
    using o n par can
    by (auto simp: deadline_fits_def checked_add_def rig_lock_take_def
        retry_loop.simps [of "lock_attempt _ _ _ _"] lock_attempt_kernel)
  moreover have "kernel_ok ?k" using o by (auto simp: kernel_ok_def kernel_simps)
  ultimately show ?thesis
    using o n by (intro exI [of _ f] exI [of _ ?k]) (simp add: kernel_simps note_of_def)
qed

lemma take_held_lock:
  assumes ok: "kernel_ok k" and held: "k_paths k path = Some i" "k_owner k i = Some g"
    and par: "parent path \<noteq> None" and can: "deadline_fits timeout k"
  shows "\<exists>k'. rig_lock_take (kernel_os p) js who path timeout k =
      Some (Inl (Held_for_over path (read_lock_holder (kernel_os p) js path k) timeout), k')
    \<and> kernel_ok k' \<and> k_paths k' = k_paths k \<and> k_owner k' = k_owner k \<and> k_data k' = k_data k
    \<and> after (k_now k) timeout \<le> k_now k'"
proof -
  obtain f k1 where o: "k_open_create p path k = (Inr f, k1)" "fd_pid f = p"
    "k_paths k1 = (k_paths k)(path := Some (fd_inode f))" "k_owner k1 = k_owner k"
    "k_now k1 = k_now k" "k_unix k1 = k_unix k" "kernel_ok k1" "fd_inode f < k_next k1" "fd_id f < k_next k1"
    "k_paths k path = None \<and> k_owner k (fd_inode f) = None
     \<or> k_paths k path = Some (fd_inode f) \<and> k_data k1 = k_data k" "\<forall>i. k_owner k i \<noteq> Some f"
    by (rule k_open_create_opens [OF ok, of p path])
  have i: "fd_inode f = i" "k_data k1 = k_data k" using o(10) held by auto
  have g: "g \<noteq> f" using o(11) held by auto
  let ?P = "\<lambda>v. k_paths v = k_paths k1 \<and> k_owner v = k_owner k1 \<and> k_data v = k_data k1 \<and> k_next v = k_next k1"
  obtain x where x: "retry_loop (lock_attempt (kernel_os p) js who f) k_now (os_sleep (kernel_os p))
      (from_millis 200) (after (k_now k1) timeout) k1 = Some x"
    using kernel_retry.retry_terminates [of "from_millis 200"]
    by (force simp: from_millis_def simp del: split_paired_Ex)
  obtain v r where v: "x = (v, r)" by (cases x)
  have step: "lock_attempt (kernel_os p) js who f u = (u, Inr ())" if "?P u" for u
    using that held g i o(4) by (simp add: lock_attempt_kernel)
  have keep: "?P (os_sleep (kernel_os p) (from_millis 200) w')"
    if "?P w" "lock_attempt (kernel_os p) js who f w = (w', Inr a)" "k_now w' < after (k_now k1) timeout"
    for w w' a
    using that step [of w] by simp
  have "\<exists>u. ?P u \<and> lock_attempt (kernel_os p) js who f u = x
      \<and> (\<forall>a. snd x = Inr a \<longrightarrow> after (k_now k1) timeout \<le> k_now (fst x))"
    by (rule retry_result_aux [OF x, of ?P]) (simp, fact keep)
  then obtain u where u: "?P u" "lock_attempt (kernel_os p) js who f u = (v, r)"
    "\<forall>a. r = Inr a \<longrightarrow> after (k_now k1) timeout \<le> k_now v"
    unfolding v by (elim exE conjE) simp
  have r: "v = u" "r = Inr ()" using step [OF u(1)] u(2) by auto
  have same: "read_lock_holder (kernel_os p) js path v = read_lock_holder (kernel_os p) js path k"
    using u(1) r(1) o(3) i held by (simp add: read_lock_holder_def)
  have free: "k_owner v (fd_inode f) \<noteq> Some f" using u(1) r(1) o(4,11) by simp
  have "rig_lock_take (kernel_os p) js who path timeout k =
      Some (Inl (Held_for_over path (read_lock_holder (kernel_os p) js path k) timeout), k_unlock f v)"
    using o(1,5) x v r par same can
    by (auto simp: rig_lock_take_def deadline_fits_def checked_add_def)
  moreover have "k_unlock f v = v" using free by (simp add: k_unlock_def)
  moreover have "kernel_ok v" using u(1) r(1) o(7) by (simp add: kernel_ok_def)
  ultimately show ?thesis
    using u r o(3,4,5) i held by (intro exI [of _ v]) (simp add: fun_upd_idem)
qed

section \<open>The lock of one path\<close>

text \<open>
  Who holds the file a path names now, by process. Taking and dropping are the program's own
  functions; the other events are time passing, a process dying (the kernel releases its
  locks) and somebody deleting the file.
\<close>

definition path_owner :: "path \<Rightarrow> kernel \<Rightarrow> fdesc option" where
  "path_owner path k = (case k_paths k path of None \<Rightarrow> None | Some i \<Rightarrow> k_owner k i)"

definition path_holder :: "path \<Rightarrow> kernel \<Rightarrow> u32 option" where
  "path_holder path k = map_option fd_pid (path_owner path k)"

definition process_take ::
  "lock_holder json \<Rightarrow> (u32 \<Rightarrow> rstr) \<Rightarrow> path \<Rightarrow> duration \<Rightarrow> u32 \<Rightarrow> kernel \<Rightarrow> bool \<times> kernel" where
  "process_take js who path timeout p k =
    (case rig_lock_take (kernel_os p) js (who p) path timeout k of
       None \<Rightarrow> (False, k) | Some (r, k') \<Rightarrow> (is_ok r, k'))"

definition process_drop :: "path \<Rightarrow> u32 \<Rightarrow> kernel \<Rightarrow> kernel" where
  "process_drop path p k =
    (case path_owner path k of
       None \<Rightarrow> k
     | Some f \<Rightarrow> if fd_pid f = p then rig_lock_drop (kernel_os p) f k else k)"

datatype lock_event = Tick duration | Died u32 | Deleted path

fun k_event :: "lock_event \<Rightarrow> kernel \<Rightarrow> kernel" where
  "k_event (Tick d) k = k\<lparr>k_now := after (k_now k) d\<rparr>"
| "k_event (Died p) k = k\<lparr>k_owner := (\<lambda>i. case k_owner k i of None \<Rightarrow> None
     | Some f \<Rightarrow> if fd_pid f = p then None else Some f)\<rparr>"
| "k_event (Deleted path) k = k_unlink path k"

lemma process_take_free:
  assumes "kernel_ok k" and "path_holder path k = None" and "parent path \<noteq> None" and "deadline_fits timeout k"
  shows "fst (process_take js who path timeout p k)" "kernel_ok (snd (process_take js who path timeout p k))"
    "path_holder path (snd (process_take js who path timeout p k)) = Some p"
    "k_now (snd (process_take js who path timeout p k)) = k_now k"
  using take_free_lock [OF assms(1) _ assms(3,4), of p js "who p"] assms(2)
  by (auto simp: process_take_def path_holder_def path_owner_def split: option.splits)

lemma process_take_overflow:
  assumes "kernel_ok k" and "parent path \<noteq> None" and "\<not> deadline_fits timeout k"
  shows "\<not> fst (process_take js who path timeout p k)" "kernel_ok (snd (process_take js who path timeout p k))"
    "path_holder path (snd (process_take js who path timeout p k)) = path_holder path k"
proof -
  obtain k' where k': "process_take js who path timeout p k = (False, k')" "kernel_ok k'"
    "path_holder path k' = path_holder path k"
    using take_overflow [OF assms, of p js "who p"]
    by (cases "k_paths k path") (auto simp: process_take_def path_holder_def path_owner_def)
  then show "\<not> fst (process_take js who path timeout p k)"
    "kernel_ok (snd (process_take js who path timeout p k))"
    "path_holder path (snd (process_take js who path timeout p k)) = path_holder path k"
    by simp_all
qed

lemma process_take_held:
  assumes "kernel_ok k" and "path_holder path k = Some q" and "parent path \<noteq> None"
  shows "\<not> fst (process_take js who path timeout p k)" "kernel_ok (snd (process_take js who path timeout p k))"
    "path_holder path (snd (process_take js who path timeout p k)) = Some q"
proof -
  obtain i g where "k_paths k path = Some i" "k_owner k i = Some g" "fd_pid g = q"
    using assms(2) by (auto simp: path_holder_def path_owner_def split: option.splits)
  with take_held_lock [OF assms(1) this(1,2) assms(3), of timeout p js "who p"]
    process_take_overflow [OF assms(1,3), of timeout js who p] assms(2)
  show "\<not> fst (process_take js who path timeout p k)" "kernel_ok (snd (process_take js who path timeout p k))"
    "path_holder path (snd (process_take js who path timeout p k)) = Some q"
    by (cases "deadline_fits timeout k"; auto simp: process_take_def path_holder_def path_owner_def)+
qed

lemma rig_lock_drop_kernel:
  "rig_lock_drop (kernel_os p) f k = k_unlock f (k\<lparr>k_data := (k_data k)(fd_inode f := [])\<rparr>)"
  by (simp add: rig_lock_drop_def k_unlock_def)

lemma drop_kernel_simps:
  "k_owner (rig_lock_drop (kernel_os p) f k) =
     (if k_owner k (fd_inode f) = Some f then (k_owner k)(fd_inode f := None) else k_owner k)"
  "k_paths (rig_lock_drop (kernel_os p) f k) = k_paths k"
  "k_next (rig_lock_drop (kernel_os p) f k) = k_next k"
  "k_data (rig_lock_drop (kernel_os p) f k) = (k_data k)(fd_inode f := [])"
  by (simp_all add: rig_lock_drop_kernel k_unlock_def)

lemma kernel_ok_drop: "kernel_ok k \<Longrightarrow> kernel_ok (rig_lock_drop (kernel_os p) f k)"
proof (rule kernel_okI)
  fix i g
  assume ok: "kernel_ok k" and "k_owner (rig_lock_drop (kernel_os p) f k) i = Some g"
  then have "k_owner k i = Some g" by (auto simp: drop_kernel_simps split: if_splits)
  with kernel_okD(2-4) [OF ok this] show "i < k_next (rig_lock_drop (kernel_os p) f k)
      \<and> fd_inode g = i \<and> fd_id g < k_next (rig_lock_drop (kernel_os p) f k)"
    by (simp add: drop_kernel_simps)
qed (simp add: kernel_okD drop_kernel_simps)

lemma kernel_ok_event: "kernel_ok k \<Longrightarrow> kernel_ok (k_event e k)"
  by (cases e) (auto simp: kernel_ok_def k_unlink_def split: option.splits if_splits)

lemma path_owner_inode:
  assumes "kernel_ok k" and "path_owner path k = Some f"
  shows "k_paths k path = Some (fd_inode f) \<and> k_owner k (fd_inode f) = Some f"
proof -
  obtain i where i: "k_paths k path = Some i" "k_owner k i = Some f"
    using assms(2) by (auto simp: path_owner_def split: option.splits)
  with kernel_okD(3) [OF assms(1) i(2)] show ?thesis by simp
qed

interpretation file_lock: exclusive "path_holder (file_in dir name)"
    "process_take js who (file_in dir name) timeout" "process_drop (file_in dir name)" k_event kernel_ok
    "\<lambda>_. deadline_fits timeout"
proof unfold_locales
  let ?path = "file_in dir name"
  have par: "parent ?path \<noteq> None" by simp
  fix k :: kernel and p q :: u32 and e :: lock_event
  assume ok: "kernel_ok k"
  show "kernel_ok (snd (process_take js who ?path timeout p k))"
    using process_take_free(2) [OF ok _ par] process_take_held(2) [OF ok _ par]
      process_take_overflow(2) [OF ok par]
    by (cases "deadline_fits timeout k"; cases "path_holder ?path k") auto
  show "kernel_ok (process_drop ?path p k)"
    using ok by (auto simp: process_drop_def kernel_ok_drop split: option.split)
  show "path_holder ?path k = None \<Longrightarrow> deadline_fits timeout k \<Longrightarrow>
      fst (process_take js who ?path timeout p k)
      \<and> path_holder ?path (snd (process_take js who ?path timeout p k)) = Some p"
    using process_take_free [OF ok _ par] by blast
  show "path_holder ?path k = None \<Longrightarrow> \<not> deadline_fits timeout k \<Longrightarrow>
      \<not> fst (process_take js who ?path timeout p k)
      \<and> path_holder ?path (snd (process_take js who ?path timeout p k)) = None"
    using process_take_overflow [OF ok par] by simp
  show "path_holder ?path k = Some q \<Longrightarrow> \<not> fst (process_take js who ?path timeout p k)
      \<and> path_holder ?path (snd (process_take js who ?path timeout p k)) = Some q"
    using process_take_held [OF ok _ par] by blast
  show "path_holder ?path (process_drop ?path p k)
      = (if path_holder ?path k = Some p then None else path_holder ?path k)"
    using path_owner_inode [OF ok, of ?path]
    by (auto simp: process_drop_def path_holder_def drop_kernel_simps path_owner_def split: option.split)
  show "kernel_ok (k_event e k)" using ok by (rule kernel_ok_event)
  show "path_holder ?path (k_event e k) = path_holder ?path k \<or> path_holder ?path (k_event e k) = None"
    by (cases e) (auto simp: path_holder_def path_owner_def k_unlink_def split: option.split)
qed

section \<open>What any operating system gives\<close>

text \<open>The calls of the retry loop do not turn the clock back and sleeping takes its time.\<close>

definition os_keeps_time :: "('f, 'w) lock_os \<Rightarrow> bool" where
  "os_keeps_time os \<longleftrightarrow>
    (\<forall>f w. os_clock os w \<le> os_clock os (snd (os_try_lock os f w))
       \<and> os_clock os w \<le> os_clock os (snd (os_truncate os f w))
       \<and> os_clock os w \<le> os_clock os (snd (os_rewind os f w))
       \<and> (\<forall>t. os_clock os w \<le> os_clock os (snd (os_write_all os f t w)))
       \<and> os_clock os w \<le> os_clock os (snd (os_flush os f w)))
    \<and> (\<forall>d w. after (os_clock os w) d \<le> os_clock os (os_sleep os d w))"

lemma os_keeps_timeD:
  assumes "os_keeps_time os"
  shows "os_clock os w \<le> os_clock os (snd (os_try_lock os f w))"
    and "os_clock os w \<le> os_clock os (snd (os_truncate os f w))"
    and "os_clock os w \<le> os_clock os (snd (os_rewind os f w))"
    and "os_clock os w \<le> os_clock os (snd (os_write_all os f t w))"
    and "os_clock os w \<le> os_clock os (snd (os_flush os f w))"
    and "after (os_clock os w) d \<le> os_clock os (os_sleep os d w)"
  using assms by (simp_all add: os_keeps_time_def)

lemma write_note_clock:
  assumes "os_keeps_time os"
  shows "os_clock os w \<le> os_clock os (write_note os js who f w)"
proof -
  note le = os_keeps_timeD [OF assms]
  let ?w2 = "snd (os_rewind os f (snd (os_truncate os f w)))"
  have "os_clock os w \<le> os_clock os ?w2" using le(2,3) order_trans by blast
  moreover have "os_clock os ?w2 \<le> os_clock os (snd (os_flush os f (snd (os_write_all os f t ?w2))))" for t
    using le(4,5) order_trans by blast
  ultimately show ?thesis
    using order_trans by (auto simp: write_note_def Let_def split: sum.split)
qed

lemma lock_attempt_timed:
  assumes "os_keeps_time os"
  shows "timed_world (lock_attempt os js who f) (os_clock os) (os_sleep os)"
proof
  fix w :: 'b
  have "os_clock os w \<le> os_clock os w'" "os_clock os w' \<le> os_clock os (write_note os js who f w')"
    if "os_try_lock os f w = (r, w')" for r w'
    using that os_keeps_timeD(1) [OF assms, of w f] write_note_clock [OF assms] by auto
  then show "os_clock os w \<le> os_clock os (fst (lock_attempt os js who f w))"
    by (force simp: lock_attempt_def split: prod.splits sum.splits bool.splits intro: order_trans)
qed (rule os_keeps_timeD(6) [OF assms])

lemma lock_attempt_taken:
  "lock_attempt os js who f u = (v, Inl (Inr g)) \<longleftrightarrow>
   g = f \<and> (\<exists>u'. os_try_lock os f u = (Inr True, u') \<and> v = write_note os js who f u')"
  by (auto simp: lock_attempt_def split: prod.splits sum.splits bool.splits)

lemma lock_attempt_busy:
  "lock_attempt os js who f u = (v, Inr x) \<longleftrightarrow> os_try_lock os f u = (Inr False, v)"
  by (auto simp: lock_attempt_def split: prod.splits sum.splits bool.splits)

lemma lock_wait_cases:
  assumes "os_keeps_time os"
  obtains (failed) v e where
      "retry_loop (lock_attempt os js who f) (os_clock os) (os_sleep os) (from_millis 200) deadline w
        = Some (v, Inl (Inl (Locking e)))"
  | (taken) u v where
      "retry_loop (lock_attempt os js who f) (os_clock os) (os_sleep os) (from_millis 200) deadline w
        = Some (write_note os js who f v, Inl (Inr f))" "os_try_lock os f u = (Inr True, v)"
  | (busy) u v where
      "retry_loop (lock_attempt os js who f) (os_clock os) (os_sleep os) (from_millis 200) deadline w
        = Some (v, Inr ())" "os_try_lock os f u = (Inr False, v)" "deadline \<le> os_clock os v"
proof -
  obtain v r where loop: "retry_loop (lock_attempt os js who f) (os_clock os) (os_sleep os)
      (from_millis 200) deadline w = Some (v, r)"
    using timed_world.retry_terminates [OF lock_attempt_timed [OF assms, of js who f],
        of "from_millis 200" deadline w]
    by (auto simp: from_millis_def)
  obtain u where u: "lock_attempt os js who f u = (v, r)"
    "\<And>a. r = Inr a \<Longrightarrow> deadline \<le> os_clock os v"
    by (rule retry_result [OF loop, of "\<lambda>_. True"]) auto
  consider e where "r = Inl (Inl (Locking e))" | g where "r = Inl (Inr g)" | a where "r = Inr a"
    using u(1) by (auto simp: lock_attempt_def split: prod.splits sum.splits bool.splits)
  then show thesis
    using loop u failed [of v] taken [of _ u] busy [of v u]
    by cases (auto simp: lock_attempt_taken lock_attempt_busy)
qed

lemma rig_lock_take_total:
  assumes "os_keeps_time os"
  shows "\<exists>r w'. rig_lock_take os js who path timeout w = Some (r, w')
    \<and> (\<forall>f. r = Inr f \<longrightarrow> (\<exists>u v. os_try_lock os f u = (Inr True, v) \<and> w' = write_note os js who f v))
    \<and> (\<forall>p n t. r = Inl (Held_for_over p n t) \<longrightarrow> p = path \<and> t = timeout
         \<and> (\<exists>f u v w2. os_try_lock os f u = (Inr False, v) \<and> after (os_clock os w2) timeout \<le> os_clock os v
              \<and> n = read_lock_holder os js path v \<and> w' = os_close os f v))
    \<and> (r = Inl Lock_deadline_panic \<longrightarrow> (\<exists>f v. instant_limit \<le> ns_of (os_clock os v) + timeout \<and> w' = os_close os f v))
    \<and> (2 ^ 63 \<le> as_secs timeout \<longrightarrow> \<not> is_ok r)"
proof -
  obtain d w1 where d: "(case parent path of None \<Rightarrow> (Inr (), w)
      | Some dir \<Rightarrow> os_create_dir_all os dir w) = (d, w1)"
    by (rule prod.exhaust)
  obtain opened w2 where o: "os_open_create os path w1 = (opened, w2)" by (rule prod.exhaust)
  consider e where "d = Inl e" | x e where "d = Inr x" "opened = Inl e"
    | x f where "d = Inr x" "opened = Inr f" "instant_limit \<le> ns_of (os_clock os w2) + timeout"
    | x f where "d = Inr x" "opened = Inr f" "ns_of (os_clock os w2) + timeout < instant_limit"
    by (cases d; cases opened; cases "checked_add (os_clock os w2) timeout") auto
  then show ?thesis
  proof cases
    case 3
    with d o show ?thesis by (auto simp: rig_lock_take_def checked_add_def)
  next
    case (4 x f)
    let ?deadline = "after (os_clock os w2) timeout"
    have short: "\<not> 2 ^ 63 \<le> as_secs timeout"
    proof
      assume "2 ^ 63 \<le> as_secs timeout"
      from from_secs_overflows [OF this, of "os_clock os w2"] as_secs_floor(1) [of timeout] 4(3)
      show False by linarith
    qed
    from lock_wait_cases [OF assms, of js who f ?deadline w2] show ?thesis
      by cases (use d o 4 short in \<open>auto simp: rig_lock_take_def checked_add_def\<close>)
  qed (use d o in \<open>auto simp: rig_lock_take_def\<close>)
qed

section \<open>Properties\<close>

text \<open>
  C19: taking the lock file comes to an end on any operating system whose clock runs, and
  reports what happened. A lock that is returned was granted by the last try on that file;
  giving up means a try after the deadline was refused, and the error carries the note that
  the file had at that moment. A deadline the clock cannot represent panics, with the file
  closed again, so a timeout of 2^63 seconds or more never gets the lock.
\<close>

theorem rig_lock_take_returns:
  assumes "os_keeps_time os"
  shows "\<exists>r w'. rig_lock_take os js who path timeout w = Some (r, w')
    \<and> (\<forall>f. r = Inr f \<longrightarrow> (\<exists>u v. os_try_lock os f u = (Inr True, v) \<and> w' = write_note os js who f v))
    \<and> (\<forall>p n t. r = Inl (Held_for_over p n t) \<longrightarrow> p = path \<and> t = timeout
         \<and> (\<exists>f u v w2. os_try_lock os f u = (Inr False, v) \<and> after (os_clock os w2) timeout \<le> os_clock os v
              \<and> n = read_lock_holder os js path v \<and> w' = os_close os f v))
    \<and> (r = Inl Lock_deadline_panic \<longrightarrow> (\<exists>f v. instant_limit \<le> ns_of (os_clock os v) + timeout \<and> w' = os_close os f v))
    \<and> (2 ^ 63 \<le> as_secs timeout \<longrightarrow> \<not> is_ok r)"
  by (rule rig_lock_take_total [OF assms])

text \<open>A fresh kernel and a plain encoding of notes, for the instances.\<close>

definition kernel_start :: kernel where
  "kernel_start = \<lparr>k_paths = (\<lambda>_. None), k_data = (\<lambda>_. []), k_owner = (\<lambda>_. None), k_pos = (\<lambda>_. 0),
     k_next = 0, k_now = Instant 0, k_unix = 1000\<rparr>"

fun plain_note :: "rstr \<Rightarrow> unit + lock_holder" where
  "plain_note (p # t # who) = Inr \<lparr>holder = who, holder_pid = of_nat p, since = of_nat t\<rparr>"
| "plain_note _ = Inl ()"

definition plain_json :: "lock_holder json" where
  "plain_json = \<lparr>to_json = (\<lambda>n. Inr (unat (holder_pid n) # unat (since n) # holder n)),
     from_json = plain_note\<rparr>"

text \<open>What the note encoding has to do: read back what was written, and reject an empty file.\<close>

definition note_codec :: "lock_holder json \<Rightarrow> bool" where
  "note_codec js \<longleftrightarrow> (\<forall>n. from_json js (note_text js n) = Inr n) \<and> (\<exists>e. from_json js [] = Inl e)"

lemma plain_json_codec: "note_codec plain_json"
  by (simp add: note_codec_def plain_json_def note_text_def)

lemma kernel_start_ok: "kernel_ok kernel_start" "path_holder path kernel_start = None"
  by (simp_all add: kernel_ok_def kernel_start_def path_holder_def path_owner_def)

lemma kernel_start_fits: "deadline_fits 5 kernel_start"
  by (simp add: deadline_fits_def kernel_start_def instant_limit_def)

lemma kernel_keeps_time: "os_keeps_time (kernel_os p)"
  by (auto simp: os_keeps_time_def k_try_lock_def k_write_def Let_def split: option.split)

theorem rig_lock_take_returns_witness:
  "\<exists>r k. rig_lock_take (kernel_os 7) plain_json (lit ''ci'') (path_of (lit ''/l'')) 5 kernel_start = Some (r, k)"
  using rig_lock_take_returns [OF kernel_keeps_time, of 7 plain_json "lit ''ci''"
      "path_of (lit ''/l'')" 5 kernel_start] by fast

text \<open>
  C17: the lock file lets one process in at a time. While a process holds the lock of a path
  and neither drops it nor dies, and nobody deletes the file, no other process takes it,
  whatever takes, drops and waits happen in between and in whatever order.
\<close>

theorem lock_file_excludes:
  assumes "kernel_ok k" and "path_holder (file_in dir name) k = Some p" and "Drop p \<notin> set ops"
    and "Event (Died p) \<notin> set ops" and "Event (Deleted (file_in dir name)) \<notin> set ops"
  shows "fst (lock_run (process_take js who (file_in dir name) timeout)
        (process_drop (file_in dir name)) k_event ops k) = []
    \<and> path_holder (file_in dir name) (snd (lock_run (process_take js who (file_in dir name) timeout)
        (process_drop (file_in dir name)) k_event ops k)) = Some p"
proof (rule file_lock.holder_stays [OF assms(1-3)])
  fix e and k :: kernel
  assume e: "Event e \<in> set ops" and "kernel_ok k" and "path_holder (file_in dir name) k = Some p"
  then show "path_holder (file_in dir name) (k_event e k) = Some p"
    using assms(4,5)
    by (cases e) (auto simp: path_holder_def path_owner_def k_unlink_def split: option.splits)
qed

theorem lock_file_excludes_witness:
  "let take = process_take plain_json (\<lambda>_. lit ''ci'') (file_in (path_of (lit ''/'')) (lit ''l'')) 5;
       drop = process_drop (file_in (path_of (lit ''/'')) (lit ''l''))
   in fst (lock_run take drop k_event [Take 8, Event (Died 8), Take 9] (snd (take 7 kernel_start))) = []"
proof -
  let ?dir = "path_of (lit ''/'')" and ?name = "lit ''l''"
  have par: "parent (file_in ?dir ?name) \<noteq> None" by simp
  show ?thesis
    using lock_file_excludes [of "snd (process_take plain_json (\<lambda>_. lit ''ci'') (file_in ?dir ?name) 5 7 kernel_start)"
        ?dir ?name 7 "[Take 8, Event (Died 8), Take 9]" plain_json "\<lambda>_. lit ''ci''" 5]
      process_take_free(2,3) [OF kernel_start_ok par kernel_start_fits, of plain_json "\<lambda>_. lit ''ci''" 7]
    by simp
qed

lemma status_of_held:
  assumes "kernel_ok k" and "path_owner path k = Some g"
  shows "\<exists>k'. flock_status (kernel_os q) js path k
    = (Inr (Held_by_other (read_lock_holder (kernel_os q) js path k)), k') \<and> k_owner k' = k_owner k"
proof -
  let ?f = "\<lparr>fd_inode = fd_inode g, fd_pid = q, fd_id = k_next k\<rparr>"
  have g: "k_paths k path = Some (fd_inode g)" "k_owner k (fd_inode g) = Some g"
    using path_owner_inode [OF assms] by auto
  have "fd_id g < k_next k" using kernel_okD(4) [OF assms(1) g(2)] .
  then have "g \<noteq> ?f" by (metis fdesc.select_convs(3) less_irrefl)
  with g show ?thesis
    by (simp add: flock_status_def k_open_def k_open_inode_def k_try_lock_def Let_def k_unlock_def
        read_lock_holder_def)
qed

lemma status_of_free:
  assumes "path_owner path k = None"
  shows "\<exists>k'. flock_status (kernel_os q) js path k = (Inr Free, k') \<and> k_owner k' = k_owner k"
  using assms
  by (cases "k_paths k path")
    (simp_all add: flock_status_def k_open_def k_open_inode_def k_try_lock_def Let_def k_unlock_def
      path_owner_def fun_upd_idem)

text \<open>
  A status query holds the lock for a moment: between its try and its unlock a free rig looks
  held. A second query in that moment answers so, with whatever note a killed holder left, and
  a contender that may not wait is refused.
\<close>

lemma status_query_contends:
  assumes ok: "kernel_ok k" and free: "path_owner path k = None"
    and probe: "k_open q path k = (Inr g, k1)" "k_try_lock g k1 = (Inr True, k2)"
  shows "fst (flock_status (kernel_os p) js path k2)
      = Inr (Held_by_other (read_lock_holder (kernel_os p) js path k))"
    and "parent path \<noteq> None \<Longrightarrow> deadline_fits 0 k \<Longrightarrow>
      \<exists>k3. rig_lock_take (kernel_os p) js who path 0 k2
        = Some (Inl (Held_for_over path (read_lock_holder (kernel_os p) js path k) 0), k3)"
proof -
  obtain i where i: "k_paths k path = Some i" "g = \<lparr>fd_inode = i, fd_pid = q, fd_id = k_next k\<rparr>"
    "k1 = k\<lparr>k_next := Suc (k_next k), k_pos := (k_pos k)(k_next k := 0)\<rparr>"
    using probe(1) by (auto simp: k_open_def k_open_inode_def split: option.splits)
  have n: "k_owner k i = None" using free i(1) by (simp add: path_owner_def)
  have k2: "k2 = k1\<lparr>k_owner := (k_owner k)(i := Some g)\<rparr>"
    using probe(2) i n by (simp add: k_try_lock_def)
  have ok2: "kernel_ok k2"
    using kernel_okD [OF ok] i by (intro kernel_okI) (auto simp: k2 less_SucI split: if_splits)
  have held: "k_paths k2 path = Some i" "k_owner k2 i = Some g" "path_owner path k2 = Some g"
    using i k2 by (simp_all add: path_owner_def)
  have same: "read_lock_holder (kernel_os p) js path k2 = read_lock_holder (kernel_os p) js path k"
    using i k2 by (simp add: read_lock_holder_def)
  show "fst (flock_status (kernel_os p) js path k2)
      = Inr (Held_by_other (read_lock_holder (kernel_os p) js path k))"
    using status_of_held [OF ok2 held(3), of p js] same by auto
  show "\<exists>k3. rig_lock_take (kernel_os p) js who path 0 k2
        = Some (Inl (Held_for_over path (read_lock_holder (kernel_os p) js path k) 0), k3)"
    if "parent path \<noteq> None" "deadline_fits 0 k"
    using take_held_lock [OF ok2 held(1,2) that(1), of 0 p js who] that(2) same i k2
    by (auto simp: deadline_fits_def)
qed

text \<open>
  C18: a contender is told who holds the rig. When a process has taken the lock, another one
  that waits however long gives up with that process's own note, a status query reports the
  same note, and once the holder has dropped the lock the status is free and no note is left.
\<close>

theorem contender_is_told_the_holder:
  assumes "kernel_ok k" and "path_holder path k = None" and "parent path \<noteq> None" and "note_codec js"
    and "rig_lock_take (kernel_os p) js who path t1 k = Some (Inr f, k1)" and "deadline_fits timeout k1"
  shows "\<exists>k2. rig_lock_take (kernel_os q) js other path timeout k1
        = Some (Inl (Held_for_over path (Some (note_of who p k)) timeout), k2)
    \<and> after (k_now k1) timeout \<le> k_now k2
    \<and> fst (flock_status (kernel_os q) js path k2) = Inr (Held_by_other (Some (note_of who p k)))
    \<and> fst (flock_status (kernel_os q) js path (rig_lock_drop (kernel_os p) f k2)) = Inr Free
    \<and> read_lock_holder (kernel_os q) js path (rig_lock_drop (kernel_os p) f k2) = None"
proof -
  have "k_owner k i = None" if "k_paths k path = Some i" for i
    using assms(2) that by (simp add: path_holder_def path_owner_def)
  moreover have "deadline_fits t1 k"
    using take_overflow [OF assms(1,3), of t1 p js who] assms(5) by auto
  ultimately have f: "fd_pid f = p" "kernel_ok k1"
    "k_paths k1 = (k_paths k)(path := Some (fd_inode f))" "k_owner k1 = (k_owner k)(fd_inode f := Some f)"
    "k_data k1 (fd_inode f) = note_text js (note_of who p k)"
    using take_free_lock [OF assms(1) _ assms(3), of t1 p js who] assms(5) by auto
  have held: "k_paths k1 path = Some (fd_inode f)" "k_owner k1 (fd_inode f) = Some f"
    using f by simp_all
  have seen: "read_lock_holder (kernel_os q) js path v = Some (note_of who p k)"
    if "k_paths v = k_paths k1" "k_data v = k_data k1" for v
    using that held(1) f(5) assms(4) by (simp add: read_lock_holder_def note_codec_def)
  obtain k2 where k2: "rig_lock_take (kernel_os q) js other path timeout k1
        = Some (Inl (Held_for_over path (Some (note_of who p k)) timeout), k2)"
      "kernel_ok k2" "k_paths k2 = k_paths k1" "k_owner k2 = k_owner k1" "k_data k2 = k_data k1"
      "after (k_now k1) timeout \<le> k_now k2"
    using take_held_lock [OF f(2) held assms(3,6), of q js other] seen [of k1] by auto
  have o: "path_owner path k2 = Some f" using k2 held by (simp add: path_owner_def)
  let ?d = "rig_lock_drop (kernel_os p) f k2"
  have d: "path_owner path ?d = None" "k_paths ?d path = Some (fd_inode f)" "k_data ?d (fd_inode f) = []"
    using k2 held by (simp_all add: path_owner_def drop_kernel_simps)
  have "fst (flock_status (kernel_os q) js path k2) = Inr (Held_by_other (Some (note_of who p k)))"
    using status_of_held [OF k2(2) o, of q js] seen [OF k2(3,5)] by auto
  moreover have "fst (flock_status (kernel_os q) js path ?d) = Inr Free"
    using status_of_free [OF d(1), of q js] by auto
  moreover have "read_lock_holder (kernel_os q) js path ?d = None"
    using d assms(4) by (auto simp: read_lock_holder_def note_codec_def)
  ultimately show ?thesis using k2 by blast
qed

theorem contender_is_told_the_holder_witness:
  "\<exists>k1 k2. rig_lock_take (kernel_os 8) plain_json (lit ''me'') (path_of (lit ''/l'')) 5 k1
    = Some (Inl (Held_for_over (path_of (lit ''/l''))
        (Some \<lparr>holder = lit ''ci'', holder_pid = 7, since = 1000\<rparr>) 5), k2)"
proof -
  have par: "parent (path_of (lit ''/l'')) \<noteq> None" by (simp add: path_of_def lit_def parent_def)
  obtain f k1 where "rig_lock_take (kernel_os 7) plain_json (lit ''ci'') (path_of (lit ''/l'')) 5 kernel_start
      = Some (Inr f, k1)" "deadline_fits 5 k1"
    using take_free_lock [OF kernel_start_ok(1) _ par kernel_start_fits, of 7 plain_json "lit ''ci''"]
    by (auto simp: kernel_start_def deadline_fits_def instant_limit_def)
  from contender_is_told_the_holder [OF kernel_start_ok par plain_json_codec this, of 8 "lit ''me''"]
  show ?thesis by (auto simp: note_of_def kernel_start_def)
qed

text \<open>
  Deleting the lock file frees nothing and breaks the exclusion. The process that held
  the lock still holds its inode, but the path now leads to a new file, so another process
  gets the lock at once and two of them believe to own the rig.
\<close>

theorem deleting_the_lock_file_breaks_exclusion:
  assumes "kernel_ok k" and "path_owner path k = Some f" and "parent path \<noteq> None" and "deadline_fits timeout k"
  shows "\<exists>g k'. rig_lock_take (kernel_os q) js who path timeout (k_event (Deleted path) k) = Some (Inr g, k')
    \<and> k_owner k' (fd_inode f) = Some f \<and> k_owner k' (fd_inode g) = Some g \<and> fd_inode g \<noteq> fd_inode f
    \<and> path_owner path k' = Some g"
proof -
  let ?k = "k_event (Deleted path) k"
  have own: "k_owner k (fd_inode f) = Some f" using path_owner_inode [OF assms(1,2)] by simp
  have "k_paths ?k path = None" "k_owner ?k = k_owner k" "deadline_fits timeout ?k"
    using assms(4) by (simp_all add: k_unlink_def deadline_fits_def)
  with take_free_lock [OF kernel_ok_event [OF assms(1), of "Deleted path"] _ assms(3), of timeout q js who]
  obtain g k' where g: "rig_lock_take (kernel_os q) js who path timeout ?k = Some (Inr g, k')"
    "k_paths k' path = Some (fd_inode g)" "k_owner k (fd_inode g) = None"
    "k_owner k' = (k_owner k)(fd_inode g := Some g)"
    by auto
  with own have "fd_inode g \<noteq> fd_inode f" by auto
  with g own show ?thesis by (auto simp: path_owner_def)
qed

theorem deleting_the_lock_file_breaks_exclusion_witness:
  "\<exists>k f g k'. path_owner (path_of (lit ''/l'')) k = Some f
    \<and> rig_lock_take (kernel_os 8) plain_json (lit ''me'') (path_of (lit ''/l'')) 5
        (k_event (Deleted (path_of (lit ''/l''))) k) = Some (Inr g, k')"
proof -
  have par: "parent (path_of (lit ''/l'')) \<noteq> None" by (simp add: path_of_def lit_def parent_def)
  let ?k = "snd (process_take plain_json (\<lambda>_. lit ''ci'') (path_of (lit ''/l'')) 5 7 kernel_start)"
  note k = process_take_free(2-4) [OF kernel_start_ok par kernel_start_fits, of plain_json "\<lambda>_. lit ''ci''" 7]
  have fits: "deadline_fits 5 ?k" using k(3) kernel_start_fits by (simp add: deadline_fits_def)
  from k obtain f where f: "path_owner (path_of (lit ''/l'')) ?k = Some f"
    by (auto simp: path_holder_def)
  from deleting_the_lock_file_breaks_exclusion [OF k(1) f par fits, of 8 plain_json "lit ''me''"] f
  show ?thesis by blast
qed

end
