(* ===== verification/LockContention.thy ===== *)
theory LockContention
  imports FileLock
begin

text \<open>
  Waiting for the lock file (\<open>RigLock::take\<close> in \<open>banc-host/src/rig.rs\<close>) while things happen on the
  machine: the operating system of \<open>FileLock\<close> with a script of the events that come during
  each sleep of the waiting process.
\<close>

section \<open>A machine on which things happen\<close>

type_synonym machine = "kernel \<times> lock_event list list"

definition on_kernel :: "(kernel \<Rightarrow> 'a \<times> kernel) \<Rightarrow> machine \<Rightarrow> 'a \<times> machine" where
  "on_kernel m w = (case m (fst w) of (r, k) \<Rightarrow> (r, (k, snd w)))"

definition slept :: "duration \<Rightarrow> lock_event list \<Rightarrow> kernel \<Rightarrow> kernel" where
  "slept d es k = (let k' = fold k_event es k in k'\<lparr>k_now := after (k_now k') d\<rparr>)"

definition busy_os :: "u32 \<Rightarrow> (fdesc, machine) lock_os" where
  "busy_os p =
    \<lparr>os_create_dir_all = (\<lambda>d. on_kernel (os_create_dir_all (kernel_os p) d)),
     os_open_create = (\<lambda>path. on_kernel (os_open_create (kernel_os p) path)),
     os_open = (\<lambda>path. on_kernel (os_open (kernel_os p) path)),
     os_try_lock = (\<lambda>f. on_kernel (os_try_lock (kernel_os p) f)),
     os_unlock = (\<lambda>f. on_kernel (os_unlock (kernel_os p) f)),
     os_truncate = (\<lambda>f. on_kernel (os_truncate (kernel_os p) f)),
     os_rewind = (\<lambda>f. on_kernel (os_rewind (kernel_os p) f)),
     os_write_all = (\<lambda>f t. on_kernel (os_write_all (kernel_os p) f t)),
     os_flush = (\<lambda>f. on_kernel (os_flush (kernel_os p) f)),
     os_close = (\<lambda>f w. (os_close (kernel_os p) f (fst w), snd w)),
     os_read_to_string = (\<lambda>path w. os_read_to_string (kernel_os p) path (fst w)),
     os_clock = (\<lambda>w. k_now (fst w)),
     os_sleep = (\<lambda>d w. case snd w of [] \<Rightarrow> (slept d [] (fst w), []) | es # s \<Rightarrow> (slept d es (fst w), s)),
     os_unix_secs = (\<lambda>w. Some (k_unix (fst w))),
     os_pid = p\<rparr>"

lemma busy_os_simps [simp]:
  "os_create_dir_all (busy_os p) dir (k, s) = (Inr (), (k, s))"
  "os_open_create (busy_os p) path (k, s) = (case k_open_create p path k of (r, k') \<Rightarrow> (r, (k', s)))"
  "os_try_lock (busy_os p) f (k, s) = (case k_try_lock f k of (r, k') \<Rightarrow> (r, (k', s)))"
  "os_close (busy_os p) f (k, s) = (k_unlock f k, s)"
  "os_clock (busy_os p) (k, s) = k_now k" "os_sleep (busy_os p) d (k, es # s) = (slept d es k, s)"
  by (simp_all add: busy_os_def on_kernel_def)

lemma write_note_busy [simp]:
  "write_note (busy_os p) js who f (k, s) = (write_note (kernel_os p) js who f k, s)"
  by (simp add: write_note_def busy_os_def on_kernel_def Let_def split: sum.split)

lemma lock_attempt_busy_os [simp]:
  "lock_attempt (busy_os p) js who f (k, s) = (case lock_attempt (kernel_os p) js who f k of (k', r) \<Rightarrow> ((k', s), r))"
  by (auto simp: lock_attempt_def k_try_lock_def split: option.split bool.split)

lemma busy_os_keeps_time: "os_keeps_time (busy_os p)"
proof -
  have "k_now k \<le> k_now (k_event e k)" for e k by (cases e) (simp_all add: k_unlink_def)
  then have f: "k_now k \<le> k_now (fold k_event es k)" for es k
    by (induction es arbitrary: k) (auto intro: order_trans)
  have "after (k_now k) d \<le> k_now (slept d es k)" for d es k
    using f [of k es] by (simp add: slept_def Let_def after_mono)
  then show ?thesis
    by (auto simp: os_keeps_time_def busy_os_def on_kernel_def k_try_lock_def k_write_def Let_def
        split: option.split list.split)
qed

section \<open>What the events leave alone\<close>

definition spares :: "path \<Rightarrow> u32 \<Rightarrow> lock_event \<Rightarrow> bool" where
  "spares path q e \<longleftrightarrow> e \<noteq> Deleted path \<and> e \<noteq> Died q"

lemma event_frame:
  "k_unix (k_event e k) = k_unix k" "k_data (k_event e k) = k_data k" "k_next (k_event e k) = k_next k"
  "e \<noteq> Deleted path \<Longrightarrow> k_paths (k_event e k) path = k_paths k path"
  "k_owner k i = None \<Longrightarrow> k_owner (k_event e k) i = None"
  by (cases e; simp add: k_unlink_def)+

lemma slept_frame:
  "k_unix (slept d es k) = k_unix k" "k_data (slept d es k) = k_data k"
  "Deleted path \<notin> set es \<Longrightarrow> k_paths (slept d es k) path = k_paths k path"
  "k_owner k i = None \<Longrightarrow> k_owner (slept d es k) i = None"
  by (induction es arbitrary: k) (auto simp: slept_def Let_def event_frame)

lemma slept_spares:
  assumes "list_all (spares path (fd_pid g)) es" and "k_owner k i = Some g"
  shows "k_owner (slept d es k) i = Some g"
proof -
  have "k_owner (k_event e k) i = Some g" if "spares path (fd_pid g) e" "k_owner k i = Some g" for e k
    using that by (cases e) (auto simp: spares_def k_unlink_def)
  with assms show ?thesis
    by (induction es arbitrary: k) (auto simp: slept_def Let_def)
qed

lemma slept_death:
  assumes "Died (fd_pid g) \<in> set es" and "k_owner k i = Some g"
  shows "k_owner (slept d es k) i = None"
  using assms
proof (induction es arbitrary: k)
  case (Cons e es)
  show ?case
  proof (cases "k_owner (k_event e k) i")
    case None
    then show ?thesis using slept_frame(4) [of "k_event e k" i d es] by (simp add: slept_def)
  next
    case (Some g')
    with Cons.prems have "g' = g" "e \<noteq> Died (fd_pid g)"
      by (cases e; auto simp: k_unlink_def split: if_splits)+
    with Some Cons show ?thesis by (simp add: slept_def)
  qed
qed simp

lemma kernel_ok_slept: "kernel_ok k \<Longrightarrow> kernel_ok (slept d es k)"
proof -
  assume "kernel_ok k"
  then have "kernel_ok (fold k_event es k)"
    by (induction es arbitrary: k) (simp_all add: kernel_ok_event)
  then show ?thesis by (simp add: slept_def Let_def kernel_ok_def)
qed

lemma now_slept:
  assumes "k_now k = k_now k'"
  shows "k_now (slept d es k) = k_now (slept d es k')"
proof -
  have e: "k_now (k_event e u) = k_now (k_event e v)" if "k_now u = k_now v" for e u v
    using that by (cases e) (simp_all add: k_unlink_def)
  have "k_now (fold k_event es k) = k_now (fold k_event es k')"
    using assms
  proof (induction es arbitrary: k k')
    case (Cons x es)
    show ?case using Cons.IH [OF e [OF Cons.prems, of x]] by simp
  qed simp
  then show ?thesis by (simp add: slept_def Let_def)
qed

lemma now_slepts:
  assumes "k_now k = k_now k'"
  shows "k_now (fold (slept d) ess k) = k_now (fold (slept d) ess k')"
  using assms
proof (induction ess arbitrary: k k')
  case (Cons es ess)
  show ?case using Cons.IH [OF now_slept [OF Cons.prems, of d es]] by simp
qed simp

lemma now_slept_mono: "k_now k \<le> k_now (fold (slept d) ess k)"
proof (induction ess arbitrary: k)
  case (Cons es ess)
  have e: "k_now u \<le> k_now (k_event e u)" for e u by (cases e) (simp_all add: k_unlink_def)
  have "k_now k \<le> k_now (fold k_event es k)"
    by (induction es arbitrary: k) (auto intro: order_trans [OF e])
  then have "k_now k \<le> k_now (slept d es k)"
    by (simp add: slept_def Let_def less_eq_instant_def)
  with Cons.IH [of "slept d es k"] show ?case by simp
qed simp

section \<open>The waiting process\<close>

abbreviation waiting ::
  "u32 \<Rightarrow> lock_holder json \<Rightarrow> rstr \<Rightarrow> fdesc \<Rightarrow> instant \<Rightarrow> machine \<Rightarrow> (machine \<times> ((lock_error + fdesc) + unit)) option" where
  "waiting p js who f deadline \<equiv> retry_loop (lock_attempt (busy_os p) js who f) (os_clock (busy_os p))
     (os_sleep (busy_os p)) (from_millis 200) deadline"

lemma wait_once:
  assumes "k_owner k (fd_inode f) = Some g" and "g \<noteq> f" and "k_now k < deadline"
  shows "waiting p js who f deadline (k, es # s) = waiting p js who f deadline (slept (from_millis 200) es k, s)"
proof -
  have "lock_attempt (busy_os p) js who f (k, es # s) = ((k, es # s), Inr ())"
    using assms(1,2) by (simp add: lock_attempt_kernel)
  moreover have "\<not> deadline \<le> k_now k" using assms(3) by simp
  ultimately show ?thesis
    by (subst retry_loop.simps) (simp only: prod.case sum.case busy_os_simps if_False)
qed

text \<open>The process tries in vain until the sleep in which the holder dies, and then succeeds.\<close>

lemma wait_for_death:
  assumes "k_owner k i = Some g" and "fd_inode f = i" and "g \<noteq> f"
    and "list_all (list_all (spares path (fd_pid g))) pre" and "Died (fd_pid g) \<in> set es"
    and "k_now (fold (slept (from_millis 200)) pre k) < deadline"
  shows "\<exists>v. v = fold (slept (from_millis 200)) (pre @ [es]) k \<and> k_owner v i = None
    \<and> waiting p js who f deadline (k, pre @ es # post)
      = Some ((write_note (kernel_os p) js who f (v\<lparr>k_owner := (k_owner v)(i := Some f)\<rparr>), post), Inl (Inr f))"
  using assms
proof (induction pre arbitrary: k)
  case Nil
  define v where "v = slept (from_millis 200) es k"
  define u where "u = write_note (kernel_os p) js who f (v\<lparr>k_owner := (k_owner v)(i := Some f)\<rparr>)"
  have o: "k_owner v i = None" unfolding v_def by (rule slept_death [OF Nil.prems(5,1)])
  have a: "lock_attempt (busy_os p) js who f (v, post) = ((u, post), Inl (Inr f))"
    using o Nil.prems(2) by (simp add: lock_attempt_kernel u_def)
  have "waiting p js who f deadline (k, es # post) = waiting p js who f deadline (v, post)"
    unfolding v_def by (rule wait_once) (use Nil.prems in simp_all)
  also have "\<dots> = Some ((u, post), Inl (Inr f))"
    by (subst retry_loop.simps) (simp only: a prod.case sum.case)
  finally have "waiting p js who f deadline (k, [] @ es # post) = Some ((u, post), Inl (Inr f))"
    unfolding append_Nil .
  moreover have "fold (slept (from_millis 200)) ([] @ [es]) k = v" by (simp add: v_def)
  ultimately show ?case using o unfolding u_def append_Nil by blast
next
  case (Cons b pre)
  let ?v = "slept (from_millis 200) b k"
  have "k_owner ?v i = Some g"
    using Cons.prems(4) by (intro slept_spares [OF _ Cons.prems(1), of path]) simp
  note IH = Cons.IH [OF this Cons.prems(2,3) _ Cons.prems(5)]
  have "k_now k < deadline"
    using Cons.prems(6) now_slept_mono [of k "from_millis 200" "b # pre"] by (rule le_less_trans [rotated])
  then have "waiting p js who f deadline (k, b # pre @ es # post) = waiting p js who f deadline (?v, pre @ es # post)"
    using Cons.prems(1-3) by (intro wait_once) simp_all
  with IH Cons.prems(4,6) show ?case by simp
qed

section \<open>Property\<close>

text \<open>
  C20: a process that waits for the lock file takes over from one that died. While other
  processes come and go and files other than the lock are deleted, the lock is refused as
  long as its holder lives; when the holder dies during a sleep of the waiting process, and
  the try before that sleep came before the deadline, the next try takes the lock: the file
  that the path names is then held by the waiting process alone, and the note in it, which
  the dead holder could not erase, is replaced by its own.
\<close>

theorem waiting_process_succeeds_a_dead_one:
  assumes "kernel_ok k" and "path_owner path k = Some g" and "parent path \<noteq> None" and "note_codec js"
    and "deadline_fits timeout k"
    and "list_all (list_all (spares path (fd_pid g))) pre"
    and "Died (fd_pid g) \<in> set es" and "Deleted path \<notin> set es"
    and "k_now (fold (slept (from_millis 200)) pre k) < after (k_now k) timeout"
  shows "\<exists>f k'. rig_lock_take (busy_os p) js who path timeout (k, pre @ es # post) = Some (Inr f, (k', post))
    \<and> path_owner path k' = Some f \<and> fd_pid f = p \<and> f \<noteq> g
    \<and> read_lock_holder (busy_os p) js path (k', post) = Some (note_of who p k)
    \<and> k_now k' = k_now (fold (slept (from_millis 200)) (pre @ [es]) k)"
proof -
  obtain i where i: "k_paths k path = Some i" "k_owner k i = Some g"
    using assms(2) by (auto simp: path_owner_def split: option.splits)
  obtain f k1 where o: "k_open_create p path k = (Inr f, k1)" "fd_pid f = p"
    "k_paths k1 = (k_paths k)(path := Some (fd_inode f))" "k_owner k1 = k_owner k"
    "k_now k1 = k_now k" "k_unix k1 = k_unix k" "kernel_ok k1" "fd_inode f < k_next k1" "fd_id f < k_next k1"
    "k_paths k path = None \<and> k_owner k (fd_inode f) = None
     \<or> k_paths k path = Some (fd_inode f) \<and> k_data k1 = k_data k" "\<forall>i. k_owner k i \<noteq> Some f"
    by (rule k_open_create_opens [OF assms(1), of p path])
  have fi: "fd_inode f = i" and g: "g \<noteq> f" using o(10,11) i by auto
  let ?sl = "slept (from_millis 200)"
  have now: "k_now (fold ?sl ess k1) = k_now (fold ?sl ess k)" for ess
    by (rule now_slepts) (rule o(5))
  have frame: "k_unix (fold ?sl ess u) = k_unix u" for ess u
    by (induction ess arbitrary: u) (simp_all add: slept_frame)
  have paths: "k_paths (fold ?sl ess u) path = k_paths u path" if "\<forall>b \<in> set ess. Deleted path \<notin> set b" for ess u
    using that by (induction ess arbitrary: u) (simp_all add: slept_frame)
  have "\<forall>b \<in> set (pre @ [es]). Deleted path \<notin> set b"
    using assms(6,8) by (auto simp: list_all_iff spares_def)
  note at_path = paths [OF this, of k1]
  have own: "k_owner k1 i = Some g" using o(4) i by simp
  have early: "k_now (fold ?sl pre k1) < after (k_now k1) timeout" using assms(9) now o(5) by simp
  obtain v where v: "v = fold ?sl (pre @ [es]) k1" "k_owner v i = None"
    "waiting p js who f (after (k_now k1) timeout) (k1, pre @ es # post)
      = Some ((write_note (kernel_os p) js who f (v\<lparr>k_owner := (k_owner v)(i := Some f)\<rparr>), post), Inl (Inr f))"
    using wait_for_death [OF own fi g assms(6,7) early] by blast
  define u where "u = write_note (kernel_os p) js who f (v\<lparr>k_owner := (k_owner v)(i := Some f)\<rparr>)"
  have "rig_lock_take (busy_os p) js who path timeout (k, pre @ es # post) = Some (Inr f, (u, post))"
    using o(1,5) v(3) assms(3,5)
    by (auto simp: rig_lock_take_def deadline_fits_def checked_add_def u_def)
  moreover have "k_paths u path = Some i"
    using at_path v(1) o(3) fi by (simp add: u_def kernel_simps)
  moreover have "k_owner u i = Some f" by (simp add: u_def kernel_simps)
  moreover have "k_data u i = note_text js (note_of who p k)"
    using v(1) frame [of "pre @ [es]" k1] o(6) fi by (simp add: u_def kernel_simps note_of_def)
  moreover from calculation have "read_lock_holder (busy_os p) js path (u, post) = Some (note_of who p k)"
    using assms(4) by (simp add: read_lock_holder_def busy_os_def note_codec_def)
  moreover have "k_now u = k_now (fold ?sl (pre @ [es]) k)"
    using now [of "pre @ [es]"] v(1) by (simp add: u_def kernel_simps)
  ultimately show ?thesis
    using o(2) g by (intro exI [of _ f] exI [of _ u]) (simp add: path_owner_def)
qed

text \<open>Process 7 holds the lock and dies in the second sleep of process 8.\<close>

theorem waiting_process_succeeds_a_dead_one_witness:
  "\<exists>k f k'. path_holder (path_of (lit ''/l'')) k = Some 7
    \<and> rig_lock_take (busy_os 8) plain_json (lit ''me'') (path_of (lit ''/l'')) (from_secs 5)
        (k, [[Died 6], [Tick 3, Died 7]]) = Some (Inr f, (k', []))
    \<and> path_holder (path_of (lit ''/l'')) k' = Some 8"
proof -
  have par: "parent (path_of (lit ''/l'')) \<noteq> None" by (simp add: path_of_def lit_def parent_def)
  let ?k = "snd (process_take plain_json (\<lambda>_. lit ''ci'') (path_of (lit ''/l'')) 5 7 kernel_start)"
  note k = process_take_free(2-4) [OF kernel_start_ok par kernel_start_fits, of plain_json "\<lambda>_. lit ''ci''" 7]
  obtain g where g: "path_owner (path_of (lit ''/l'')) ?k = Some g" "fd_pid g = 7"
    using k(2) by (auto simp: path_holder_def)
  have "deadline_fits (from_secs 5) ?k"
    using k(3) by (simp add: deadline_fits_def kernel_start_def instant_limit_def from_secs_def nanos_per_sec_def)
  moreover have "list_all (list_all (spares (path_of (lit ''/l'')) (fd_pid g))) [[Died 6]]"
    "Died (fd_pid g) \<in> set [Tick 3, Died 7]" "Deleted (path_of (lit ''/l'')) \<notin> set [Tick 3, Died 7]"
    using g(2) by (simp_all add: spares_def)
  moreover have "k_now (fold (slept (from_millis 200)) [[Died 6]] ?k) < after (k_now ?k) (from_secs 5)"
    by (simp add: slept_def less_instant_def from_secs_def from_millis_def nanos_per_sec_def)
  ultimately obtain f k' where "rig_lock_take (busy_os 8) plain_json (lit ''me'') (path_of (lit ''/l'')) (from_secs 5)
        (?k, [[Died 6]] @ [Tick 3, Died 7] # []) = Some (Inr f, (k', []))"
      "path_owner (path_of (lit ''/l'')) k' = Some f" "fd_pid f = 8"
    using waiting_process_succeeds_a_dead_one [OF k(1) g(1) par plain_json_codec, of "from_secs 5" "[[Died 6]]"
        "[Tick 3, Died 7]" 8 "lit ''me''" "[]"] by blast
  with k(2) show ?thesis
    by (intro exI [of _ ?k] exI [of _ f] exI [of _ k']) (simp add: path_holder_def)
qed

end
