(* ===== verification/Icd.thy ===== *)
theory Icd
  imports Prelude
begin

text \<open>
  The interface control document (\<open>banc-icd/src/lib.rs\<close>): the protocol version, the paths, the
  message types of node management and of the reference assistant, and the tables that tie
  endpoints and topics to their paths. Bounded strings and vectors of \<open>heapless\<close> are lists;
  their capacities are the predicates \<open>identity_fits\<close> and \<open>chunk_fits\<close>.
\<close>

definition PROTOCOL_VERSION :: u32 where
  "PROTOCOL_VERSION = 0"

section \<open>Paths\<close>

definition NODE_IDENTIFY :: string where "NODE_IDENTIFY = ''banc/node/identify''"
definition NODE_RESET :: string where "NODE_RESET = ''banc/node/reset''"
definition GPIO_CONFIG :: string where "GPIO_CONFIG = ''banc/assistant/gpio/config''"
definition GPIO_SET :: string where "GPIO_SET = ''banc/assistant/gpio/set''"
definition GPIO_READ :: string where "GPIO_READ = ''banc/assistant/gpio/read''"
definition PIN_MONITOR :: string where "PIN_MONITOR = ''banc/assistant/pin/monitor''"
definition PIN_EDGE :: string where "PIN_EDGE = ''banc/assistant/pin/edge''"
definition UART_CONFIG :: string where "UART_CONFIG = ''banc/assistant/uart/config''"
definition UART_TX :: string where "UART_TX = ''banc/assistant/uart/tx''"
definition UART_RX :: string where "UART_RX = ''banc/assistant/uart/rx''"
definition SPI_TRANSFER :: string where "SPI_TRANSFER = ''banc/assistant/spi/transfer''"
definition I2C_TRANSACTION :: string where "I2C_TRANSACTION = ''banc/assistant/i2c/transaction''"
definition CAPTURE_CONTROL :: string where "CAPTURE_CONTROL = ''banc/assistant/capture/control''"
definition CAPTURE_READ :: string where "CAPTURE_READ = ''banc/assistant/capture/read''"

section \<open>Node management\<close>

datatype node_role = Assistant_node | Custom_node

record identity =
  id_role :: node_role
  protocol_version :: u32
  device_id :: u64
  fw_name :: rstr
  fw_version :: rstr

definition identity_fits :: "identity \<Rightarrow> bool" where
  "identity_fits i \<longleftrightarrow> str_len (fw_name i) \<le> 32 \<and> str_len (fw_version i) \<le> 16"

section \<open>The reference assistant\<close>

definition CHUNK :: nat where "CHUNK = 64"
definition EVENTS_PER_CHUNK :: nat where "EVENTS_PER_CHUNK = 16"

datatype level = Low | High
datatype pull = No_pull | Pull_up | Pull_down
datatype pin_mode = Input pull | Output
datatype icd_error = Unsupported | Pin_busy | Hardware | Invalid

record gpio_config =
  config_pin :: u8
  mode :: pin_mode

record gpio_set =
  set_pin :: u8
  set_level :: level

record gpio_read =
  read_pin :: u8

record pin_event =
  event_pin :: u8
  event_level :: level
  timestamp_us :: u64

record pin_monitor =
  monitor_pin :: u8
  monitor_enable :: bool

record uart_config =
  baud :: u32

record chunk =
  chunk_data :: bytes

record uart_rx_chunk =
  rx_timestamp_us :: u64
  rx_data :: bytes

record spi_transfer =
  spi_write :: bytes

record i2c_transaction =
  i2c_addr :: u8
  i2c_write :: bytes
  i2c_read_len :: u8

datatype capture_action = Start_capture | Stop_capture

record capture_control =
  capture_pin :: u8
  capture_action :: capture_action

record capture_status =
  capture_count :: u32
  capture_dropped :: u32

record capture_read =
  capture_offset :: u32

record capture_chunk =
  capture_events :: "pin_event list"
  capture_remaining :: u32

definition chunk_fits :: "bytes \<Rightarrow> bool" where
  "chunk_fits d \<longleftrightarrow> length d \<le> CHUNK"

type_synonym ack_result = "icd_error + unit"
type_synonym level_result = "icd_error + level"
type_synonym chunk_result = "icd_error + chunk"
type_synonym capture_status_result = "icd_error + capture_status"
type_synonym capture_chunk_result = "icd_error + capture_chunk"

section \<open>Endpoints and topics\<close>

datatype endpoint =
    Identify_endpoint | Reset_endpoint | Gpio_config_endpoint | Gpio_set_endpoint
  | Gpio_read_endpoint | Pin_monitor_endpoint | Uart_config_endpoint | Uart_tx_endpoint
  | Spi_transfer_endpoint | I2c_transaction_endpoint | Capture_control_endpoint
  | Capture_read_endpoint

datatype topic = Pin_edge_topic | Uart_rx_topic

definition ENDPOINT_LIST :: "(endpoint \<times> string) list" where
  "ENDPOINT_LIST =
    [(Identify_endpoint, ''banc/node/identify''),
     (Reset_endpoint, ''banc/node/reset''),
     (Gpio_config_endpoint, ''banc/assistant/gpio/config''),
     (Gpio_set_endpoint, ''banc/assistant/gpio/set''),
     (Gpio_read_endpoint, ''banc/assistant/gpio/read''),
     (Pin_monitor_endpoint, ''banc/assistant/pin/monitor''),
     (Uart_config_endpoint, ''banc/assistant/uart/config''),
     (Uart_tx_endpoint, ''banc/assistant/uart/tx''),
     (Spi_transfer_endpoint, ''banc/assistant/spi/transfer''),
     (I2c_transaction_endpoint, ''banc/assistant/i2c/transaction''),
     (Capture_control_endpoint, ''banc/assistant/capture/control''),
     (Capture_read_endpoint, ''banc/assistant/capture/read'')]"

definition TOPICS_OUT_LIST :: "(topic \<times> string) list" where
  "TOPICS_OUT_LIST = [(Pin_edge_topic, ''banc/assistant/pin/edge''),
                      (Uart_rx_topic, ''banc/assistant/uart/rx'')]"

definition TOPICS_IN_LIST :: "(topic \<times> string) list" where
  "TOPICS_IN_LIST = []"

text \<open>
  The two type columns of the table: one constructor per endpoint, carrying the request and
  the response of its row.
\<close>

datatype request =
    Identify_rq | Reset_rq | Gpio_config_rq gpio_config | Gpio_set_rq gpio_set
  | Gpio_read_rq gpio_read | Pin_monitor_rq pin_monitor | Uart_config_rq uart_config
  | Uart_tx_rq chunk | Spi_transfer_rq spi_transfer | I2c_transaction_rq i2c_transaction
  | Capture_control_rq capture_control | Capture_read_rq capture_read

datatype response =
    Identify_rsp identity | Reset_rsp | Gpio_config_rsp ack_result | Gpio_set_rsp ack_result
  | Gpio_read_rsp level_result | Pin_monitor_rsp ack_result | Uart_config_rsp ack_result
  | Uart_tx_rsp ack_result | Spi_transfer_rsp chunk_result | I2c_transaction_rsp chunk_result
  | Capture_control_rsp capture_status_result | Capture_read_rsp capture_chunk_result

fun endpoint_of :: "request \<Rightarrow> endpoint" where
  "endpoint_of Identify_rq = Identify_endpoint"
| "endpoint_of Reset_rq = Reset_endpoint"
| "endpoint_of (Gpio_config_rq _) = Gpio_config_endpoint"
| "endpoint_of (Gpio_set_rq _) = Gpio_set_endpoint"
| "endpoint_of (Gpio_read_rq _) = Gpio_read_endpoint"
| "endpoint_of (Pin_monitor_rq _) = Pin_monitor_endpoint"
| "endpoint_of (Uart_config_rq _) = Uart_config_endpoint"
| "endpoint_of (Uart_tx_rq _) = Uart_tx_endpoint"
| "endpoint_of (Spi_transfer_rq _) = Spi_transfer_endpoint"
| "endpoint_of (I2c_transaction_rq _) = I2c_transaction_endpoint"
| "endpoint_of (Capture_control_rq _) = Capture_control_endpoint"
| "endpoint_of (Capture_read_rq _) = Capture_read_endpoint"

fun answers_endpoint :: "response \<Rightarrow> endpoint" where
  "answers_endpoint (Identify_rsp _) = Identify_endpoint"
| "answers_endpoint Reset_rsp = Reset_endpoint"
| "answers_endpoint (Gpio_config_rsp _) = Gpio_config_endpoint"
| "answers_endpoint (Gpio_set_rsp _) = Gpio_set_endpoint"
| "answers_endpoint (Gpio_read_rsp _) = Gpio_read_endpoint"
| "answers_endpoint (Pin_monitor_rsp _) = Pin_monitor_endpoint"
| "answers_endpoint (Uart_config_rsp _) = Uart_config_endpoint"
| "answers_endpoint (Uart_tx_rsp _) = Uart_tx_endpoint"
| "answers_endpoint (Spi_transfer_rsp _) = Spi_transfer_endpoint"
| "answers_endpoint (I2c_transaction_rsp _) = I2c_transaction_endpoint"
| "answers_endpoint (Capture_control_rsp _) = Capture_control_endpoint"
| "answers_endpoint (Capture_read_rsp _) = Capture_read_endpoint"

text \<open>The exported constant of each entry.\<close>

fun endpoint_path :: "endpoint \<Rightarrow> string" where
  "endpoint_path Identify_endpoint = NODE_IDENTIFY"
| "endpoint_path Reset_endpoint = NODE_RESET"
| "endpoint_path Gpio_config_endpoint = GPIO_CONFIG"
| "endpoint_path Gpio_set_endpoint = GPIO_SET"
| "endpoint_path Gpio_read_endpoint = GPIO_READ"
| "endpoint_path Pin_monitor_endpoint = PIN_MONITOR"
| "endpoint_path Uart_config_endpoint = UART_CONFIG"
| "endpoint_path Uart_tx_endpoint = UART_TX"
| "endpoint_path Spi_transfer_endpoint = SPI_TRANSFER"
| "endpoint_path I2c_transaction_endpoint = I2C_TRANSACTION"
| "endpoint_path Capture_control_endpoint = CAPTURE_CONTROL"
| "endpoint_path Capture_read_endpoint = CAPTURE_READ"

fun topic_path :: "topic \<Rightarrow> string" where
  "topic_path Pin_edge_topic = PIN_EDGE"
| "topic_path Uart_rx_topic = UART_RX"

lemmas path_defs = NODE_IDENTIFY_def NODE_RESET_def GPIO_CONFIG_def GPIO_SET_def GPIO_READ_def
  PIN_MONITOR_def PIN_EDGE_def UART_CONFIG_def UART_TX_def UART_RX_def SPI_TRANSFER_def
  I2C_TRANSACTION_def CAPTURE_CONTROL_def CAPTURE_READ_def

text \<open>
  The tables and the exported path constants agree. Each endpoint and each outgoing topic
  occurs exactly once, under the constant that consumers reuse in their own tables, and no
  two of them share a path.
\<close>

theorem tables_use_the_exported_paths:
  "(\<forall>e. map_of ENDPOINT_LIST e = Some (endpoint_path e)) \<and> distinct (map fst ENDPOINT_LIST)
   \<and> (\<forall>t. map_of TOPICS_OUT_LIST t = Some (topic_path t)) \<and> distinct (map fst TOPICS_OUT_LIST)
   \<and> distinct (map snd ENDPOINT_LIST @ map snd TOPICS_OUT_LIST @ map snd TOPICS_IN_LIST)"
proof (intro conjI allI)
  show "map_of ENDPOINT_LIST e = Some (endpoint_path e)" for e
    by (cases e) (simp_all add: ENDPOINT_LIST_def path_defs)
  show "map_of TOPICS_OUT_LIST t = Some (topic_path t)" for t
    by (cases t) (simp_all add: TOPICS_OUT_LIST_def path_defs)
qed (simp_all add: ENDPOINT_LIST_def TOPICS_OUT_LIST_def TOPICS_IN_LIST_def)

end
