(* ===== verification/Rig.thy ===== *)
theory Rig
  imports FileLock LeaseClient
begin

text \<open>
  Acquiring the rig (\<open>banc-host/src/rig.rs\<close>): locate and load the configuration, choose the
  arbiter (the lock file, or the network lease when the configuration names a server), and
  hand out what fixtures need (the artifacts directory, the tokens, the assistants). The
  process environment, the file system, the TOML parser and the two arbiters' worlds are
  arguments.
\<close>

section \<open>The process and its surroundings\<close>

record ('c, 'f, 'e, 't, 'w) host =
  env_var :: "rstr \<Rightarrow> env_value"
  is_file :: "path \<Rightarrow> bool"
  current_dir :: "io_error + path"
  file_text :: "path \<Rightarrow> io_error + rstr"
  parse_toml :: "rstr \<Rightarrow> 'e + 't rig_config"
  process_id :: u32
  lock_os :: "('f, 'w) lock_os"
  note_json :: "lock_holder json"
  lease_of :: "rstr \<Rightarrow> rstr \<Rightarrow> ('c, 'w) lease_io"

text \<open>\<open>std::env::var\<close> fails for a value that is not Unicode, \<open>var_os\<close> does not.\<close>

definition env_text :: "('c, 'f, 'e, 't, 'w) host \<Rightarrow> string \<Rightarrow> rstr option" where
  "env_text h name = (case env_var h (lit name) of Value s \<Rightarrow> Some s | _ \<Rightarrow> None)"

definition env_path :: "('c, 'f, 'e, 't, 'w) host \<Rightarrow> string \<Rightarrow> path option" where
  "env_path h name = (case env_var h (lit name) of
     Value s \<Rightarrow> Some (path_of s) | Not_unicode p \<Rightarrow> Some p | Unset \<Rightarrow> None)"

text \<open>Parsing an unsigned 64-bit number: an optional plus sign, then digits, without overflow.\<close>

definition parse_u64 :: "rstr \<Rightarrow> u64 option" where
  "parse_u64 s =
    (let ds = (if take 1 s = lit ''+'' then drop 1 s else s);
         n = foldl (\<lambda>n c. 10 * n + (c - 48)) 0 ds
     in if ds = [] \<or> \<not> list_all is_ascii_digit ds \<or> 2 ^ 64 \<le> n then None else Some (of_nat n))"

section \<open>Acquisition\<close>

definition DEFAULT_LOCK_TIMEOUT :: duration where
  "DEFAULT_LOCK_TIMEOUT = from_secs 300"

datatype token_error = Reading_token path io_error | Empty_token path

datatype 'e rig_failure =
    Config_failure "(io_error, 'e) load_error"
  | Token_failure token_error
  | Acquiring_lease client_error
  | Lock_failure lock_error

text \<open>Why there is no rig: it is not configured here, or it is configured but unusable.\<close>

datatype 'e acquire_error = Skip rstr | Fail "'e rig_failure"

datatype ('c, 'f) exclusive_hold = Flock 'f | Lease 'c u64

record ('c, 'f, 't) rig_fixture =
  config :: "'t rig_config"
  base_dir :: path
  hold :: "('c, 'f) exclusive_hold"

definition skip_reason :: rstr where
  "skip_reason = lit ''no rig: '' @ CONFIG_FILE @ lit '' not found (set '' @ ENV_VAR
     @ lit '' or create one to run on hardware)''"

definition holder_identity :: "('c, 'f, 'e, 't, 'w) host \<Rightarrow> rstr" where
  "holder_identity h =
    (case env_text h ''BANC_LEASE_HOLDER'' of
       Some s \<Rightarrow> s
     | None \<Rightarrow>
         (let host = (case env_text h ''HOSTNAME'' of Some s \<Rightarrow> s | None \<Rightarrow> lit ''?'')
          in host @ lit '':'' @ show_nat (unat (process_id h))))"

definition lock_path :: "'t rig_config \<Rightarrow> path \<Rightarrow> path" where
  "lock_path c base =
    (case lock_file (rig c) of
       Some p \<Rightarrow> if absolute p then p else join base p
     | None \<Rightarrow> file_in (file_in base (lit ''target'')) (lit ''banc.lock''))"

definition read_token :: "('c, 'f, 'e, 't, 'w) host \<Rightarrow> path \<Rightarrow> path \<Rightarrow> token_error + rstr" where
  "read_token h path base =
    (let path = (if absolute path then path else join base path) in
     and_then (map_err (Reading_token path) (file_text h path)) (\<lambda>text.
       let tok = trim text in
       and_then (ensure (tok \<noteq> []) (Empty_token path)) (\<lambda>_. Inr tok)))"

definition lock_timeout :: "('c, 'f, 'e, 't, 'w) host \<Rightarrow> duration" where
  "lock_timeout h =
    (case env_text h ''BANC_LOCK_TIMEOUT_SECS'' of
       None \<Rightarrow> DEFAULT_LOCK_TIMEOUT
     | Some s \<Rightarrow> (case parse_u64 s of None \<Rightarrow> DEFAULT_LOCK_TIMEOUT | Some n \<Rightarrow> from_secs (unat n)))"

definition take_hold ::
  "('c, 'f, 'e, 't, 'w) host \<Rightarrow> 't rig_config \<Rightarrow> path \<Rightarrow> 'w
   \<Rightarrow> (('e rig_failure + ('c, 'f) exclusive_hold) \<times> 'w) option" where
  "take_hold h c base w =
    (case rig_lease (rig c) of
       Some l \<Rightarrow>
         (case read_token h (lease_token_file l) base of
            Inl e \<Rightarrow> Some (Inl (Token_failure e), w)
          | Inr tok \<Rightarrow>
              (case lease_acquire (lease_of h (lease_addr l) tok) (holder_identity h) (lock_timeout h) w of
                 None \<Rightarrow> None
               | Some (Inl e, w') \<Rightarrow> Some (Inl (Acquiring_lease e), w')
               | Some (Inr (conn, i), w') \<Rightarrow> Some (Inr (Lease conn i), w')))
     | None \<Rightarrow>
         (case rig_lock_take (lock_os h) (note_json h) (holder_identity h) (lock_path c base)
                 (lock_timeout h) w of
            None \<Rightarrow> None
          | Some (Inl e, w') \<Rightarrow> Some (Inl (Lock_failure e), w')
          | Some (Inr f, w') \<Rightarrow> Some (Inr (Flock f), w')))"

definition acquire ::
  "('c, 'f, 'e, 't, 'w) host \<Rightarrow> 'w \<Rightarrow> (('e acquire_error + ('c, 'f, 't) rig_fixture) \<times> 'w) option" where
  "acquire h w =
    (case locate (env_var h ENV_VAR) (is_file h) (current_dir h) of
       Inl e \<Rightarrow> Some (Inl (Fail (Config_failure e)), w)
     | Inr None \<Rightarrow> Some (Inl (Skip skip_reason), w)
     | Inr (Some path) \<Rightarrow>
         (case load (file_text h) (parse_toml h) path of
            Inl e \<Rightarrow> Some (Inl (Fail (Config_failure e)), w)
          | Inr c \<Rightarrow>
              (let base = (case parent path of Some d \<Rightarrow> d | None \<Rightarrow> path_of (lit ''.'')) in
               case take_hold h c base w of
                 None \<Rightarrow> None
               | Some (Inl e, w') \<Rightarrow> Some (Inl (Fail e), w')
               | Some (Inr x, w') \<Rightarrow> Some (Inr \<lparr>config = c, base_dir = base, hold = x\<rparr>, w'))))"

section \<open>What fixtures ask of a rig\<close>

definition artifacts_dir :: "('c, 'f, 'e, 't, 'w) host \<Rightarrow> ('c, 'f, 't) rig_fixture \<Rightarrow> path" where
  "artifacts_dir h r =
    (case env_path h ''BANC_ARTIFACTS'' of
       Some p \<Rightarrow> p
     | None \<Rightarrow> file_in (file_in (base_dir r) (lit ''target'')) (lit ''banc-artifacts''))"

definition token_opt ::
  "('c, 'f, 'e, 't, 'w) host \<Rightarrow> path option \<Rightarrow> path \<Rightarrow> token_error + rstr option" where
  "token_opt h p base =
    (case p of None \<Rightarrow> Inr None | Some p \<Rightarrow> and_then (read_token h p base) (\<lambda>t. Inr (Some t)))"

definition target_token ::
  "('c, 'f, 'e, 't, 'w) host \<Rightarrow> ('c, 'f, 't) rig_fixture \<Rightarrow> token_error + rstr option" where
  "target_token h r =
    (case target (config r) of
       None \<Rightarrow> Inr None
     | Some t \<Rightarrow> token_opt h (target_token_file t) (base_dir r))"

text \<open>Connecting to the node an assistant entry describes is the node's part, an argument here.\<close>

datatype 'n assistant_error = No_such_assistant rstr | Assistant_token token_error | Connecting_node 'n

definition rig_assistant ::
  "('c, 'f, 'e, 't, 'w) host \<Rightarrow> (assistant_config \<Rightarrow> rstr option \<Rightarrow> rstr option \<Rightarrow> 'n + 'node)
   \<Rightarrow> ('c, 'f, 't) rig_fixture \<Rightarrow> rstr \<Rightarrow> 'n assistant_error + 'node" where
  "rig_assistant h node_connect r name =
    (case assistant (config r) name of
       None \<Rightarrow> Inl (No_such_assistant name)
     | Some cfg \<Rightarrow>
         and_then (map_err Assistant_token (token_opt h (token_file cfg) (base_dir r))) (\<lambda>tok.
         map_err Connecting_node (node_connect cfg tok (rig_name (rig (config r))))))"

section \<open>Laws of acquisition\<close>

text \<open>Both arbiters' waits end, whatever the world does, when its clocks run.\<close>

definition clocks_run :: "('c, 'f, 'e, 't, 'w) host \<Rightarrow> bool" where
  "clocks_run h \<longleftrightarrow> os_keeps_time (lock_os h) \<and> (\<forall>a t. keeps_time (lease_of h a t))"

text \<open>What a hold is worth: the last answer of the arbiter the configuration names.\<close>

definition granted_by ::
  "('c, 'f, 'e, 't, 'w) host \<Rightarrow> 't rig_config \<Rightarrow> path \<Rightarrow> ('c, 'f) exclusive_hold \<Rightarrow> 'w \<Rightarrow> bool" where
  "granted_by h c base x w' \<longleftrightarrow>
    (case x of
       Flock f \<Rightarrow> rig_lease (rig c) = None
         \<and> (\<exists>u v. os_try_lock (lock_os h) f u = (Inr True, v)
              \<and> w' = write_note (lock_os h) (note_json h) (holder_identity h) f v)
     | Lease conn i \<Rightarrow> \<exists>l tok u v. rig_lease (rig c) = Some l
         \<and> read_token h (lease_token_file l) base = Inr tok
         \<and> io_roundtrip (lease_of h (lease_addr l) tok) conn (Acquire (holder_identity h) 60) u
             = (Inr (Granted i), v)
         \<and> io_spawn (lease_of h (lease_addr l) tok) v = (Inr (), w'))"

lemma take_hold_returns:
  assumes "clocks_run h"
  shows "\<exists>r w'. take_hold h c base w = Some (r, w') \<and> (\<forall>x. r = Inr x \<longrightarrow> granted_by h c base x w')"
proof (cases "rig_lease (rig c)")
  case None
  obtain r w' where r: "rig_lock_take (lock_os h) (note_json h) (holder_identity h) (lock_path c base)
      (lock_timeout h) w = Some (r, w')"
    "\<forall>f. r = Inr f \<longrightarrow> (\<exists>u v. os_try_lock (lock_os h) f u = (Inr True, v)
        \<and> w' = write_note (lock_os h) (note_json h) (holder_identity h) f v)"
    using rig_lock_take_total [of "lock_os h" "note_json h" "holder_identity h" "lock_path c base"
        "lock_timeout h" w] assms by (auto simp: clocks_run_def)
  show ?thesis
    using r None by (cases r) (auto simp: take_hold_def granted_by_def)
next
  case (Some l)
  show ?thesis
  proof (cases "read_token h (lease_token_file l) base")
    case (Inl e)
    with Some show ?thesis by (simp add: take_hold_def)
  next
    case (Inr tok)
    have "keeps_time (lease_of h (lease_addr l) tok)" using assms by (simp add: clocks_run_def)
    from lease_acquire_cases [OF this, of "holder_identity h" "lock_timeout h" w] show ?thesis
      by cases (auto simp: take_hold_def granted_by_def Some Inr)
  qed
qed

lemma take_hold_overflow:
  fixes h :: "('c, 'f, 'e, 't, 'w) host"
  assumes "clocks_run h" and "2 ^ 63 \<le> as_secs (lock_timeout h)"
  shows "\<exists>e w'. take_hold h c base w = Some (Inl e, w')"
proof (cases "rig_lease (rig c)")
  case None
  obtain r w' where r: "rig_lock_take (lock_os h) (note_json h) (holder_identity h) (lock_path c base)
      (lock_timeout h) w = Some (r, w')" "\<not> is_ok r"
    using rig_lock_take_total [of "lock_os h" "note_json h" "holder_identity h" "lock_path c base"
        "lock_timeout h" w] assms by (auto simp: clocks_run_def)
  with None show ?thesis by (cases r) (auto simp: take_hold_def)
next
  case (Some l)
  have over: "\<not> ns_of t + lock_timeout h < instant_limit" for t
    using from_secs_overflows [OF assms(2), of t] as_secs_floor(1) [of "lock_timeout h"] by linarith
  then have "lease_acquire io who (lock_timeout h) w = Some (Inl Lease_deadline_panic, w)"
    for io :: "('c, 'w) lease_io" and who
    by (simp add: lease_acquire_def checked_add_def over)
  with Some show ?thesis
    by (cases "read_token h (lease_token_file l) base") (auto simp: take_hold_def)
qed

lemma acquire_configured:
  fixes h :: "('c, 'f, 'e, 't, 'w) host"
  shows "locate (env_var h ENV_VAR) (is_file h) (current_dir h) \<noteq> (Inr None :: (io_error, 'e) load_error + path option)
   \<Longrightarrow> acquire h w \<noteq> Some (Inl (Skip s :: 'e acquire_error), w')"
  by (auto simp: acquire_def Let_def split: sum.splits option.splits prod.splits)

lemma acquire_skip:
  fixes h :: "('c, 'f, 'e, 't, 'w) host"
  shows "(\<exists>s w'. acquire h w = Some (Inl (Skip s :: 'e acquire_error), w')) \<longleftrightarrow>
   locate (env_var h ENV_VAR) (is_file h) (current_dir h) = (Inr None :: (io_error, 'e) load_error + path option)"
proof
  assume "locate (env_var h ENV_VAR) (is_file h) (current_dir h)
    = (Inr None :: (io_error, 'e) load_error + path option)"
  then show "\<exists>s w'. acquire h w = Some (Inl (Skip s :: 'e acquire_error), w')"
    by (simp add: acquire_def)
qed (use acquire_configured [of h w] in metis)

lemma locate_None:
  "locate env f cwd = (Inr None :: ('io, 'e) load_error + path option) \<longleftrightarrow>
   (\<nexists>s. env = Value s) \<and> (\<exists>dir. cwd = Inr dir
      \<and> (\<forall>k \<le> length (parts dir). \<not> f (file_in (ancestor dir k) CONFIG_FILE)))"
  by (cases env; cases cwd) (auto simp: locate_def Let_def result_simps search_up_None)

lemma trim_decomp: "\<exists>pre post. s = pre @ trim s @ post
    \<and> list_all is_whitespace pre \<and> list_all is_whitespace post"
proof -
  let ?m = "trim_start s"
  have "s = takeWhile is_whitespace s @ ?m" by (simp add: trim_start_def)
  moreover have "?m = trim s @ rev (takeWhile is_whitespace (rev ?m))"
    unfolding trim_def trim_end_def by (simp flip: rev_append)
  moreover have "list_all is_whitespace (takeWhile is_whitespace s)"
    "list_all is_whitespace (rev (takeWhile is_whitespace (rev ?m)))"
    by (auto simp: list_all_iff dest: set_takeWhileD)
  ultimately show ?thesis by metis
qed

lemma trim_ends: "trim s \<noteq> [] \<Longrightarrow> \<not> is_whitespace (hd (trim s)) \<and> \<not> is_whitespace (last (trim s))"
proof
  assume n: "trim s \<noteq> []"
  let ?m = "trim_start s"
  have m: "rev ?m = takeWhile is_whitespace (rev ?m) @ rev (trim s)"
    by (simp add: trim_def trim_end_def)
  have "?m \<noteq> []" using n by (auto simp: trim_def trim_end_def)
  then have "\<not> is_whitespace (hd ?m)" using hd_dropWhile [of is_whitespace s] by (simp add: trim_start_def)
  moreover have "?m = trim s @ rev (takeWhile is_whitespace (rev ?m))"
    using arg_cong [OF m, of rev] by simp
  ultimately show "\<not> is_whitespace (hd (trim s))" using n by (metis hd_append2)
  have "dropWhile is_whitespace (rev ?m) \<noteq> []" using n by (simp add: trim_def trim_end_def)
  from hd_dropWhile [OF this] show "\<not> is_whitespace (last (trim s))"
    using n by (simp add: trim_def trim_end_def last_rev)
qed

lemma trim_unique:
  assumes "list_all is_whitespace pre" and "list_all is_whitespace post" and "t \<noteq> []"
    and "\<not> is_whitespace (hd t)" and "\<not> is_whitespace (last t)"
  shows "trim (pre @ t @ post) = t"
proof -
  have "trim_start (pre @ t @ post) = t @ post"
    using assms by (cases t) (auto simp: trim_start_def list_all_iff dropWhile_append2)
  moreover have "dropWhile is_whitespace (rev post @ rev t) = rev t"
  proof -
    have "dropWhile is_whitespace (rev post @ rev t) = dropWhile is_whitespace (rev t)"
      using assms(2) by (intro dropWhile_append2) (auto simp: list_all_iff)
    also have "\<dots> = rev t" using assms(3,5) by (cases t rule: rev_cases) auto
    finally show ?thesis .
  qed
  then have "trim_end (t @ post) = t" by (simp add: trim_end_def)
  ultimately show ?thesis by (simp add: trim_def)
qed

text \<open>
  Acquisition ends, and a rig that is handed out is exclusively held by the arbiter the
  configuration names. Its configuration passed validation; without a lease server the hold
  is a lock that the last try on the lock file granted; with one it is a lease that this
  server, asked with the trimmed token and under this process's identity, granted in the last
  round trip before the renewal thread was started.
\<close>

lemma acquire_total:
  fixes h :: "('c, 'f, 'e, 't, 'w) host"
  assumes "clocks_run h"
  shows "\<exists>r w'. acquire h w = Some (r, w')
    \<and> (\<forall>fx. r = Inr fx \<longrightarrow> well_formed (config fx) \<and> granted_by h (config fx) (base_dir fx) (hold fx) w')"
proof (cases "locate (env_var h ENV_VAR) (is_file h) (current_dir h) :: (io_error, 'e) load_error + path option")
  case (Inr found)
  show ?thesis
  proof (cases found)
    case (Some path)
    show ?thesis
    proof (cases "load (file_text h) (parse_toml h) path")
      case (Inr c)
      define base where "base = (case parent path of Some d \<Rightarrow> d | None \<Rightarrow> path_of (lit ''.''))"
      obtain r w' where t: "take_hold h c base w = Some (r, w')"
        "\<forall>x. r = Inr x \<longrightarrow> granted_by h c base x w'"
        using take_hold_returns [OF assms] by blast
      have "well_formed c" using Inr by (auto simp: load_def result_simps validate_ok)
      with t show ?thesis
        using \<open>locate _ _ _ = _\<close> Some Inr
        by (cases r) (auto simp: acquire_def Let_def simp flip: base_def)
    qed (simp add: acquire_def \<open>locate _ _ _ = _\<close> Some)
  qed (simp add: acquire_def Inr)
qed (simp add: acquire_def)

section \<open>Properties\<close>

text \<open>
  C21: the self-skip is honest. Acquisition answers that there is no rig exactly when no
  usable variable points at a configuration and no enclosing directory holds one; a
  configuration that is missing where the variable says, malformed, contended or unreadable
  is a failure and never a skip.
\<close>

theorem skip_iff_not_configured:
  fixes h :: "('c, 'f, 'e, 't, 'w) host"
  shows "(\<exists>s w'. acquire h w = Some (Inl (Skip s), w')) \<longleftrightarrow>
   (\<nexists>s. env_var h ENV_VAR = Value s) \<and>
   (\<exists>dir. current_dir h = Inr dir \<and>
      (\<forall>k \<le> length (parts dir). \<not> is_file h (file_in (ancestor dir k) CONFIG_FILE)))"
  by (simp only: acquire_skip locate_None)

text \<open>
  A timeout beyond the range of the clock gives no rig. When the variable asks to wait
  for 2^63 seconds or more (the largest number stands for waiting without end), acquisition
  fails on either arbiter however free the rig is, because computing the deadline panics.
\<close>

theorem enormous_timeout_hands_out_nothing:
  fixes h :: "('c, 'f, 'e, 't, 'w) host"
  assumes "clocks_run h" and "env_var h (lit ''BANC_LOCK_TIMEOUT_SECS'') = Value s"
    and "parse_u64 s = Some n" and "2 ^ 63 \<le> unat n"
  shows "\<exists>e w'. acquire h w = Some (Inl e, w')"
proof -
  have "lock_timeout h = from_secs (unat n)"
    using assms(2,3) by (simp add: lock_timeout_def env_text_def)
  then have long: "2 ^ 63 \<le> as_secs (lock_timeout h)" using assms(4) by (simp add: time_simps)
  show ?thesis
  proof (cases "locate (env_var h ENV_VAR) (is_file h) (current_dir h) :: (io_error, 'e) load_error + path option")
    case (Inr found)
    show ?thesis
    proof (cases found)
      case (Some path)
      show ?thesis
      proof (cases "load (file_text h) (parse_toml h) path")
        case (Inr c)
        obtain e w' where "take_hold h c (case parent path of Some d \<Rightarrow> d | None \<Rightarrow> path_of (lit ''.'')) w
            = Some (Inl e, w')"
          using take_hold_overflow [OF assms(1) long] by blast
        then show ?thesis
          using \<open>locate _ _ _ = _\<close> Some Inr by (simp add: acquire_def Let_def)
      qed (simp add: acquire_def \<open>locate _ _ _ = _\<close> Some)
    qed (simp add: acquire_def Inr)
  qed (simp add: acquire_def)
qed

text \<open>
  A token is the content of its file without the white space around it. It is found next
  to the configuration when the path is relative, it is never empty and has no white space at
  either end, and any such content is accepted.
\<close>

theorem token_is_trimmed_content:
  "read_token h path base = Inr tok \<longleftrightarrow>
   tok \<noteq> [] \<and> \<not> is_whitespace (hd tok) \<and> \<not> is_whitespace (last tok) \<and>
   (\<exists>pre post. file_text h (join base path) = Inr (pre @ tok @ post)
      \<and> list_all is_whitespace pre \<and> list_all is_whitespace post)"
proof -
  have "read_token h path base = Inr tok \<longleftrightarrow>
      tok \<noteq> [] \<and> (\<exists>text. file_text h (join base path) = Inr text \<and> trim text = tok)"
    by (auto simp: read_token_def Let_def result_simps join_def)
  also have "\<dots> \<longleftrightarrow> tok \<noteq> [] \<and> \<not> is_whitespace (hd tok) \<and> \<not> is_whitespace (last tok) \<and>
   (\<exists>pre post. file_text h (join base path) = Inr (pre @ tok @ post)
      \<and> list_all is_whitespace pre \<and> list_all is_whitespace post)"
    using trim_unique [of _ _ tok] trim_ends trim_decomp by metis
  finally show ?thesis .
qed

text \<open>The instance: a machine on its own, whose configuration is in the enclosing directory.\<close>

definition no_lease :: "(unit, kernel) lease_io" where
  "no_lease = \<lparr>io_connect = (\<lambda>k. (Inl (No_addresses []), k)),
     io_roundtrip = (\<lambda>_ _ k. (Inl (No_addresses []), k)), io_spawn = (\<lambda>k. (Inr (), k)),
     io_clock = k_now, io_sleep = (\<lambda>d k. k\<lparr>k_now := after (k_now k) d\<rparr>)\<rparr>"

definition bench :: "(unit, fdesc, unit, unit, kernel) host" where
  "bench = \<lparr>env_var = (\<lambda>_. Unset), is_file = (\<lambda>p. p = path_of (lit ''/home/banc-rig.toml'')),
     current_dir = Inr (path_of (lit ''/home/me'')), file_text = (\<lambda>_. Inr []),
     parse_toml = (\<lambda>_. Inr (plain_config [])), process_id = 7, lock_os = kernel_os 7,
     note_json = plain_json, lease_of = (\<lambda>_ _. no_lease)\<rparr>"

lemma bench_clocks: "clocks_run bench"
  by (simp add: clocks_run_def bench_def kernel_keeps_time keeps_time_def no_lease_def)

lemma bench_located:
  "locate (env_var bench ENV_VAR) (is_file bench) (current_dir bench)
     = (Inr (Some (path_of (lit ''/home/banc-rig.toml''))) :: (io_error, unit) load_error + path option)"
  "load (file_text bench) (parse_toml bench) (path_of (lit ''/home/banc-rig.toml'')) = Inr (plain_config [])"
  "parent (path_of (lit ''/home/banc-rig.toml'')) = Some (path_of (lit ''/home''))"
proof -
  let ?base = "path_of (lit ''/home'')"
  note path_defs = path_of_def lit_def file_in_def join_def CONFIG_FILE_def parent_def bench_def
  have "search_up (is_file bench) (path_of (lit ''/home/me'')) = search_up (is_file bench) ?base"
    by (subst search_up.simps) (simp add: path_defs)
  also have "\<dots> = Some (path_of (lit ''/home/banc-rig.toml''))"
    by (subst search_up.simps) (simp add: path_defs)
  finally show "locate (env_var bench ENV_VAR) (is_file bench) (current_dir bench)
      = (Inr (Some (path_of (lit ''/home/banc-rig.toml''))) :: (io_error, unit) load_error + path option)"
    by (simp add: locate_def bench_def)
  show "load (file_text bench) (parse_toml bench) (path_of (lit ''/home/banc-rig.toml'')) = Inr (plain_config [])"
    by (simp add: load_def bench_def validate_def plain_config_def)
  show "parent (path_of (lit ''/home/banc-rig.toml'')) = Some ?base"
    by (simp add: path_defs)
qed

lemma bench_acquires:
  "\<exists>f k. acquire bench kernel_start
     = Some (Inr \<lparr>config = plain_config [], base_dir = path_of (lit ''/home''), hold = Flock f\<rparr>, k)"
proof -
  let ?path = "lock_path (plain_config []) (path_of (lit ''/home''))"
  have "parent ?path \<noteq> None"
    by (simp add: lock_path_def plain_config_def parent_def path_of_def lit_def file_in_def join_def)
  moreover have "deadline_fits (lock_timeout bench) kernel_start"
    by (simp add: deadline_fits_def kernel_start_def instant_limit_def lock_timeout_def env_text_def bench_def
        DEFAULT_LOCK_TIMEOUT_def from_secs_def nanos_per_sec_def)
  moreover have "k_owner kernel_start i = None" for i by (simp add: kernel_start_def)
  ultimately obtain f k where "rig_lock_take (kernel_os 7) plain_json (holder_identity bench) ?path
      (lock_timeout bench) kernel_start = Some (Inr f, k)"
    using take_free_lock [OF kernel_start_ok(1), of ?path "lock_timeout bench" 7 plain_json "holder_identity bench"]
    by blast
  moreover have "rig_lease (rig (plain_config [])) = None" "lock_os bench = kernel_os 7" "note_json bench = plain_json"
    by (simp_all add: plain_config_def bench_def)
  ultimately show ?thesis by (simp add: acquire_def bench_located take_hold_def)
qed

theorem skip_iff_not_configured_witness:
  "\<exists>s w'. acquire (bench\<lparr>is_file := (\<lambda>_. False)\<rparr>) kernel_start = Some (Inl (Skip s), w')"
  by (simp add: skip_iff_not_configured) (simp add: bench_def)

theorem enormous_timeout_hands_out_nothing_witness:
  "\<exists>e k. acquire (bench\<lparr>env_var := (\<lambda>v. if v = lit ''BANC_LOCK_TIMEOUT_SECS''
      then Value (lit ''18446744073709551615'') else Unset)\<rparr>) kernel_start = Some (Inl e, k)"
proof -
  have "parse_u64 (lit ''18446744073709551615'') = Some 18446744073709551615"
    by (simp add: parse_u64_def Let_def lit_def is_ascii_digit_def)
  moreover have "clocks_run (bench\<lparr>env_var := v\<rparr>)" for v
    using bench_clocks by (simp add: clocks_run_def)
  ultimately show ?thesis
    using enormous_timeout_hands_out_nothing [of "bench\<lparr>env_var := (\<lambda>v. if v = lit ''BANC_LOCK_TIMEOUT_SECS''
      then Value (lit ''18446744073709551615'') else Unset)\<rparr>" _ 18446744073709551615 kernel_start]
    by simp
qed

end
