(* ===== verification/Node.thy ===== *)
theory Node
  imports Icd Rig
begin

text \<open>
  Connecting to a node (\<open>banc-host/src/node.rs\<close>): over the network with the handshake, or over
  USB by serial and product, then the identification that every connection goes through.
  The postcard-rpc client and the USB enumeration are third-party code and arguments of the
  model, as is the TCP connect.
\<close>

record usb_device =
  dev_serial :: "rstr option"
  dev_product :: "rstr option"

record ('c, 'e) node_world =
  send_identify :: "'c \<Rightarrow> 'e + identity"
  send_reset :: "'c \<Rightarrow> 'e + unit"
  try_new_raw_nusb :: "(usb_device \<Rightarrow> bool) \<Rightarrow> 'e + 'c"
  new_with_wire :: "stream \<Rightarrow> 'c"
  tcp_connect :: "rstr \<Rightarrow> io_error + stream"
  hello_codec :: "hello codec"
  reply_codec :: "hello_reply codec"
  debug_build :: bool

record 'c node =
  client :: 'c
  identity_of :: identity

datatype 'e node_error =
    No_token rstr
  | Network net_error
  | Wrong_rig rstr rstr rstr rstr
  | Usb rstr 'e
  | Identify rstr 'e
  | Wrong_protocol rstr u32 u32
  | Wrong_device rstr rstr rstr
  | Reset 'e

datatype node_notice = Not_an_assistant rstr node_role

text \<open>The filter handed to the USB enumeration.\<close>

definition usb_matches :: "assistant_config \<Rightarrow> usb_device \<Rightarrow> bool" where
  "usb_matches cfg d \<longleftrightarrow>
    (let serial_ok = (case serial cfg of None \<Rightarrow> True | Some want \<Rightarrow> dev_serial d = Some want);
         product_ok = (case product cfg of None \<Rightarrow> True | Some want \<Rightarrow> dev_product d = Some want)
     in serial_ok \<and> product_ok)"

definition identify ::
  "('c, 'e) node_world \<Rightarrow> 'c \<Rightarrow> assistant_config \<Rightarrow> 'e node_error + ('c node \<times> node_notice list)" where
  "identify nw c cfg =
    (let name = assistant_name cfg in
     and_then (map_err (Identify name) (send_identify nw c)) (\<lambda>i.
     and_then (ensure (protocol_version i = PROTOCOL_VERSION)
                 (Wrong_protocol name (protocol_version i) PROTOCOL_VERSION)) (\<lambda>_.
     and_then (case unique_id cfg of
                 None \<Rightarrow> Inr ()
               | Some want \<Rightarrow>
                   let got = hex_pad 16 (unat (device_id i)) in
                   ensure (eq_ignore_ascii_case got want) (Wrong_device name got want)) (\<lambda>_.
     Inr (\<lparr>client = c, identity_of = i\<rparr>,
          if id_role i \<noteq> Assistant_node then [Not_an_assistant name (id_role i)] else [])))))"

definition node_connect ::
  "('c, 'e) node_world \<Rightarrow> assistant_config \<Rightarrow> rstr option \<Rightarrow> rstr option
   \<Rightarrow> 'e node_error + ('c node \<times> node_notice list)" where
  "node_connect nw cfg tok expected_rig =
    (case addr cfg of
       Some a \<Rightarrow>
         and_then (case tok of None \<Rightarrow> Inl (No_token (assistant_name cfg)) | Some t \<Rightarrow> Inr t) (\<lambda>t.
         and_then (map_err Network
             (connect_node (hello_codec nw) (reply_codec nw) (debug_build nw) (tcp_connect nw) a t))
           (\<lambda>(s, rig_name).
         and_then (case expected_rig of
                     None \<Rightarrow> Inr ()
                   | Some want \<Rightarrow> ensure (rig_name = want) (Wrong_rig (assistant_name cfg) a rig_name want))
           (\<lambda>_. identify nw (new_with_wire nw s) cfg)))
     | None \<Rightarrow>
         and_then (map_err (Usb (assistant_name cfg)) (try_new_raw_nusb nw (usb_matches cfg)))
           (\<lambda>c. identify nw c cfg))"

definition node_reset :: "('c, 'e) node_world \<Rightarrow> 'c node \<Rightarrow> 'e node_error + unit" where
  "node_reset nw n = map_err Reset (send_reset nw (client n))"

section \<open>Which device a pin denotes\<close>

lemma hex_lower_inject:
  assumes "list_all is_ascii_hexdigit s" and "list_all is_ascii_hexdigit t"
    and "map to_ascii_lower s = map to_ascii_lower t"
  shows "parse_hex s = parse_hex t"
proof -
  have "map hex_value s = map (hex_value \<circ> to_ascii_lower) s"
    using assms(1) by (simp add: list_all_iff hex_value_lower)
  also have "\<dots> = map (hex_value \<circ> to_ascii_lower) t"
    using arg_cong [OF assms(3), of "map hex_value"] by simp
  also have "\<dots> = map hex_value t"
    using assms(2) by (simp add: list_all_iff hex_value_lower)
  finally have "foldl (\<lambda>n v. 16 * n + v) 0 (map hex_value s) = foldl (\<lambda>n v. 16 * n + v) 0 (map hex_value t)"
    by simp
  then show ?thesis by (simp add: parse_hex_def foldl_map)
qed

lemma pin_matches_iff:
  assumes "length want = 16" and "list_all is_ascii_hexdigit want" and "n < 16 ^ 16"
  shows "eq_ignore_ascii_case (hex_pad 16 n) want \<longleftrightarrow> n = parse_hex want"
proof
  assume "eq_ignore_ascii_case (hex_pad 16 n) want"
  then have "parse_hex (hex_pad 16 n) = parse_hex want"
    using assms(2) hex_pad_hexdigits by (intro hex_lower_inject) (auto simp: eq_ignore_ascii_case_def)
  with assms(3) show "n = parse_hex want" by (simp add: parse_hex_pad)
next
  assume "n = parse_hex want"
  with hex_pad_parse_hex [OF assms(2)] assms(1)
  show "eq_ignore_ascii_case (hex_pad 16 n) want" by (simp add: eq_ignore_ascii_case_def)
qed

lemma identify_iff:
  assumes "pin_ok cfg"
  shows "identify nw c cfg = Inr (n, notes) \<longleftrightarrow>
    (\<exists>i. send_identify nw c = Inr i \<and> n = \<lparr>client = c, identity_of = i\<rparr>
      \<and> protocol_version i = PROTOCOL_VERSION
      \<and> (\<forall>want. unique_id cfg = Some want \<longrightarrow> unat (device_id i) = parse_hex want)
      \<and> notes = (if id_role i = Assistant_node then [] else [Not_an_assistant (assistant_name cfg) (id_role i)]))"
proof -
  have "eq_ignore_ascii_case (hex_pad 16 (unat d)) want \<longleftrightarrow> unat d = parse_hex want"
    if "unique_id cfg = Some want" for d :: u64 and want
    using assms that unsigned_less [of d] by (intro pin_matches_iff) (auto simp: pin_ok_def)
  then show ?thesis
    by (auto simp: identify_def Let_def result_simps split: option.splits)
qed

section \<open>Properties\<close>

text \<open>
  C23: a pinned node is the device its pin denotes. With a valid configuration entry the
  identification succeeds exactly when the node answers, speaks the host's protocol version,
  and, if a unique id is configured, reports the 64-bit number written by those sixteen
  hexadecimal digits in either case; a custom role only adds a notice.
\<close>

theorem identification_accepts_exactly_the_pinned_device:
  assumes "validate c = Inr ()" and "assistant c name = Some cfg"
  shows "identify nw cl cfg = Inr (n, notes) \<longleftrightarrow>
    (\<exists>i. send_identify nw cl = Inr i \<and> n = \<lparr>client = cl, identity_of = i\<rparr>
      \<and> protocol_version i = PROTOCOL_VERSION
      \<and> (\<forall>want. unique_id cfg = Some want \<longrightarrow> unat (device_id i) = parse_hex want)
      \<and> notes = (if id_role i = Assistant_node then [] else [Not_an_assistant (assistant_name cfg) (id_role i)]))"
proof -
  have "cfg \<in> set (assistants c)"
    using assms(2) by (auto simp: assistant_def find_Some_iff)
  then have "pin_ok cfg" using assms(1) by (auto simp: validate_ok well_formed_def)
  then show ?thesis by (rule identify_iff)
qed

text \<open>A bench with one board on USB, for the instances.\<close>

definition board :: usb_device where
  "board = \<lparr>dev_serial = Some (lit ''E6''), dev_product = Some (lit ''banc-assistant'')\<rparr>"

definition usb_bench :: "(usb_device, unit) node_world" where
  "usb_bench =
    \<lparr>send_identify = (\<lambda>_. Inr \<lparr>id_role = Custom_node, protocol_version = 0, device_id = 0x00000000000000E6,
        fw_name = [], fw_version = []\<rparr>),
     send_reset = (\<lambda>_. Inr ()),
     try_new_raw_nusb = (\<lambda>p. if p board then Inr board else Inl ()),
     new_with_wire = (\<lambda>_. board), tcp_connect = (\<lambda>_. Inl (Os_error 111)),
     hello_codec = text_hello, reply_codec = text_reply, debug_build = False\<rparr>"

definition pinned_entry :: assistant_config where
  "pinned_entry = (usb_entry ''a0'' ''E6'')\<lparr>unique_id := Some (lit ''00000000000000e6'')\<rparr>"

lemma pinned_valid:
  "validate (plain_config [pinned_entry]) = Inr ()"
  "assistant (plain_config [pinned_entry]) (lit ''a0'') = Some pinned_entry"
proof -
  have "list_all is_ascii_hexdigit (lit ''00000000000000e6'')" "length (lit ''00000000000000e6'') = 16"
    by (simp_all add: lit_def is_ascii_hexdigit_def is_ascii_digit_def)
  then show "validate (plain_config [pinned_entry]) = Inr ()"
    by (simp add: validate_ok well_formed_def names_ok_def plain_config_def pinned_entry_def usb_entry_def
        reached_def pin_ok_def blank_def lit_def is_whitespace_def)
  show "assistant (plain_config [pinned_entry]) (lit ''a0'') = Some pinned_entry"
    by (simp add: assistant_def plain_config_def pinned_entry_def usb_entry_def)
qed

theorem identification_accepts_exactly_the_pinned_device_witness:
  "\<exists>n. identify usb_bench board pinned_entry = Inr (n, [Not_an_assistant (lit ''a0'') Custom_node])"
  using identification_accepts_exactly_the_pinned_device [OF pinned_valid, of usb_bench board _
      "[Not_an_assistant (lit ''a0'') Custom_node]"]
  by (simp add: usb_bench_def PROTOCOL_VERSION_def)
    (simp add: pinned_entry_def usb_entry_def parse_hex_def lit_def hex_value_def is_ascii_digit_def
      is_ascii_upper_def)

text \<open>
  C24: a connection ends at the thing the configuration describes. For a network entry the
  handshake was made with that address and the daemon reported the rig's own name whenever
  the rig has one; for a USB entry the opened device has every serial and product that is
  configured, and at least one of them is, so a nameless device is never taken. Assumed of
  the USB library: a client it returns is connected to a device the filter accepts.
\<close>

theorem connection_reaches_the_configured_node:
  assumes "validate c = Inr ()" and "assistant c name = Some cfg"
    and "node_connect nw cfg tok expected_rig = Inr (n, notes)"
    and "\<And>p cl. try_new_raw_nusb nw p = Inr cl \<Longrightarrow> p (device_of cl)"
  shows "case reached cfg of
      Some (Over_network a _) \<Rightarrow> \<exists>t s rig. tok = Some t
        \<and> connect_node (hello_codec nw) (reply_codec nw) (debug_build nw) (tcp_connect nw) a t = Inr (s, rig)
        \<and> (\<forall>want. expected_rig = Some want \<longrightarrow> rig = want) \<and> client n = new_with_wire nw s
    | Some (Over_usb s p) \<Rightarrow>
        (\<forall>x. s = Some x \<longrightarrow> dev_serial (device_of (client n)) = Some x)
        \<and> (\<forall>x. p = Some x \<longrightarrow> dev_product (device_of (client n)) = Some x)
        \<and> (dev_serial (device_of (client n)) \<noteq> None \<or> dev_product (device_of (client n)) \<noteq> None)
    | None \<Rightarrow> False"
proof -
  have "cfg \<in> set (assistants c)"
    using assms(2) by (auto simp: assistant_def find_Some_iff)
  then have ok: "reached cfg \<noteq> None" "pin_ok cfg"
    using assms(1) by (auto simp: validate_ok well_formed_def)
  have cl: "client m = cl" if "identify nw cl cfg = Inr (m, ns)" for m cl ns
    using that identify_iff [OF ok(2), of nw cl m ns] by auto
  show ?thesis
  proof (cases "addr cfg")
    case None
    then obtain d where "try_new_raw_nusb nw (usb_matches cfg) = Inr d" "identify nw d cfg = Inr (n, notes)"
      using assms(3) by (auto simp: node_connect_def result_simps)
    then have "usb_matches cfg (device_of (client n))"
      using assms(4) cl by blast
    with ok(1) None show ?thesis
      by (cases "(addr cfg, token_file cfg, serial cfg, product cfg)" rule: reach_of.cases)
        (auto simp: reached_def usb_matches_def Let_def split: option.splits)
  next
    case (Some a)
    with ok(1) obtain t' where r: "reached cfg = Some (Over_network a t')"
      by (cases "(addr cfg, token_file cfg, serial cfg, product cfg)" rule: reach_of.cases)
        (auto simp: reached_def split: if_splits)
    obtain t s rig where "tok = Some t"
      "connect_node (hello_codec nw) (reply_codec nw) (debug_build nw) (tcp_connect nw) a t = Inr (s, rig)"
      "\<forall>want. expected_rig = Some want \<longrightarrow> rig = want" "identify nw (new_with_wire nw s) cfg = Inr (n, notes)"
      using assms(3) Some by (auto simp: node_connect_def result_simps split: option.splits)
    with r cl show ?thesis by auto
  qed
qed

theorem connection_reaches_the_configured_node_witness:
  "\<exists>n notes. node_connect usb_bench pinned_entry None None = Inr (n, notes)
    \<and> dev_serial (client n) = Some (lit ''E6'')"
proof -
  obtain n where i: "identify usb_bench board pinned_entry = Inr (n, [Not_an_assistant (lit ''a0'') Custom_node])"
    using identify_iff [of pinned_entry usb_bench board] pinned_valid
    by (auto simp: usb_bench_def PROTOCOL_VERSION_def pinned_entry_def usb_entry_def pin_ok_def
        parse_hex_def lit_def hex_value_def is_ascii_digit_def is_ascii_upper_def is_ascii_hexdigit_def)
  have "addr pinned_entry = None" "usb_matches pinned_entry board"
    "reached pinned_entry = Some (Over_usb (Some (lit ''E6'')) None)"
    by (simp_all add: pinned_entry_def usb_entry_def usb_matches_def board_def reached_def)
  moreover have opens: "p cl" if "try_new_raw_nusb usb_bench p = Inr cl" for p cl
    using that by (simp add: usb_bench_def split: if_splits)
  moreover from calculation have c: "node_connect usb_bench pinned_entry None None
      = Inr (n, [Not_an_assistant (lit ''a0'') Custom_node])"
    using i by (simp add: node_connect_def usb_bench_def)
  ultimately show ?thesis
    using connection_reaches_the_configured_node [OF pinned_valid c, of "\<lambda>d. d"] opens by auto
qed

end
