(* ===== verification/Assistant.thy ===== *)
theory Assistant
  imports Icd
begin

text \<open>
  The reference assistant's firmware (\<open>banc-assistant/src/main.rs\<close>): the pin table, the GPIO
  handlers, the pin monitors that run as tasks of a pool beside the request loop, and the
  delayed reset. The executor is cooperative and a handler never awaits while it holds the
  pin table, so what runs between two awaits is one step; a task is kept by the await at
  which it is suspended, and \<open>act\<close> is one step of any of them.

  The hardware pins and the stop signal are third-party code: \<open>pin_lib\<close> holds their operations
  on a pin handle, on the state of the hardware and on a signal, and \<open>signal_ok\<close> is what the
  documentation of the signal promises.
\<close>

section \<open>Hardware\<close>

datatype hw_pull = Hw_none | Hw_up | Hw_down

record ('p, 'h, 'g) pin_lib =
  pin_at :: "nat \<Rightarrow> 'p"
  set_pull :: "hw_pull \<Rightarrow> 'p \<Rightarrow> 'h \<Rightarrow> 'h"
  set_as_input :: "'p \<Rightarrow> 'h \<Rightarrow> 'h"
  set_as_output :: "'p \<Rightarrow> 'h \<Rightarrow> 'h"
  set_low :: "'p \<Rightarrow> 'h \<Rightarrow> 'h"
  set_high :: "'p \<Rightarrow> 'h \<Rightarrow> 'h"
  is_high :: "'p \<Rightarrow> 'h \<Rightarrow> bool"
  hw_boot :: 'h
  sig_new :: 'g
  sig_signal :: "'g \<Rightarrow> 'g"
  sig_reset :: "'g \<Rightarrow> 'g"
  sig_take :: "'g \<Rightarrow> 'g option"

text \<open>
  A new or reset signal is pending; one that was signalled, once or again, is ready; a
  successful wait consumes it.
\<close>

definition signal_ok :: "('p, 'h, 'g) pin_lib \<Rightarrow> bool" where
  "signal_ok lib \<longleftrightarrow> sig_take lib (sig_new lib) = None
     \<and> (\<forall>g. sig_take lib (sig_reset lib g) = None \<and> sig_take lib (sig_signal lib g) \<noteq> None)
     \<and> (\<forall>g g'. sig_take lib g = Some g' \<longrightarrow> sig_take lib g' = None)"

definition NUM_PINS :: nat where
  "NUM_PINS = 8"

definition pin_index :: "u8 \<Rightarrow> nat option" where
  "pin_index banc_pin = (let idx = unat banc_pin in if idx < NUM_PINS then Some idx else None)"

fun icd_pull :: "pull \<Rightarrow> hw_pull" where
  "icd_pull No_pull = Hw_none"
| "icd_pull Pull_up = Hw_up"
| "icd_pull Pull_down = Hw_down"

section \<open>Tasks and the board\<close>

text \<open>
  A monitor task: spawned, answering before it ends, answering before it watches, waiting for
  an edge or the stop signal, publishing an edge.
\<close>

datatype 'p task =
    Spawned nat pin_monitor
  | Replying nat ack_result
  | Announcing nat nat u8 'p
  | Watching nat u8 'p u16
  | Publishing nat u8 'p u16 pin_event

text \<open>What goes back to the host: the response of an endpoint, or the protocol's own error.\<close>

datatype wire_reply = Reply response | Failed_to_spawn

datatype reset_task = No_reset | Reset_replying nat | Reset_waiting

definition POOL_SIZE :: nat where
  "POOL_SIZE = NUM_PINS + 2"

record ('p, 'h, 'g) board =
  chip_id :: u64
  hw :: 'h
  slots :: "'p option list"
  stops :: "'g list"
  pool :: "nat \<Rightarrow> 'p task option"
  resetting :: reset_task
  published :: "(u16 \<times> pin_event) list"
  replies :: "(nat \<times> wire_reply) list"

text \<open>The chip id from the one-time programmable memory; one that cannot be read counts as zero.\<close>

definition otp_id :: "u64 option \<Rightarrow> u64" where
  "otp_id chipid = (case chipid of Some i \<Rightarrow> i | None \<Rightarrow> 0)"

lemma otp_id_simps [simp]: "otp_id (Some i) = i" "otp_id None = 0"
  by (simp_all add: otp_id_def)

text \<open>What \<open>main\<close> sets up, with what reading the chip id gave.\<close>

definition boot :: "('p, 'h, 'g) pin_lib \<Rightarrow> u64 option \<Rightarrow> ('p, 'h, 'g) board" where
  "boot lib chipid =
    \<lparr>chip_id = otp_id chipid, hw = hw_boot lib,
     slots = map (\<lambda>i. Some (pin_at lib i)) [0..<NUM_PINS], stops = replicate NUM_PINS (sig_new lib),
     pool = (\<lambda>_. None), resetting = No_reset, published = [], replies = []\<rparr>"

text \<open>The USB serial string, the sixteen hexadecimal digits of the chip id.\<close>

definition usb_serial :: "('p, 'h, 'g) board \<Rightarrow> rstr" where
  "usb_serial b = hex_pad 16 (unat (chip_id b))"

record usb_descriptor =
  vendor_id :: u16
  product_id :: u16
  manufacturer :: rstr
  usb_product :: rstr
  serial_number :: rstr
  device_class :: u8
  device_sub_class :: u8
  device_protocol :: u8
  composite_with_iads :: bool

definition usb_config :: "rstr \<Rightarrow> usb_descriptor" where
  "usb_config serial =
    \<lparr>vendor_id = 0x16C0, product_id = 0x27DD, manufacturer = lit ''banc'', usb_product = lit ''banc-assistant'',
     serial_number = serial, device_class = 0xEF, device_sub_class = 0x02, device_protocol = 0x01,
     composite_with_iads = True\<rparr>"

text \<open>The serial that the host sees determines the chip id.\<close>

lemma usb_serial_inject:
  "serial_number (usb_config (usb_serial a)) = serial_number (usb_config (usb_serial b)) \<longleftrightarrow> chip_id a = chip_id b"
proof
  assume "serial_number (usb_config (usb_serial a)) = serial_number (usb_config (usb_serial b))"
  then have "parse_hex (usb_serial a) = parse_hex (usb_serial b)" by (simp add: usb_config_def)
  moreover have "unat (chip_id a) < 16 ^ 16" "unat (chip_id b) < 16 ^ 16"
    using unsigned_less [of "chip_id a"] unsigned_less [of "chip_id b"] by simp_all
  ultimately show "chip_id a = chip_id b"
    by (simp add: usb_serial_def parse_hex_pad word_unat_eq_iff)
qed (simp add: usb_serial_def)

section \<open>Handlers of the request loop\<close>

definition identify_handler :: "rstr \<Rightarrow> ('p, 'h, 'g) board \<Rightarrow> identity" where
  "identify_handler pkg_version b =
    \<lparr>id_role = Assistant_node, protocol_version = PROTOCOL_VERSION, device_id = chip_id b,
     fw_name = lit ''banc-assistant'',
     fw_version = (if str_len pkg_version \<le> 16 then pkg_version else [])\<rparr>"

definition slot_pin :: "('p, 'h, 'g) board \<Rightarrow> u8 \<Rightarrow> icd_error + 'p" where
  "slot_pin b pin =
    (case pin_index pin of
       None \<Rightarrow> Inl Unsupported
     | Some idx \<Rightarrow> (case slots b ! idx of None \<Rightarrow> Inl Pin_busy | Some p \<Rightarrow> Inr p))"

definition gpio_config_handler ::
  "('p, 'h, 'g) pin_lib \<Rightarrow> gpio_config \<Rightarrow> ('p, 'h, 'g) board \<Rightarrow> ack_result \<times> ('p, 'h, 'g) board"
  where
  "gpio_config_handler lib rqst b =
    (case slot_pin b (config_pin rqst) of
       Inl e \<Rightarrow> (Inl e, b)
     | Inr p \<Rightarrow> (Inr (), b\<lparr>hw := (case mode rqst of
           Input pl \<Rightarrow> set_as_input lib p (set_pull lib (icd_pull pl) p (hw b))
         | Output \<Rightarrow> set_as_output lib p (set_pull lib Hw_none p (hw b)))\<rparr>))"

definition gpio_set_handler ::
  "('p, 'h, 'g) pin_lib \<Rightarrow> gpio_set \<Rightarrow> ('p, 'h, 'g) board \<Rightarrow> ack_result \<times> ('p, 'h, 'g) board"
  where
  "gpio_set_handler lib rqst b =
    (case slot_pin b (set_pin rqst) of
       Inl e \<Rightarrow> (Inl e, b)
     | Inr p \<Rightarrow> (Inr (), b\<lparr>hw := (case set_level rqst of
           Low \<Rightarrow> set_low lib p (hw b) | High \<Rightarrow> set_high lib p (hw b))\<rparr>))"

definition pin_level :: "('p, 'h, 'g) pin_lib \<Rightarrow> 'p \<Rightarrow> 'h \<Rightarrow> level" where
  "pin_level lib p h = (if is_high lib p h then High else Low)"

definition gpio_read_handler ::
  "('p, 'h, 'g) pin_lib \<Rightarrow> gpio_read \<Rightarrow> ('p, 'h, 'g) board \<Rightarrow> level_result" where
  "gpio_read_handler lib rqst b =
    and_then (slot_pin b (read_pin rqst)) (\<lambda>p. Inr (pin_level lib p (hw b)))"

text \<open>The stubs of the second phase.\<close>

definition uart_config_handler :: "uart_config \<Rightarrow> ack_result" where
  "uart_config_handler rqst = Inl Unsupported"

definition uart_tx_handler :: "chunk \<Rightarrow> ack_result" where
  "uart_tx_handler rqst = Inl Unsupported"

definition spi_transfer_handler :: "spi_transfer \<Rightarrow> chunk_result" where
  "spi_transfer_handler rqst = Inl Unsupported"

definition i2c_transaction_handler :: "i2c_transaction \<Rightarrow> chunk_result" where
  "i2c_transaction_handler rqst = Inl Unsupported"

definition capture_control_handler :: "capture_control \<Rightarrow> capture_status_result" where
  "capture_control_handler rqst = Inl Unsupported"

definition capture_read_handler :: "capture_read \<Rightarrow> capture_chunk_result" where
  "capture_read_handler rqst = Inl Unsupported"

datatype handler_kind = Blocking | Async | Spawn

definition DISPATCH :: "(endpoint \<times> handler_kind) list" where
  "DISPATCH =
    [(Identify_endpoint, Blocking), (Reset_endpoint, Spawn), (Gpio_config_endpoint, Async),
     (Gpio_set_endpoint, Async), (Gpio_read_endpoint, Async), (Pin_monitor_endpoint, Spawn),
     (Uart_config_endpoint, Blocking), (Uart_tx_endpoint, Blocking), (Spi_transfer_endpoint, Blocking),
     (I2c_transaction_endpoint, Blocking), (Capture_control_endpoint, Blocking),
     (Capture_read_endpoint, Blocking)]"

lemma dispatch_is_complete: "map fst DISPATCH = map fst ENDPOINT_LIST"
  by (simp add: DISPATCH_def ENDPOINT_LIST_def)

section \<open>The monitor task\<close>

definition put_pin :: "nat \<Rightarrow> 'p \<Rightarrow> ('p, 'h, 'g) board \<Rightarrow> ('p, 'h, 'g) board" where
  "put_pin idx p b = b\<lparr>slots := (slots b)[idx := Some p]\<rparr>"

definition set_task :: "nat \<Rightarrow> 'p task option \<Rightarrow> ('p, 'h, 'g) board \<Rightarrow> ('p, 'h, 'g) board" where
  "set_task k t b = b\<lparr>pool := (pool b)(k := t)\<rparr>"

text \<open>A reply that cannot be sent is lost; nothing is tried again.\<close>

definition send_reply :: "bool \<Rightarrow> nat \<Rightarrow> wire_reply \<Rightarrow> ('p, 'h, 'g) board \<Rightarrow> ('p, 'h, 'g) board" where
  "send_reply sent seq r b = (if sent then b\<lparr>replies := replies b @ [(seq, r)]\<rparr> else b)"

lemma send_reply_fields [simp]:
  "chip_id (send_reply sent seq r b) = chip_id b" "hw (send_reply sent seq r b) = hw b"
  "slots (send_reply sent seq r b) = slots b" "stops (send_reply sent seq r b) = stops b"
  "pool (send_reply sent seq r b) = pool b" "resetting (send_reply sent seq r b) = resetting b"
  "published (send_reply sent seq r b) = published b"
  "replies (send_reply sent seq r b) = replies b @ (if sent then [(seq, r)] else [])"
  by (simp_all add: send_reply_def)

text \<open>From the first poll to the first await.\<close>

definition monitor_start ::
  "('p, 'h, 'g) pin_lib \<Rightarrow> nat \<Rightarrow> nat \<Rightarrow> pin_monitor \<Rightarrow> ('p, 'h, 'g) board \<Rightarrow> ('p, 'h, 'g) board" where
  "monitor_start lib k seq rqst b =
    (case pin_index (monitor_pin rqst) of
       None \<Rightarrow> set_task k (Some (Replying seq (Inl Unsupported))) b
     | Some idx \<Rightarrow>
         if \<not> monitor_enable rqst then
           set_task k (Some (Replying seq (Inr ())))
             (b\<lparr>stops := (stops b)[idx := sig_signal lib (stops b ! idx)]\<rparr>)
         else (case slots b ! idx of
             None \<Rightarrow> set_task k (Some (Replying seq (Inl Pin_busy))) b
           | Some p \<Rightarrow>
               set_task k (Some (Announcing seq idx (monitor_pin rqst) p))
                 (b\<lparr>slots := (slots b)[idx := None], stops := (stops b)[idx := sig_reset lib (stops b ! idx)]\<rparr>)))"

text \<open>
  From an await to the next one. \<open>sent\<close> is whether the reply or the event got through,
  \<open>edge\<close> whether an edge was seen, at the given time; the stop signal is polled first.
\<close>

definition monitor_resume ::
  "('p, 'h, 'g) pin_lib \<Rightarrow> nat \<Rightarrow> bool \<Rightarrow> bool \<Rightarrow> u64 \<Rightarrow> ('p, 'h, 'g) board \<Rightarrow> ('p, 'h, 'g) board" where
  "monitor_resume lib k sent edge now b =
    (case pool b k of
       None \<Rightarrow> b
     | Some (Spawned seq rqst) \<Rightarrow> monitor_start lib k seq rqst b
     | Some (Replying seq r) \<Rightarrow>
         set_task k None (send_reply sent seq (Reply (Pin_monitor_rsp r)) b)
     | Some (Announcing seq idx pin p) \<Rightarrow>
         if sent then set_task k (Some (Watching idx pin p 0)) (send_reply sent seq (Reply (Pin_monitor_rsp (Inr ()))) b)
         else set_task k None (put_pin idx p b)
     | Some (Watching idx pin p n) \<Rightarrow>
         (case sig_take lib (stops b ! idx) of
            Some g \<Rightarrow> set_task k None (put_pin idx p (b\<lparr>stops := (stops b)[idx := g]\<rparr>))
          | None \<Rightarrow>
              if edge then set_task k (Some (Publishing idx pin p n
                  \<lparr>event_pin = pin, event_level = pin_level lib p (hw b), timestamp_us = now\<rparr>)) b
              else b)
     | Some (Publishing idx pin p n ev) \<Rightarrow>
         set_task k (Some (Watching idx pin p (n + 1)))
           (if sent then b\<lparr>published := published b @ [(n, ev)]\<rparr> else b))"

text \<open>
  The reset task: reply, wait, reset the chip, which boots again and reads its chip id anew
  (\<open>chipid\<close>, of no account in a turn that does not boot).
\<close>

definition reset_resume ::
  "('p, 'h, 'g) pin_lib \<Rightarrow> bool \<Rightarrow> u64 option \<Rightarrow> ('p, 'h, 'g) board \<Rightarrow> ('p, 'h, 'g) board" where
  "reset_resume lib sent chipid b =
    (case resetting b of
       No_reset \<Rightarrow> b
     | Reset_replying seq \<Rightarrow>
         (send_reply sent seq (Reply Reset_rsp) b)\<lparr>resetting := Reset_waiting\<rparr>
     | Reset_waiting \<Rightarrow> (boot lib chipid)\<lparr>published := published b, replies := replies b\<rparr>)"

section \<open>One step of the firmware\<close>

datatype ('p, 'h) action =
    Configure gpio_config
  | Set gpio_set
  | Answer nat wire_reply bool
  | Ask_monitor nat nat pin_monitor
  | Resume nat bool bool u64
  | Ask_reset nat
  | Resume_reset bool "u64 option"
  | World 'h

text \<open>
  A task is spawned into a free place of the pool, whichever it is; which one the pool takes,
  and what is answered when there is none, is the business of the request loop (\<open>Firmware\<close>).
\<close>

fun act :: "('p, 'h, 'g) pin_lib \<Rightarrow> ('p, 'h) action \<Rightarrow> ('p, 'h, 'g) board \<Rightarrow> ('p, 'h, 'g) board" where
  "act lib (Configure rqst) b = snd (gpio_config_handler lib rqst b)"
| "act lib (Set rqst) b = snd (gpio_set_handler lib rqst b)"
| "act lib (Answer seq r sent) b = send_reply sent seq r b"
| "act lib (Ask_monitor k seq rqst) b =
     (if k < POOL_SIZE \<and> pool b k = None then set_task k (Some (Spawned seq rqst)) b else b)"
| "act lib (Resume k sent edge now) b = monitor_resume lib k sent edge now b"
| "act lib (Ask_reset seq) b =
     (if resetting b = No_reset then b\<lparr>resetting := Reset_replying seq\<rparr> else b)"
| "act lib (Resume_reset sent chipid) b = reset_resume lib sent chipid b"
| "act lib (World h) b = b\<lparr>hw := h\<rparr>"

inductive board_reachable :: "('p, 'h, 'g) pin_lib \<Rightarrow> ('p, 'h, 'g) board \<Rightarrow> bool" for lib where
  booted: "board_reachable lib (boot lib chipid)"
| acted: "board_reachable lib b \<Longrightarrow> board_reachable lib (act lib a b)"

text \<open>
  A board keeps its chip id, and so its serial, through whatever it does, a reset included as
  long as the memory reads the same at every boot.
\<close>

fun same_chip :: "u64 \<Rightarrow> ('p, 'h) action \<Rightarrow> bool" where
  "same_chip i (Resume_reset sent chipid) \<longleftrightarrow> otp_id chipid = i"
| "same_chip i a \<longleftrightarrow> True"

lemma chip_id_act: "same_chip (chip_id b) a \<Longrightarrow> chip_id (act lib a b) = chip_id b"
proof (cases a)
  case (Resume k sent edge now)
  then show ?thesis
    by (auto simp: set_task_def put_pin_def monitor_start_def monitor_resume_def split: option.splits task.splits)
qed (auto simp: gpio_config_handler_def gpio_set_handler_def set_task_def reset_resume_def boot_def
    split: sum.split reset_task.split)

lemma chip_id_run: "list_all (same_chip (chip_id b)) acts \<Longrightarrow> chip_id (fold (act lib) acts b) = chip_id b"
  by (induction acts arbitrary: b) (simp_all add: chip_id_act del: act.simps)

lemma usb_serial_run: "list_all (same_chip (chip_id b)) acts \<Longrightarrow> usb_serial (fold (act lib) acts b) = usb_serial b"
  by (simp add: usb_serial_def chip_id_run)

section \<open>Who owns a pin\<close>

fun owner :: "'p task option \<Rightarrow> (nat \<times> 'p) option" where
  "owner (Some (Announcing seq idx pin p)) = Some (idx, p)"
| "owner (Some (Watching idx pin p n)) = Some (idx, p)"
| "owner (Some (Publishing idx pin p n ev)) = Some (idx, p)"
| "owner t = None"

text \<open>
  The pin table and the tasks share the pins: a pin is in its slot or with one task.
\<close>

definition pins_ok :: "('p, 'h, 'g) pin_lib \<Rightarrow> 'p option list \<Rightarrow> (nat \<Rightarrow> 'p task option) \<Rightarrow> bool" where
  "pins_ok lib sl pl \<longleftrightarrow> length sl = NUM_PINS
     \<and> (\<forall>i p. i < NUM_PINS \<longrightarrow> sl ! i = Some p \<longrightarrow> p = pin_at lib i)
     \<and> (\<forall>k i p. owner (pl k) = Some (i, p) \<longrightarrow> i < NUM_PINS \<and> sl ! i = None \<and> p = pin_at lib i)
     \<and> (\<forall>i. i < NUM_PINS \<longrightarrow> sl ! i = None \<longrightarrow> (\<exists>k < POOL_SIZE. owner (pl k) = Some (i, pin_at lib i)))
     \<and> (\<forall>k k' i p p'. owner (pl k) = Some (i, p) \<longrightarrow> owner (pl k') = Some (i, p') \<longrightarrow> k = k')"

lemma pins_okD:
  assumes "pins_ok lib sl pl"
  shows "length sl = NUM_PINS" and "\<And>i p. i < NUM_PINS \<Longrightarrow> sl ! i = Some p \<Longrightarrow> p = pin_at lib i"
    and "\<And>k i p. owner (pl k) = Some (i, p) \<Longrightarrow> i < NUM_PINS \<and> sl ! i = None \<and> p = pin_at lib i"
    and "\<And>i. i < NUM_PINS \<Longrightarrow> sl ! i = None \<Longrightarrow> \<exists>k < POOL_SIZE. owner (pl k) = Some (i, pin_at lib i)"
    and "\<And>k k' i p p'. owner (pl k) = Some (i, p) \<Longrightarrow> owner (pl k') = Some (i, p') \<Longrightarrow> k = k'"
  using assms unfolding pins_ok_def by blast+

text \<open>A task names the pin it owns, and so do its events.\<close>

fun task_ok :: "'p task \<Rightarrow> bool" where
  "task_ok (Announcing seq idx pin p) \<longleftrightarrow> unat pin = idx"
| "task_ok (Watching idx pin p n) \<longleftrightarrow> unat pin = idx"
| "task_ok (Publishing idx pin p n ev) \<longleftrightarrow> unat pin = idx \<and> event_pin ev = pin"
| "task_ok t \<longleftrightarrow> True"

definition board_ok :: "('p, 'h, 'g) pin_lib \<Rightarrow> ('p, 'h, 'g) board \<Rightarrow> bool" where
  "board_ok lib b \<longleftrightarrow> pins_ok lib (slots b) (pool b) \<and> length (stops b) = NUM_PINS
     \<and> (\<forall>k t. pool b k = Some t \<longrightarrow> k < POOL_SIZE \<and> task_ok t)"

lemma pin_index_Some: "pin_index b = Some i \<longleftrightarrow> i = unat b \<and> i < NUM_PINS"
  by (auto simp: pin_index_def Let_def)

lemma pins_ok_same: "pins_ok lib sl pl \<Longrightarrow> owner t = owner (pl k) \<Longrightarrow> pins_ok lib sl (pl(k := t))"
proof -
  assume "owner t = owner (pl k)"
  then have "owner ((pl(k := t)) j) = owner (pl j)" for j by simp
  then show "pins_ok lib sl pl \<Longrightarrow> ?thesis" unfolding pins_ok_def by presburger
qed

lemma pins_okI:
  assumes "length sl = NUM_PINS" and "\<And>i p. i < NUM_PINS \<Longrightarrow> sl ! i = Some p \<Longrightarrow> p = pin_at lib i"
    and "\<And>k i p. owner (pl k) = Some (i, p) \<Longrightarrow> i < NUM_PINS \<and> sl ! i = None \<and> p = pin_at lib i"
    and "\<And>i. i < NUM_PINS \<Longrightarrow> sl ! i = None \<Longrightarrow> \<exists>k < POOL_SIZE. owner (pl k) = Some (i, pin_at lib i)"
    and "\<And>k k' i p p'. owner (pl k) = Some (i, p) \<Longrightarrow> owner (pl k') = Some (i, p') \<Longrightarrow> k = k'"
  shows "pins_ok lib sl pl"
  unfolding pins_ok_def using assms by blast

lemma pins_ok_take:
  assumes ok: "pins_ok lib sl pl" and i: "i < NUM_PINS" "sl ! i = Some p" and k: "k < POOL_SIZE"
    and free: "owner (pl k) = None" and t: "owner t = Some (i, p)"
  shows "pins_ok lib (sl[i := None]) (pl(k := t))"
proof -
  note d = pins_okD [OF ok]
  have upd: "sl[i := None] ! j = (if j = i then None else sl ! j)" for j
    using d(1) i(1) by (simp add: nth_list_update)
  have own: "owner ((pl(k := t)) k') = (if k' = k then Some (i, p) else owner (pl k'))" for k'
    using t by simp
  have no: "owner (pl k') \<noteq> Some (i, q)" for k' q using d(3) [of k' i q] i by auto
  show ?thesis
  proof (rule pins_okI, unfold own upd)
    show "length (sl[i := None]) = NUM_PINS" using d(1) by simp
  next
    show "q = pin_at lib j" if "j < NUM_PINS" "(if j = i then None else sl ! j) = Some q" for j q
      using that d(2) [of j q] by (auto split: if_splits)
  next
    show "j < NUM_PINS \<and> (if j = i then None else sl ! j) = None \<and> q = pin_at lib j"
      if "(if k' = k then Some (i, p) else owner (pl k')) = Some (j, q)" for k' j q
      using that i d(2) [OF i] d(3) [of k' j q] by (auto split: if_splits)
  next
    fix j assume j: "j < NUM_PINS" "(if j = i then None else sl ! j) = None"
    show "\<exists>k1 < POOL_SIZE. (if k1 = k then Some (i, p) else owner (pl k1)) = Some (j, pin_at lib j)"
    proof (cases "j = i")
      case True
      with k d(2) [OF i] show ?thesis by auto
    next
      case False
      with j obtain k1 where "k1 < POOL_SIZE" "owner (pl k1) = Some (j, pin_at lib j)"
        using d(4) [of j] by auto
      moreover from this free have "k1 \<noteq> k" by auto
      ultimately show ?thesis by auto
    qed
  next
    show "k1 = k2" if "(if k1 = k then Some (i, p) else owner (pl k1)) = Some (j, q)"
      "(if k2 = k then Some (i, p) else owner (pl k2)) = Some (j, q')" for k1 k2 j q q'
      using that no [of k1] no [of k2] d(5) [of k1 j q k2 q'] by (auto split: if_splits)
  qed
qed

lemma pins_ok_give:
  assumes ok: "pins_ok lib sl pl" and own: "owner (pl k) = Some (i, p)" and t: "owner t = None"
  shows "pins_ok lib (sl[i := Some p]) (pl(k := t))"
proof -
  note d = pins_okD [OF ok]
  have i: "i < NUM_PINS" "p = pin_at lib i" using d(3) [OF own] by auto
  have upd: "sl[i := Some p] ! j = (if j = i then Some p else sl ! j)" for j
    using d(1) i(1) by (simp add: nth_list_update)
  have own': "owner ((pl(k := t)) k') = (if k' = k then None else owner (pl k'))" for k'
    using t by simp
  show ?thesis
  proof (rule pins_okI, unfold own' upd)
    show "length (sl[i := Some p]) = NUM_PINS" using d(1) by simp
  next
    show "q = pin_at lib j" if "j < NUM_PINS" "(if j = i then Some p else sl ! j) = Some q" for j q
      using that i d(2) [of j q] by (auto split: if_splits)
  next
    show "j < NUM_PINS \<and> (if j = i then Some p else sl ! j) = None \<and> q = pin_at lib j"
      if "(if k' = k then None else owner (pl k')) = Some (j, q)" for k' j q
      using that d(3) [of k' j q] d(5) [OF own, of k' q] by (auto split: if_splits)
  next
    fix j assume j: "j < NUM_PINS" "(if j = i then Some p else sl ! j) = None"
    then obtain k1 where "k1 < POOL_SIZE" "owner (pl k1) = Some (j, pin_at lib j)" and "j \<noteq> i"
      using d(4) [of j] by (auto split: if_splits)
    moreover from this own have "k1 \<noteq> k" by auto
    ultimately show "\<exists>k1 < POOL_SIZE. (if k1 = k then None else owner (pl k1)) = Some (j, pin_at lib j)"
      by auto
  next
    show "k1 = k2" if "(if k1 = k then None else owner (pl k1)) = Some (j, q)"
      "(if k2 = k then None else owner (pl k2)) = Some (j, q')" for k1 k2 j q q'
      using that d(5) [of k1 j q k2 q'] by (auto split: if_splits)
  qed
qed

named_theorems board_defs "the steps of the firmware, unfolded"

lemmas [board_defs] = set_task_def put_pin_def monitor_start_def monitor_resume_def reset_resume_def

lemma board_ok_boot: "board_ok lib (boot lib c)"
  by (simp add: board_ok_def pins_ok_def boot_def)

lemma board_okI:
  assumes "pins_ok lib (slots b) (pool b)" and "length (stops b) = NUM_PINS"
    and "\<And>k t. pool b k = Some t \<Longrightarrow> k < POOL_SIZE \<and> task_ok t"
  shows "board_ok lib b"
  using assms by (simp add: board_ok_def)

lemma board_okD:
  assumes "board_ok lib b"
  shows "pins_ok lib (slots b) (pool b)" and "length (stops b) = NUM_PINS"
    and "\<And>k t. pool b k = Some t \<Longrightarrow> k < POOL_SIZE \<and> task_ok t"
  using assms by (simp_all add: board_ok_def)

text \<open>No more tasks own a pin than there are pins.\<close>

lemma owners_card:
  assumes "board_ok lib b"
  shows "card {k. owner (pool b k) \<noteq> None} \<le> NUM_PINS"
proof -
  note d = pins_okD [OF board_okD(1) [OF assms]]
  have "card {k. owner (pool b k) \<noteq> None} \<le> card {..<NUM_PINS}"
  proof (rule card_inj_on_le [where f = "\<lambda>k. fst (the (owner (pool b k)))"])
    show "inj_on (\<lambda>k. fst (the (owner (pool b k)))) {k. owner (pool b k) \<noteq> None}"
      by (rule inj_onI) (auto dest: d(5))
    show "(\<lambda>k. fst (the (owner (pool b k)))) ` {k. owner (pool b k) \<noteq> None} \<subseteq> {..<NUM_PINS}"
      using d(3) by fastforce
  qed simp
  then show ?thesis by simp
qed

lemma board_ok_start:
  assumes ok: "board_ok lib b" and k: "pool b k = Some (Spawned seq rqst)"
  shows "board_ok lib (monitor_start lib k seq rqst b)"
  using k board_okD [OF ok] pins_ok_same [of lib "slots b" "pool b" _ k]
    pins_ok_take [of lib "slots b" "pool b" _ _ k]
  by (auto intro!: board_okI simp: board_defs pin_index_Some split: option.splits if_splits)

lemma board_ok_resume:
  assumes ok: "board_ok lib b"
  shows "board_ok lib (monitor_resume lib k sent edge now b)"
proof (cases "pool b k")
  case (Some t)
  note d = board_okD [OF ok] board_okD(3) [OF ok Some]
    pins_ok_same [of lib "slots b" "pool b" _ k] pins_ok_give [of lib "slots b" "pool b" k]
  show ?thesis
  proof (cases t)
    case (Spawned seq rqst)
    with Some ok board_ok_start show ?thesis by (simp add: monitor_resume_def)
  qed (use Some d in \<open>auto intro!: board_okI simp: board_defs split: option.splits if_splits\<close>)
qed (use ok in \<open>simp add: monitor_resume_def\<close>)

lemma board_ok_act: "board_ok lib b \<Longrightarrow> board_ok lib (act lib a b)"
proof (cases a)
  case (Ask_monitor k seq rqst)
  moreover assume "board_ok lib b"
  ultimately show ?thesis
    using pins_ok_same [of lib "slots b" "pool b" "Some (Spawned seq rqst)" k]
    by (auto simp: board_ok_def set_task_def)
next
  case (Resume_reset sent chipid)
  moreover assume "board_ok lib b"
  ultimately show ?thesis
    using board_ok_boot [of lib chipid]
    by (auto simp: board_ok_def reset_resume_def split: reset_task.split)
qed (auto simp: board_ok_resume, auto simp: board_ok_def gpio_config_handler_def gpio_set_handler_def split: sum.split)

lemma board_reachable_ok: "board_reachable lib b \<Longrightarrow> board_ok lib b"
  by (induction rule: board_reachable.induct) (simp_all add: board_ok_boot board_ok_act)

text \<open>
  Every event that went out is about a pin of the table, and was about one when it was made.
\<close>

definition events_ok :: "('p, 'h, 'g) board \<Rightarrow> bool" where
  "events_ok b \<longleftrightarrow> (\<forall>(n, ev) \<in> set (published b). unat (event_pin ev) < NUM_PINS)"

lemma events_ok_act:
  assumes ok: "board_ok lib b" and ev: "events_ok b"
  shows "events_ok (act lib a b)"
proof (cases a)
  case (Resume k sent edge now)
  have "unat (event_pin ev) < NUM_PINS" if "pool b k = Some (Publishing i pin p n ev)" for i pin p n ev
    using that board_okD(3) [OF ok that] pins_okD(3) [OF board_okD(1) [OF ok], of k i p] by simp
  with ev Resume show ?thesis
    by (auto simp: events_ok_def board_defs split: option.splits task.splits)
next
  case (Resume_reset sent chipid)
  with ev show ?thesis by (auto simp: events_ok_def reset_resume_def split: reset_task.split)
qed (use ev in \<open>auto simp: events_ok_def set_task_def gpio_config_handler_def gpio_set_handler_def
      split: sum.split\<close>)

lemma board_reachable_events: "board_reachable lib b \<Longrightarrow> events_ok b"
proof (induction rule: board_reachable.induct)
  case (acted b a)
  with board_reachable_ok events_ok_act show ?case by blast
qed (simp add: events_ok_def boot_def)

definition stop_pending :: "('p, 'h, 'g) pin_lib \<Rightarrow> nat \<Rightarrow> ('p, 'h, 'g) board \<Rightarrow> bool" where
  "stop_pending lib i b \<longleftrightarrow> sig_take lib (stops b ! i) \<noteq> None"

text \<open>The awaits that a stopped task still has before it gives its pin back.\<close>

fun awaits_left :: "'p task option \<Rightarrow> nat" where
  "awaits_left (Some (Announcing seq idx pin p)) = 2"
| "awaits_left (Some (Publishing idx pin p n ev)) = 2"
| "awaits_left (Some (Watching idx pin p n)) = 1"
| "awaits_left t = 0"

definition edges_of :: "nat \<Rightarrow> ('p, 'h, 'g) board \<Rightarrow> nat" where
  "edges_of i b = length (filter (\<lambda>(n, ev). unat (event_pin ev) = i) (published b))"

definition stopping ::
  "('p, 'h, 'g) pin_lib \<Rightarrow> nat \<Rightarrow> nat \<Rightarrow> 'p \<Rightarrow> ('p, 'h, 'g) board \<Rightarrow> bool" where
  "stopping lib k i p b \<longleftrightarrow> board_ok lib b \<and> owner (pool b k) = Some (i, p) \<and> stop_pending lib i b"

lemma owner_cases:
  assumes "owner t = Some (i, p)"
  obtains (announcing) seq pin where "t = Some (Announcing seq i pin p)"
    | (watching) pin n where "t = Some (Watching i pin p n)"
    | (publishing) pin n ev where "t = Some (Publishing i pin p n ev)"
  using assms by (cases t rule: owner.cases) auto

lemma owner_awaits: "owner t = Some (i, p) \<Longrightarrow> 0 < awaits_left t \<and> awaits_left t \<le> 2"
  by (erule owner_cases) auto

text \<open>A stopped task that is resumed comes closer to its end.\<close>

lemma stopping_resume_own:
  fixes sent edge :: bool and now :: u64
  assumes s: "stopping lib k i p b" and sg: "signal_ok lib"
  defines "b' \<equiv> monitor_resume lib k sent edge now b"
  shows "slots b' ! i = Some p \<and> edges_of i b' = edges_of i b
    \<or> stopping lib k i p b' \<and> awaits_left (pool b' k) < awaits_left (pool b k)
      \<and> edges_of i b' + awaits_left (pool b' k) \<le> edges_of i b + awaits_left (pool b k)"
proof -
  from s have ok: "board_ok lib b" and o: "owner (pool b k) = Some (i, p)" and st: "stop_pending lib i b"
    by (auto simp: stopping_def)
  have ok': "board_ok lib b'" unfolding b'_def by (rule board_ok_resume [OF ok])
  have i: "i < length (slots b)"
    using pins_okD(1,3) [OF board_okD(1) [OF ok]] o by auto
  show ?thesis
    using o
  proof (cases rule: owner_cases)
    case (announcing seq pin)
    with st i ok' show ?thesis
      by (auto simp: b'_def board_defs stopping_def stop_pending_def edges_of_def)
  next
    case (watching pin n)
    with st i show ?thesis
      by (auto simp: b'_def board_defs stop_pending_def edges_of_def split: option.split)
  next
    case (publishing pin n ev)
    with st ok' show ?thesis
      by (auto simp: b'_def board_defs stopping_def stop_pending_def edges_of_def)
  qed
qed

lemma stopping_resume_other:
  fixes sent edge :: bool and now :: u64
  assumes s: "stopping lib k i p b" and sg: "signal_ok lib" and j: "j \<noteq> k"
  defines "b' \<equiv> monitor_resume lib j sent edge now b"
  shows "stopping lib k i p b' \<and> pool b' k = pool b k \<and> edges_of i b' = edges_of i b"
proof (cases "pool b j")
  case (Some t)
  from s have ok: "board_ok lib b" and o: "owner (pool b k) = Some (i, p)" and st: "stop_pending lib i b"
    by (auto simp: stopping_def)
  have ok': "board_ok lib b'" unfolding b'_def by (rule board_ok_resume [OF ok])
  note d = pins_okD [OF board_okD(1) [OF ok]]
  have i: "i < NUM_PINS" "slots b ! i = None" "length (stops b) = NUM_PINS"
    using d(3) [OF o] board_okD(2) [OF ok] by auto
  have t: "fst q \<noteq> i" if "owner (pool b j) = Some q" for q
    using d(5) [OF o, of j "snd q"] that j by (cases q) auto
  have tok: "task_ok t" using board_okD(3) [OF ok Some] by simp
  show ?thesis
  proof (cases t)
    case (Spawned seq rqst)
    have "stop_pending lib i b'"
      using Some Spawned st sg i by (auto simp: b'_def board_defs stop_pending_def signal_ok_def pin_index_Some
          nth_list_update split: option.splits)
    then show ?thesis
      using Some Spawned o j ok'
      by (auto simp: b'_def board_defs stopping_def edges_of_def split: option.split)
  qed (use Some o st j ok' t tok i in \<open>auto simp: b'_def board_defs stopping_def stop_pending_def
        edges_of_def split: option.split\<close>)
qed (use s in \<open>simp add: b'_def monitor_resume_def\<close>)

fun resumes :: "nat \<Rightarrow> ('p, 'h) action \<Rightarrow> bool" where
  "resumes k (Resume j sent edge now) \<longleftrightarrow> j = k"
| "resumes k a \<longleftrightarrow> False"

lemma stopping_act:
  assumes s: "stopping lib k i p b" and sg: "signal_ok lib"
  shows "slots (act lib a b) ! i = Some p \<and> edges_of i (act lib a b) = edges_of i b
    \<or> stopping lib k i p (act lib a b)
      \<and> awaits_left (pool (act lib a b) k) + (if resumes k a then 1 else 0) \<le> awaits_left (pool b k)
      \<and> edges_of i (act lib a b) + awaits_left (pool (act lib a b) k)
          \<le> edges_of i b + awaits_left (pool b k)"
proof (cases a)
  case (Resume j sent edge now)
  then show ?thesis
    using stopping_resume_own [OF s sg, of sent edge now] stopping_resume_other [OF s sg, of j sent edge now]
    by (cases "j = k") auto
next
  case (Ask_monitor j seq rqst)
  have "board_ok lib (act lib a b)" using s board_ok_act by (auto simp: stopping_def)
  with Ask_monitor s show ?thesis
    by (auto simp: stopping_def set_task_def stop_pending_def edges_of_def)
next
  case (Resume_reset sent chipid)
  have ok: "board_ok lib (act lib a b)" using s board_ok_act by (auto simp: stopping_def)
  have i: "i < NUM_PINS \<and> p = pin_at lib i"
    using s pins_okD(3) by (fastforce simp: stopping_def board_ok_def)
  with Resume_reset s ok show ?thesis
    by (auto simp: stopping_def reset_resume_def stop_pending_def edges_of_def boot_def split: reset_task.splits)
qed (use s in \<open>auto simp: stopping_def stop_pending_def edges_of_def board_ok_def gpio_config_handler_def
      gpio_set_handler_def split: sum.split\<close>)

lemma stopping_run:
  assumes "stopping lib k i p b" and "signal_ok lib"
    and "awaits_left (pool b k) \<le> length (filter (resumes k) acts)"
  shows "\<exists>n \<le> length acts. slots (fold (act lib) (take n acts) b) ! i = Some p
    \<and> Suc (edges_of i (fold (act lib) (take n acts) b)) \<le> edges_of i b + awaits_left (pool b k)"
  using assms(1,3)
proof (induction acts arbitrary: b)
  case Nil
  then show ?case using owner_awaits [of "pool b k" i p] by (auto simp: stopping_def)
next
  case (Cons a acts)
  let ?b = "act lib a b"
  have aw: "0 < awaits_left (pool b k)"
    using owner_awaits [of "pool b k" i p] Cons.prems(1) by (auto simp: stopping_def)
  from stopping_act [OF Cons.prems(1) assms(2), of a] show ?case
  proof (elim disjE conjE)
    assume "slots ?b ! i = Some p" "edges_of i ?b = edges_of i b"
    with aw show ?thesis by (intro exI [of _ 1]) simp
  next
    assume s: "stopping lib k i p ?b"
      and w: "awaits_left (pool ?b k) + (if resumes k a then 1 else 0) \<le> awaits_left (pool b k)"
      and e: "edges_of i ?b + awaits_left (pool ?b k) \<le> edges_of i b + awaits_left (pool b k)"
    have "awaits_left (pool ?b k) \<le> length (filter (resumes k) acts)"
      using Cons.prems(2) w by (auto split: if_splits)
    from Cons.IH [OF s this] obtain n where "n \<le> length acts"
      "slots (fold (act lib) (take n acts) ?b) ! i = Some p"
      "Suc (edges_of i (fold (act lib) (take n acts) ?b)) \<le> edges_of i ?b + awaits_left (pool ?b k)" by auto
    with e show ?thesis by (intro exI [of _ "Suc n"]) simp
  qed
qed

text \<open>A monitor that nobody stops keeps its pin.\<close>

definition stops_pin :: "nat \<Rightarrow> pin_monitor \<Rightarrow> bool" where
  "stops_pin i rqst \<longleftrightarrow> \<not> monitor_enable rqst \<and> unat (monitor_pin rqst) = i"

fun disturbs :: "nat \<Rightarrow> nat \<Rightarrow> ('p, 'h) action \<Rightarrow> bool" where
  "disturbs k i (Ask_monitor j seq rqst) \<longleftrightarrow> stops_pin i rqst"
| "disturbs k i (Resume j sent edge now) \<longleftrightarrow> j = k \<and> \<not> sent"
| "disturbs k i (Resume_reset sent chipid) \<longleftrightarrow> True"
| "disturbs k i a \<longleftrightarrow> False"

definition undisturbed ::
  "('p, 'h, 'g) pin_lib \<Rightarrow> nat \<Rightarrow> nat \<Rightarrow> 'p \<Rightarrow> ('p, 'h, 'g) board \<Rightarrow> bool" where
  "undisturbed lib k i p b \<longleftrightarrow> board_ok lib b \<and> owner (pool b k) = Some (i, p) \<and> \<not> stop_pending lib i b
     \<and> (\<forall>j seq rqst. pool b j = Some (Spawned seq rqst) \<longrightarrow> \<not> stops_pin i rqst)"

lemma undisturbed_resume:
  fixes sent edge :: bool and now :: u64
  assumes u: "undisturbed lib k i p b" and sg: "signal_ok lib" and j: "j = k \<Longrightarrow> sent"
  defines "b' \<equiv> monitor_resume lib j sent edge now b"
  shows "undisturbed lib k i p b'"
proof (cases "pool b j")
  case (Some t)
  from u have ok: "board_ok lib b" and o: "owner (pool b k) = Some (i, p)" and st: "\<not> stop_pending lib i b"
    and no: "\<And>j seq rqst. pool b j = Some (Spawned seq rqst) \<Longrightarrow> \<not> stops_pin i rqst"
    by (auto simp: undisturbed_def)
  have ok': "board_ok lib b'" unfolding b'_def by (rule board_ok_resume [OF ok])
  note d = pins_okD [OF board_okD(1) [OF ok]]
  have i: "i < NUM_PINS" "slots b ! i = None" "length (stops b) = NUM_PINS"
    using d(3) [OF o] board_okD(2) [OF ok] by auto
  have t: "fst q \<noteq> i" if "owner (pool b j) = Some q" "j \<noteq> k" for q
    using d(5) [OF o, of j "snd q"] that by (cases q) auto
  show ?thesis
  proof (cases t)
    case (Spawned seq rqst)
    then have jk: "j \<noteq> k" using o Some by auto
    have "\<not> stop_pending lib i b'"
      using Some Spawned st sg i no [of j seq rqst]
      by (auto simp: b'_def board_defs stop_pending_def signal_ok_def pin_index_Some stops_pin_def
          nth_list_update split: option.splits)
    then show ?thesis
      using Some Spawned o jk ok' no
      by (auto simp: b'_def board_defs undisturbed_def split: option.splits if_splits)
  qed (use Some o st j ok' t i no in \<open>auto simp: b'_def board_defs undisturbed_def stop_pending_def
        nth_list_update split: option.splits if_splits\<close>)
qed (use u in \<open>simp add: b'_def monitor_resume_def\<close>)

lemma undisturbed_act:
  assumes u: "undisturbed lib k i p b" and sg: "signal_ok lib" and "\<not> disturbs k i a"
  shows "undisturbed lib k i p (act lib a b)"
proof (cases a)
  case (Resume j sent edge now)
  with undisturbed_resume [OF u sg, of j sent edge now] assms(3) show ?thesis by simp
next
  case (Ask_monitor j seq rqst)
  have "board_ok lib (act lib a b)" using u board_ok_act by (auto simp: undisturbed_def)
  with Ask_monitor u assms(3) show ?thesis
    by (auto simp: undisturbed_def set_task_def stop_pending_def split: if_splits)
qed (use u assms(3) in \<open>auto simp: undisturbed_def stop_pending_def board_ok_def gpio_config_handler_def
      gpio_set_handler_def split: sum.split\<close>)

lemma undisturbed_run:
  "undisturbed lib k i p b \<Longrightarrow> signal_ok lib \<Longrightarrow> list_all (\<lambda>a. \<not> disturbs k i a) acts \<Longrightarrow>
   undisturbed lib k i p (fold (act lib) acts b)"
  by (induction acts arbitrary: b) (simp_all add: undisturbed_act)

section \<open>Properties\<close>

text \<open>What a request for a pin should be answered, told by the tasks and not by the table.\<close>

definition pin_answer :: "('p, 'h, 'g) pin_lib \<Rightarrow> ('p, 'h, 'g) board \<Rightarrow> u8 \<Rightarrow> icd_error + 'p" where
  "pin_answer lib b pin =
    (if NUM_PINS \<le> unat pin then Inl Unsupported
     else if list_ex (\<lambda>k. owner (pool b k) = Some (unat pin, pin_at lib (unat pin))) [0..<POOL_SIZE]
     then Inl Pin_busy else Inr (pin_at lib (unat pin)))"

lemma slot_pin_answer:
  assumes "board_ok lib b"
  shows "slot_pin b pin = pin_answer lib b pin"
proof (cases "unat pin < NUM_PINS")
  case True
  note d = pins_okD [OF board_okD(1) [OF assms]]
  show ?thesis
  proof (cases "slots b ! unat pin")
    case None
    with True d(4) obtain k where "k < POOL_SIZE" "owner (pool b k) = Some (unat pin, pin_at lib (unat pin))"
      by blast
    then have "list_ex (\<lambda>k. owner (pool b k) = Some (unat pin, pin_at lib (unat pin))) [0..<POOL_SIZE]"
      by (auto simp: list_ex_iff)
    with True None show ?thesis by (simp add: slot_pin_def pin_answer_def pin_index_def)
  next
    case (Some p)
    then have "owner (pool b k) \<noteq> Some (unat pin, q)" for k q using d(3) [of k "unat pin" q] by auto
    with True Some d(2) show ?thesis
      by (auto simp: slot_pin_def pin_answer_def pin_index_def list_ex_iff)
  qed
qed (simp add: slot_pin_def pin_answer_def pin_index_def)

text \<open>
  C31: a pin is in the table or with one monitor, never with two and never lost. In every
  reachable state of the firmware the GPIO requests are answered by who holds the pin: not
  supported beyond the table, busy exactly while a monitor task holds it, and otherwise done
  on that very pin; no two tasks hold the same pin, and the monitors never hold all places of the pool, which
  the requests to stop them need.
\<close>

theorem every_pin_has_one_owner:
  assumes "board_reachable lib b"
  shows "(\<forall>r. fst (gpio_config_handler lib r b) = map_sum id (\<lambda>_. ()) (pin_answer lib b (config_pin r)))
    \<and> (\<forall>r. fst (gpio_set_handler lib r b) = map_sum id (\<lambda>_. ()) (pin_answer lib b (set_pin r)))
    \<and> (\<forall>r. gpio_read_handler lib r b = map_sum id (\<lambda>p. pin_level lib p (hw b)) (pin_answer lib b (read_pin r)))
    \<and> (\<forall>k k' i p p'. owner (pool b k) = Some (i, p) \<longrightarrow> owner (pool b k') = Some (i, p') \<longrightarrow> k = k')
    \<and> card {k. owner (pool b k) \<noteq> None} < POOL_SIZE"
proof -
  have ok: "board_ok lib b" by (rule board_reachable_ok [OF assms])
  note d = pins_okD [OF board_okD(1) [OF ok]]
  have "card {k. owner (pool b k) \<noteq> None} < POOL_SIZE"
    using owners_card [OF ok] by (simp add: POOL_SIZE_def)
  moreover have "and_then a (\<lambda>p. Inr (f p)) = map_sum id f a" for a :: "icd_error + 'a" and f :: "'a \<Rightarrow> level"
    by (cases a) simp_all
  ultimately show ?thesis
    using d(5) by (auto simp: gpio_config_handler_def gpio_set_handler_def gpio_read_handler_def
        slot_pin_answer [OF ok] split: sum.split)
qed

text \<open>
  C32: a monitor that is asked to stop gives its pin back, whatever it was doing and whatever
  else happens. Once the request has been handled, two more turns of the monitor's task are
  enough, in any interleaving with other requests, tasks, edges and resets; the pin is then
  back in its slot and at most one more edge of it has been published.
\<close>

theorem stopped_monitor_returns_its_pin:
  assumes "board_reachable lib b" and "signal_ok lib"
    and "pool b j = Some (Spawned seq rqst)" and "\<not> monitor_enable rqst"
    and "owner (pool b k) = Some (unat (monitor_pin rqst), p)"
    and "2 \<le> length (filter (resumes k) acts)"
  shows "\<exists>n \<le> length acts.
    let b' = fold (act lib) (take n acts) (act lib (Resume j sent edge now) b) in
      slots b' ! unat (monitor_pin rqst) = Some p
      \<and> edges_of (unat (monitor_pin rqst)) b' \<le> Suc (edges_of (unat (monitor_pin rqst)) b)"
proof -
  let ?i = "unat (monitor_pin rqst)" and ?b = "act lib (Resume j sent edge now) b"
  have ok: "board_ok lib b" by (rule board_reachable_ok [OF assms(1)])
  have i: "?i < NUM_PINS" "length (stops b) = NUM_PINS"
    using pins_okD(3) [OF board_okD(1) [OF ok] assms(5)] board_okD(2) [OF ok] by auto
  have jk: "j \<noteq> k" using assms(3,5) by auto
  have s: "stopping lib k ?i p ?b"
    using board_ok_act [OF ok, of "Resume j sent edge now"] assms(2-5) i jk
    by (auto simp: stopping_def board_defs stop_pending_def signal_ok_def pin_index_def Let_def)
  have same: "pool ?b k = pool b k" "edges_of ?i ?b = edges_of ?i b"
    using assms(3,4) i jk by (simp_all add: board_defs pin_index_def edges_of_def)
  have aw: "awaits_left (pool b k) \<le> 2" using owner_awaits [OF assms(5)] by simp
  from stopping_run [OF s assms(2), of acts] aw assms(6) same show ?thesis
    by (fastforce simp: Let_def)
qed

text \<open>
  C33: a stop request does not outlive the monitor it was meant for. A monitor that is
  started on a free pin drops whatever request was still pending, and then keeps its pin,
  whatever else happens, until someone asks to stop that pin, a reply or an event of its own
  cannot be sent, or the chip is reset.
\<close>

theorem new_monitor_ignores_old_stops:
  assumes "board_reachable lib b" and "signal_ok lib"
    and "pool b k = Some (Spawned seq rqst)" and "monitor_enable rqst"
    and "pin_index (monitor_pin rqst) = Some i" and "slots b ! i = Some p"
    and "\<forall>j seq rqst. pool b j = Some (Spawned seq rqst) \<longrightarrow> \<not> stops_pin i rqst"
    and "list_all (\<lambda>a. \<not> disturbs k i a) acts"
  shows "owner (pool (fold (act lib) acts (act lib (Resume k sent edge now) b)) k) = Some (i, p)
    \<and> \<not> stop_pending lib i (fold (act lib) acts (act lib (Resume k sent edge now) b))"
proof -
  have ok: "board_ok lib b" by (rule board_reachable_ok [OF assms(1)])
  have i: "i < length (stops b)" using assms(5) board_okD(2) [OF ok] by (simp add: pin_index_Some)
  have "undisturbed lib k i p (act lib (Resume k sent edge now) b)"
    using board_ok_act [OF ok, of "Resume k sent edge now"] assms(2-7) i
    by (auto simp: undisturbed_def board_defs stop_pending_def signal_ok_def)
  from undisturbed_run [OF this assms(2,8)] show ?thesis by (simp add: undisturbed_def)
qed

text \<open>
  C26: the firmware's state is well typed, so that nothing in it can panic on an index or
  overflow a bounded string. In every reachable state the pin table and the stop signals have
  one entry per pin, every index that a request or a task uses lies inside both, tasks live in
  the places of the pool, every event that went out names a pin of the table, and the identity
  fits the capacities of its message whatever the version of the package is.
\<close>

theorem firmware_state_is_well_typed:
  assumes "board_reachable lib b"
  shows "length (slots b) = NUM_PINS \<and> length (stops b) = NUM_PINS
    \<and> (\<forall>pin i. pin_index pin = Some i \<longrightarrow> i < length (slots b) \<and> i < length (stops b))
    \<and> (\<forall>k t. pool b k = Some t \<longrightarrow> k < POOL_SIZE)
    \<and> (\<forall>k i p. owner (pool b k) = Some (i, p) \<longrightarrow> i < length (slots b) \<and> i < length (stops b))
    \<and> (\<forall>(n, ev) \<in> set (published b). pin_index (event_pin ev) \<noteq> None)
    \<and> identity_fits (identify_handler pkg_version b)"
proof -
  have ok: "board_ok lib b" by (rule board_reachable_ok [OF assms])
  note d = board_okD [OF ok] pins_okD(1,3) [OF board_okD(1) [OF ok]]
  have "str_len (lit ''banc-assistant'') \<le> 32" by (simp add: lit_def str_len_ascii)
  then have "identity_fits (identify_handler pkg_version b)"
    by (simp add: identity_fits_def identify_handler_def str_len_def)
  moreover have "\<forall>(n, ev) \<in> set (published b). pin_index (event_pin ev) \<noteq> None"
    using board_reachable_events [OF assms] by (auto simp: events_ok_def pin_index_def Let_def)
  ultimately show ?thesis
    using d by (auto simp: pin_index_Some)
qed

text \<open>Hardware for the instances: a pin is its number, a signal a flag.\<close>

definition plain_pins :: "(nat, nat \<Rightarrow> bool, bool) pin_lib" where
  "plain_pins = \<lparr>pin_at = (\<lambda>i. i + 2), set_pull = (\<lambda>pl p h. h(p := pl = Hw_up)), set_as_input = (\<lambda>p h. h),
     set_as_output = (\<lambda>p h. h), set_low = (\<lambda>p h. h(p := False)), set_high = (\<lambda>p h. h(p := True)),
     is_high = (\<lambda>p h. h p), hw_boot = (\<lambda>_. False), sig_new = False, sig_signal = (\<lambda>_. True),
     sig_reset = (\<lambda>_. False), sig_take = (\<lambda>g. if g then Some False else None)\<rparr>"

lemma plain_signal: "signal_ok plain_pins"
  by (simp add: signal_ok_def plain_pins_def)

definition monitor_rq :: "u8 \<Rightarrow> bool \<Rightarrow> pin_monitor" where
  "monitor_rq pin on = \<lparr>monitor_pin = pin, monitor_enable = on\<rparr>"

text \<open>Pin 3 is monitored, then a request to stop it arrives.\<close>

definition watched_board :: "(nat, nat \<Rightarrow> bool, bool) board" where
  "watched_board = fold (act plain_pins)
     [Ask_monitor 0 10 (monitor_rq 3 True), Resume 0 True False 0, Resume 0 True False 0,
      Ask_monitor 1 11 (monitor_rq 3 False)] (boot plain_pins None)"

lemma reachable_fold: "board_reachable lib b \<Longrightarrow> board_reachable lib (fold (act lib) acts b)"
  by (induction acts arbitrary: b) (auto intro: board_reachable.acted)

lemmas plain_simps = plain_pins_def boot_def monitor_rq_def board_defs pin_index_def NUM_PINS_def POOL_SIZE_def

lemma watched_board_reachable: "board_reachable plain_pins watched_board"
  unfolding watched_board_def by (rule reachable_fold [OF board_reachable.booted])

lemma watched_board_simps:
  "pool watched_board 0 = Some (Watching 3 3 5 0)" "slots watched_board ! 3 = None"
  "pool watched_board 1 = Some (Spawned 11 (monitor_rq 3 False))"
  "edges_of 3 watched_board = 0"
  by (simp_all add: watched_board_def plain_simps upt_rec edges_of_def)

theorem every_pin_has_one_owner_witness:
  "fst (gpio_set_handler plain_pins \<lparr>set_pin = 3, set_level = High\<rparr> watched_board) = Inl Pin_busy"
  using every_pin_has_one_owner [OF watched_board_reachable]
  by (simp add: pin_answer_def watched_board_simps plain_pins_def NUM_PINS_def POOL_SIZE_def upt_rec)

theorem firmware_state_is_well_typed_witness:
  "3 < length (slots watched_board) \<and> identity_fits (identify_handler (lit ''0.0.1'') watched_board)"
  using firmware_state_is_well_typed [OF watched_board_reachable, of "lit ''0.0.1''"]
  by (simp add: NUM_PINS_def)

theorem stopped_monitor_returns_its_pin_witness:
  "\<exists>n \<le> 2. slots (fold (act plain_pins) (take n [Resume 0 True True 9, Resume 0 True True 9])
      (act plain_pins (Resume 1 True False 0) watched_board)) ! 3 = Some 5"
proof -
  define b where "b = act plain_pins (Resume 1 True False 0) watched_board"
  define acts :: "(nat, nat \<Rightarrow> bool) action list"
    where "acts = [Resume 0 True True 9, Resume 0 True True 9]"
  have acts: "2 \<le> length (filter (resumes 0) acts)" "length acts = 2"
    by (simp_all add: acts_def)
  have rq: "\<not> monitor_enable (monitor_rq 3 False)" "unat (monitor_pin (monitor_rq 3 False)) = 3"
    and own: "owner (pool watched_board 0) = Some (unat (monitor_pin (monitor_rq 3 False)), 5)"
    by (simp_all add: monitor_rq_def watched_board_simps)
  from stopped_monitor_returns_its_pin [OF watched_board_reachable plain_signal watched_board_simps(3)
      rq(1) own acts(1), of True False 0]
  show ?thesis unfolding b_def [symmetric] acts_def [symmetric] rq(2) acts(2) Let_def by blast
qed

theorem new_monitor_ignores_old_stops_witness:
  "let b = fold (act plain_pins) [Ask_monitor 0 1 (monitor_rq 3 False), Resume 0 True False 0,
        Resume 0 True False 0, Ask_monitor 0 2 (monitor_rq 3 True)] (boot plain_pins None)
   in stop_pending plain_pins 3 b \<and>
      owner (pool (fold (act plain_pins) [Resume 0 True False 0, Resume 0 True True 4]
        (act plain_pins (Resume 0 True False 0) b)) 0) = Some (3, 5)"
proof -
  define b where "b = fold (act plain_pins) [Ask_monitor 0 1 (monitor_rq 3 False), Resume 0 True False 0,
        Resume 0 True False 0, Ask_monitor 0 2 (monitor_rq 3 True)] (boot plain_pins None)"
  have r: "board_reachable plain_pins b"
    unfolding b_def by (rule reachable_fold [OF board_reachable.booted])
  have p: "pool b 0 = Some (Spawned 2 (monitor_rq 3 True))" "pool b = (\<lambda>_. None)(0 := pool b 0)"
    "slots b ! 3 = Some 5" "stop_pending plain_pins 3 b"
    by (simp_all add: b_def plain_simps upt_rec stop_pending_def fun_eq_iff)
  have "\<forall>j seq rqst. pool b j = Some (Spawned seq rqst) \<longrightarrow> \<not> stops_pin 3 rqst"
    by (subst p(2)) (auto simp: p(1) stops_pin_def monitor_rq_def)
  from new_monitor_ignores_old_stops [OF r plain_signal p(1) _ _ p(3) this,
      of "[Resume 0 True False 0, Resume 0 True True 4]" True False 0]
  show ?thesis unfolding b_def [symmetric] Let_def
    by (simp add: p(4) monitor_rq_def pin_index_def NUM_PINS_def)
qed

end
