(* ===== verification/Deployment.thy ===== *)
theory Deployment
  imports Node Assistant
begin

text \<open>
  The host and the firmware together. The boards of a bench are states of the firmware
  (\<open>banc-assistant/src/main.rs\<close>); what the host sees of a board on USB is the descriptor that
  the board builds when it boots, and what a connection to it answers is the board's own
  handler. Over these the host's path from a configuration entry to a node
  (\<open>banc-host/src/rig.rs\<close>, \<open>node.rs\<close>) is run. The USB enumeration offers the attached boards in
  some order, and the message protocol delivers requests and replies unchanged.
\<close>

section \<open>A bench of boards\<close>

definition seen_on_usb :: "('p, 'h, 'g) board \<Rightarrow> usb_device" where
  "seen_on_usb b =
    (let d = usb_config (usb_serial b)
     in \<lparr>dev_serial = Some (serial_number d), dev_product = Some (usb_product d)\<rparr>)"

definition attached ::
  "rstr \<Rightarrow> 'e \<Rightarrow> ('p, 'h, 'g) board list \<Rightarrow> (('p, 'h, 'g) board, 'e) node_world
   \<Rightarrow> (('p, 'h, 'g) board, 'e) node_world" where
  "attached pkg_version absent boards nw =
    nw\<lparr>send_identify := (\<lambda>b. Inr (identify_handler pkg_version b)),
       try_new_raw_nusb := (\<lambda>p. case find (\<lambda>b. p (seen_on_usb b)) boards of
         Some b \<Rightarrow> Inr b | None \<Rightarrow> Inl absent)\<rparr>"

lemma identify_run:
  "list_all (same_chip (chip_id b)) acts \<Longrightarrow> identify_handler v (fold (act lib) acts b) = identify_handler v b"
  by (simp add: identify_handler_def chip_id_run)

lemma usb_serial_eq_iff: "usb_serial a = usb_serial b \<longleftrightarrow> chip_id a = chip_id b"
  using usb_serial_inject [of a b] by (simp add: usb_config_def)

lemma usb_matches_seen:
  "usb_matches cfg (seen_on_usb b) \<longleftrightarrow>
   (\<forall>s. serial cfg = Some s \<longrightarrow> usb_serial b = s) \<and> (\<forall>p. product cfg = Some p \<longrightarrow> p = lit ''banc-assistant'')"
  by (auto simp: usb_matches_def seen_on_usb_def usb_config_def Let_def split: option.split)

lemma find_by_key:
  assumes "distinct (map f xs)" and "x \<in> set xs" and "\<And>y. y \<in> set xs \<Longrightarrow> P y \<longleftrightarrow> f y = f x"
  shows "find P xs = Some x"
  using assms by (induction xs) force+

lemma usb_entry_reach:
  assumes "reached cfg \<noteq> None" and "serial cfg \<noteq> None"
  shows "addr cfg = None \<and> token_file cfg = None"
  using assms
  by (cases "(addr cfg, token_file cfg, serial cfg, product cfg)" rule: reach_of.cases)
    (auto simp: reached_def split: if_splits)

section \<open>From the configuration to the board\<close>

text \<open>
  C15: an assistant that is pinned by its serial is reached, and nothing else is. On a bench
  of boards with different chip ids, in whatever order the enumeration lists them and
  whatever each has done since it booted (a reset included, after which its memory reads the
  same chip id), the fixture's lookup succeeds
  exactly when a board with that serial is attached that also is the device of the entry's
  unique id. The connection is to this board, it reports the identity the board had from the
  beginning, and the host has nothing to remark on it.
\<close>

theorem pinned_assistant_is_reached:
  assumes "validate (config fx) = Inr ()" and "assistant (config fx) name = Some cfg"
    and "serial cfg \<noteq> None" and "product cfg = None \<or> product cfg = Some (lit ''banc-assistant'')"
    and "distinct (map chip_id boards)"
    and "\<forall>b \<in> set boards. list_all (same_chip (chip_id b)) (history b)"
  shows "rig_assistant h (node_connect (attached v absent (map (\<lambda>b. fold (act lib) (history b) b) boards) nw)) fx name
      = Inr (n, notes) \<longleftrightarrow>
    (\<exists>b \<in> set boards. serial cfg = Some (usb_serial b)
      \<and> (\<forall>want. unique_id cfg = Some want \<longrightarrow> unat (chip_id b) = parse_hex want)
      \<and> n = \<lparr>client = fold (act lib) (history b) b, identity_of = identify_handler v b\<rparr> \<and> notes = [])"
proof -
  let ?run = "\<lambda>b. fold (act lib) (history b) b"
  let ?bench = "attached v absent (map ?run boards) nw"
  have "cfg \<in> set (assistants (config fx))"
    using assms(2) by (auto simp: assistant_def find_Some_iff)
  then have ok: "reached cfg \<noteq> None" "pin_ok cfg"
    using assms(1) by (auto simp: validate_ok well_formed_def)
  have usb: "addr cfg = None" "token_file cfg = None"
    using usb_entry_reach [OF ok(1) assms(3)] by simp_all
  obtain s where s: "serial cfg = Some s" using assms(3) by auto
  have kept: "usb_serial (?run b) = usb_serial b" "chip_id (?run b) = chip_id b"
    "identify_handler v (?run b) = identify_handler v b" if "b \<in> set boards" for b
    using assms(6) that by (simp_all add: usb_serial_run chip_id_run identify_run)
  have match: "usb_matches cfg (seen_on_usb (?run b)) \<longleftrightarrow> usb_serial b = s" if "b \<in> set boards" for b
    using assms(4) s kept [OF that] by (auto simp: usb_matches_seen)
  have rig: "rig_assistant h (node_connect ?bench) fx name = Inr (n, notes)
      \<longleftrightarrow> node_connect ?bench cfg None (rig_name (rig (config fx))) = Inr (n, notes)"
    using assms(2) usb(2) by (simp add: rig_assistant_def token_opt_def result_simps)
  have id: "identify ?bench (?run b) cfg = Inr (n, notes) \<longleftrightarrow>
      (\<forall>want. unique_id cfg = Some want \<longrightarrow> unat (chip_id b) = parse_hex want)
      \<and> n = \<lparr>client = ?run b, identity_of = identify_handler v b\<rparr> \<and> notes = []" if "b \<in> set boards" for b
    using kept(3) [OF that]
    by (auto simp: identify_iff [OF ok(2)] attached_def) (simp_all add: identify_handler_def)
  show ?thesis
  proof (cases "\<exists>b \<in> set boards. usb_serial b = s")
    case False
    then have "find (\<lambda>b. usb_matches cfg (seen_on_usb b)) (map ?run boards) = None"
      using match by (auto simp: find_None_iff)
    then have "node_connect ?bench cfg None (rig_name (rig (config fx))) \<noteq> Inr (n, notes)"
      using usb(1) by (simp add: node_connect_def attached_def)
    moreover have "\<not> (\<exists>b \<in> set boards. serial cfg = Some (usb_serial b))" using False s by auto
    ultimately show ?thesis using rig by blast
  next
    case True
    then obtain b where b: "b \<in> set boards" "usb_serial b = s" by blast
    have same: "c = b" if "c \<in> set boards" "usb_serial c = s" for c
      using that b assms(5) usb_serial_eq_iff [of c b] by (auto simp: distinct_map dest: inj_onD)
    have "find (\<lambda>b. usb_matches cfg (seen_on_usb b)) (map ?run boards) = Some (?run b)"
    proof (rule find_by_key [where f = chip_id])
      have "map chip_id (map ?run boards) = map chip_id boards" using kept(2) by simp
      then show "distinct (map chip_id (map ?run boards))" using assms(5) by (simp only:)
      show "usb_matches cfg (seen_on_usb c) \<longleftrightarrow> chip_id c = chip_id (?run b)"
        if c: "c \<in> set (map ?run boards)" for c
      proof -
        obtain a where a: "a \<in> set boards" "c = ?run a" using c by auto
        then show ?thesis using match [OF a(1)] b(2) usb_serial_eq_iff [of a b] kept(2) b(1) by simp
      qed
    qed (use b in simp)
    then have "node_connect ?bench cfg None (rig_name (rig (config fx))) = identify ?bench (?run b) cfg"
      using usb(1) by (simp add: node_connect_def attached_def)
    then have "rig_assistant h (node_connect ?bench) fx name = Inr (n, notes) \<longleftrightarrow>
        (\<forall>want. unique_id cfg = Some want \<longrightarrow> unat (chip_id b) = parse_hex want)
        \<and> n = \<lparr>client = ?run b, identity_of = identify_handler v b\<rparr> \<and> notes = []"
      using rig id [OF b(1)] by (simp only:)
    moreover have "serial cfg = Some (usb_serial b)" using s b(2) by simp
    moreover have "c = b" if "c \<in> set boards" "serial cfg = Some (usb_serial c)" for c
    proof (rule same)
      show "c \<in> set boards" by (fact that(1))
      show "usb_serial c = s" using that(2) s by simp
    qed
    ultimately show ?thesis using b(1) by blast
  qed
qed

text \<open>Two boards, of which the second has been reset since it booted.\<close>

definition two_boards :: "(nat, nat \<Rightarrow> bool, bool) board list" where
  "two_boards = [boot plain_pins (Some 0xE7), boot plain_pins (Some 0xE6)]"

definition was_reset :: "(nat, nat \<Rightarrow> bool, bool) board \<Rightarrow> (nat, nat \<Rightarrow> bool) action list" where
  "was_reset b = (if chip_id b = 0xE6 then [Ask_reset 1, Resume_reset True (Some 0xE6), Resume_reset True (Some 0xE6)] else [])"

definition serial_entry :: assistant_config where
  "serial_entry = (usb_entry ''a0'' ''00000000000000E6'')\<lparr>unique_id := Some (lit ''00000000000000e6'')\<rparr>"

lemma hex_pad_numeral:
  "hex_pad (numeral k) n = hex_pad (pred_numeral k) (n div 16) @ [hex_digit (n mod 16)]"
  by (subst numeral_eq_Suc) (rule hex_pad.simps(2))

definition bench_fixture :: "(unit, fdesc, unit) rig_fixture" where
  "bench_fixture = \<lparr>config = plain_config [serial_entry], base_dir = path_of (lit ''/home''),
     hold = Flock \<lparr>fd_inode = 0, fd_pid = 7, fd_id = 1\<rparr>\<rparr>"

definition no_network :: "((nat, nat \<Rightarrow> bool, bool) board, unit) node_world" where
  "no_network =
    \<lparr>send_identify = (\<lambda>_. Inl ()), send_reset = (\<lambda>_. Inr ()), try_new_raw_nusb = (\<lambda>_. Inl ()),
     new_with_wire = (\<lambda>_. boot plain_pins None), tcp_connect = (\<lambda>_. Inl (Os_error 111)),
     hello_codec = text_hello, reply_codec = text_reply, debug_build = False\<rparr>"

lemma serial_entry_valid:
  "validate (config bench_fixture) = Inr ()"
  "assistant (config bench_fixture) (lit ''a0'') = Some serial_entry"
proof -
  have "list_all is_ascii_hexdigit (lit ''00000000000000e6'')" "length (lit ''00000000000000e6'') = 16"
    by (simp_all add: lit_def is_ascii_hexdigit_def is_ascii_digit_def)
  then show "validate (config bench_fixture) = Inr ()"
    by (simp add: bench_fixture_def validate_ok well_formed_def names_ok_def plain_config_def serial_entry_def
        usb_entry_def reached_def pin_ok_def blank_def lit_def is_whitespace_def)
  show "assistant (config bench_fixture) (lit ''a0'') = Some serial_entry"
    by (simp add: bench_fixture_def assistant_def plain_config_def serial_entry_def usb_entry_def)
qed

theorem pinned_assistant_is_reached_witness:
  "\<exists>n. rig_assistant bench (node_connect (attached [] ()
      (map (\<lambda>b. fold (act plain_pins) (was_reset b) b) two_boards) no_network)) bench_fixture (lit ''a0'') = Inr (n, [])
    \<and> device_id (identity_of n) = 0xE6"
proof -
  have "serial serial_entry \<noteq> None" "product serial_entry = None" "distinct (map chip_id two_boards)"
    by (simp_all add: serial_entry_def usb_entry_def two_boards_def boot_def)
  moreover have "serial serial_entry = Some (usb_serial (boot plain_pins (Some 0xE6)))"
    by (simp add: serial_entry_def usb_entry_def usb_serial_def boot_def lit_def hex_pad_numeral hex_digit_def)
  moreover have "\<forall>want. unique_id serial_entry = Some want \<longrightarrow> unat (chip_id (boot plain_pins (Some 0xE6))) = parse_hex want"
    by (simp add: serial_entry_def usb_entry_def boot_def parse_hex_def lit_def hex_value_def is_ascii_digit_def
        is_ascii_upper_def)
  moreover have "\<forall>b \<in> set two_boards. list_all (same_chip (chip_id b)) (was_reset b)"
    by (simp add: two_boards_def was_reset_def boot_def)
  ultimately show ?thesis
    using pinned_assistant_is_reached [OF serial_entry_valid, of two_boards was_reset bench "[]" "()" plain_pins no_network _ "[]"]
    by (auto simp: two_boards_def identify_handler_def boot_def)
qed

end
