(* ===== verification/Firmware.thy ===== *)
theory Firmware
  imports Assistant "HOL-Library.Multiset"
begin

text \<open>
  The firmware as its host sees it: the dispatch table of \<open>banc-assistant/src/main.rs\<close> with a
  handler for every request of the interface control document, and the loop of \<open>main\<close> around
  the message server. What the message library does with a row of the table is documented: the
  result of a blocking or async handler is sent as the reply, a handler of kind spawn becomes
  a task, and when its pool has no place left an error is sent instead. Decoding requests and
  encoding replies is the library's. The properties account for the replies: none is made up,
  none is sent twice, and none is forgotten.
\<close>

section \<open>The dispatch table\<close>

text \<open>A pool hands out its first free place.\<close>

definition free_place :: "('p, 'h, 'g) board \<Rightarrow> nat option" where
  "free_place b = find (\<lambda>k. pool b k = None) [0..<POOL_SIZE]"

definition spawn_monitor ::
  "('p, 'h, 'g) pin_lib \<Rightarrow> nat \<Rightarrow> bool \<Rightarrow> pin_monitor \<Rightarrow> ('p, 'h, 'g) board \<Rightarrow> ('p, 'h, 'g) board" where
  "spawn_monitor lib seq sent rqst b =
    (case free_place b of
       Some k \<Rightarrow> act lib (Ask_monitor k seq rqst) b
     | None \<Rightarrow> act lib (Answer seq Failed_to_spawn sent) b)"

text \<open>The reset handler has a pool of one.\<close>

definition spawn_reset ::
  "('p, 'h, 'g) pin_lib \<Rightarrow> nat \<Rightarrow> bool \<Rightarrow> ('p, 'h, 'g) board \<Rightarrow> ('p, 'h, 'g) board" where
  "spawn_reset lib seq sent b =
    (if resetting b = No_reset then act lib (Ask_reset seq) b
     else act lib (Answer seq Failed_to_spawn sent) b)"

text \<open>One row per endpoint; \<open>sent\<close> is whether a reply got through.\<close>

fun app_handle ::
  "('p, 'h, 'g) pin_lib \<Rightarrow> rstr \<Rightarrow> nat \<Rightarrow> bool \<Rightarrow> request \<Rightarrow> ('p, 'h, 'g) board \<Rightarrow> ('p, 'h, 'g) board" where
  "app_handle lib v seq sent Identify_rq b =
     act lib (Answer seq (Reply (Identify_rsp (identify_handler v b))) sent) b"
| "app_handle lib v seq sent Reset_rq b = spawn_reset lib seq sent b"
| "app_handle lib v seq sent (Gpio_config_rq r) b =
     act lib (Answer seq (Reply (Gpio_config_rsp (fst (gpio_config_handler lib r b)))) sent) (act lib (Configure r) b)"
| "app_handle lib v seq sent (Gpio_set_rq r) b =
     act lib (Answer seq (Reply (Gpio_set_rsp (fst (gpio_set_handler lib r b)))) sent) (act lib (Set r) b)"
| "app_handle lib v seq sent (Gpio_read_rq r) b =
     act lib (Answer seq (Reply (Gpio_read_rsp (gpio_read_handler lib r b))) sent) b"
| "app_handle lib v seq sent (Pin_monitor_rq r) b = spawn_monitor lib seq sent r b"
| "app_handle lib v seq sent (Uart_config_rq r) b =
     act lib (Answer seq (Reply (Uart_config_rsp (uart_config_handler r))) sent) b"
| "app_handle lib v seq sent (Uart_tx_rq r) b =
     act lib (Answer seq (Reply (Uart_tx_rsp (uart_tx_handler r))) sent) b"
| "app_handle lib v seq sent (Spi_transfer_rq r) b =
     act lib (Answer seq (Reply (Spi_transfer_rsp (spi_transfer_handler r))) sent) b"
| "app_handle lib v seq sent (I2c_transaction_rq r) b =
     act lib (Answer seq (Reply (I2c_transaction_rsp (i2c_transaction_handler r))) sent) b"
| "app_handle lib v seq sent (Capture_control_rq r) b =
     act lib (Answer seq (Reply (Capture_control_rsp (capture_control_handler r))) sent) b"
| "app_handle lib v seq sent (Capture_read_rq r) b =
     act lib (Answer seq (Reply (Capture_read_rsp (capture_read_handler r))) sent) b"

section \<open>The main loop\<close>

text \<open>What happens to the firmware, one at a time: a request arrives, a task has a turn, the
  reset task has one, the pins change from outside.\<close>

datatype 'h fw_event =
    Request nat request bool
  | Task_turn nat bool bool u64
  | Reset_turn bool "u64 option"
  | Outside 'h

fun fw_step ::
  "('p, 'h, 'g) pin_lib \<Rightarrow> rstr \<Rightarrow> 'h fw_event \<Rightarrow> ('p, 'h, 'g) board \<Rightarrow> ('p, 'h, 'g) board" where
  "fw_step lib v (Request seq rq sent) b = app_handle lib v seq sent rq b"
| "fw_step lib v (Task_turn k sent edge now) b = act lib (Resume k sent edge now) b"
| "fw_step lib v (Reset_turn sent chipid) b = act lib (Resume_reset sent chipid) b"
| "fw_step lib v (Outside h) b = act lib (World h) b"

text \<open>
  A run of the server ends with an error when the host goes away, which the loop ignores: it
  runs the server again, on the state as it is. Tasks go on meanwhile.
\<close>

definition server_run ::
  "('p, 'h, 'g) pin_lib \<Rightarrow> rstr \<Rightarrow> 'h fw_event list \<Rightarrow> ('p, 'h, 'g) board \<Rightarrow> ('p, 'h, 'g) board" where
  "server_run lib v es b = fold (fw_step lib v) es b"

definition firmware_main ::
  "('p, 'h, 'g) pin_lib \<Rightarrow> rstr \<Rightarrow> u64 option \<Rightarrow> 'h fw_event list list \<Rightarrow> ('p, 'h, 'g) board" where
  "firmware_main lib v chipid sessions = fold (server_run lib v) sessions (boot lib chipid)"

lemma board_reachable_handle: "board_reachable lib b \<Longrightarrow> board_reachable lib (app_handle lib v seq sent rq b)"
  by (cases rq) (auto simp: spawn_monitor_def spawn_reset_def simp del: act.simps
      intro!: board_reachable.acted split: option.split)

lemma board_reachable_step: "board_reachable lib b \<Longrightarrow> board_reachable lib (fw_step lib v e b)"
  by (cases e) (simp_all add: board_reachable_handle board_reachable.acted del: act.simps)

lemma board_reachable_run: "board_reachable lib b \<Longrightarrow> board_reachable lib (server_run lib v es b)"
  by (induction es arbitrary: b) (simp_all add: server_run_def board_reachable_step)

lemma firmware_main_flat:
  "firmware_main lib v chipid sessions = server_run lib v (concat sessions) (boot lib chipid)"
proof -
  have "fold (server_run lib v) sessions b = server_run lib v (concat sessions) b" for b
    by (induction sessions arbitrary: b) (simp_all add: server_run_def)
  then show ?thesis by (simp add: firmware_main_def)
qed

section \<open>Which replies are owed\<close>

fun owes :: "'p task option \<Rightarrow> nat multiset" where
  "owes (Some (Spawned seq rqst)) = {#seq#}"
| "owes (Some (Replying seq r)) = {#seq#}"
| "owes (Some (Announcing seq idx pin p)) = {#seq#}"
| "owes t = {#}"

fun reset_owes :: "reset_task \<Rightarrow> nat multiset" where
  "reset_owes (Reset_replying seq) = {#seq#}"
| "reset_owes t = {#}"

definition task_debts :: "('p, 'h, 'g) board \<Rightarrow> nat multiset" where
  "task_debts b = (\<Sum>k<POOL_SIZE. owes (pool b k))"

definition owed :: "('p, 'h, 'g) board \<Rightarrow> nat multiset" where
  "owed b = task_debts b + reset_owes (resetting b)"

definition answered :: "('p, 'h, 'g) board \<Rightarrow> nat multiset" where
  "answered b = mset (map fst (replies b))"

fun asked :: "'h fw_event list \<Rightarrow> nat multiset" where
  "asked [] = {#}"
| "asked (Request seq rq sent # es) = add_mset seq (asked es)"
| "asked (e # es) = asked es"

text \<open>Nothing is lost by an event: its message is sent, and the chip is not reset.\<close>

fun delivers :: "'h fw_event \<Rightarrow> ('p, 'h, 'g) board \<Rightarrow> bool" where
  "delivers (Request seq rq sent) b \<longleftrightarrow> sent"
| "delivers (Task_turn k sent edge now) b \<longleftrightarrow> sent"
| "delivers (Reset_turn sent chipid) b \<longleftrightarrow> sent \<and> resetting b \<noteq> Reset_waiting"
| "delivers (Outside h) b \<longleftrightarrow> True"

fun all_delivered ::
  "('p, 'h, 'g) pin_lib \<Rightarrow> rstr \<Rightarrow> 'h fw_event list \<Rightarrow> ('p, 'h, 'g) board \<Rightarrow> bool" where
  "all_delivered lib v [] b \<longleftrightarrow> True"
| "all_delivered lib v (e # es) b \<longleftrightarrow> delivers e b \<and> all_delivered lib v es (fw_step lib v e b)"

text \<open>
  A step keeps the books: what it adds to the replies and debts is at most what was asked,
  and no less when nothing is lost.
\<close>

definition balanced ::
  "bool \<Rightarrow> nat multiset \<Rightarrow> ('p, 'h, 'g) board \<Rightarrow> ('p, 'h, 'g) board \<Rightarrow> bool" where
  "balanced whole x b b' \<longleftrightarrow> answered b' + owed b' \<subseteq># answered b + owed b + x
     \<and> (whole \<longrightarrow> answered b' + owed b' = answered b + owed b + x)"

lemma balanced_eqI: "answered b' + owed b' = answered b + owed b + x \<Longrightarrow> balanced whole x b b'"
  by (simp add: balanced_def)

lemma task_debts_update:
  assumes "k < POOL_SIZE" and "pool b' = (pool b)(k := t)"
  shows "task_debts b' + owes (pool b k) = task_debts b + owes t"
proof -
  have "task_debts b' = owes t + (\<Sum>j \<in> {..<POOL_SIZE} - {k}. owes (pool b j))"
    using assms by (simp add: task_debts_def sum.remove [of "{..<POOL_SIZE}" k])
  moreover have "task_debts b = owes (pool b k) + (\<Sum>j \<in> {..<POOL_SIZE} - {k}. owes (pool b j))"
    using assms(1) by (simp add: task_debts_def sum.remove [of "{..<POOL_SIZE}" k])
  ultimately show ?thesis by (simp add: ac_simps)
qed

lemma balanced_task:
  assumes "k < POOL_SIZE" and "pool b' = (pool b)(k := t)" and "resetting b' = resetting b"
    and "replies b' = replies b @ new"
    and "owes t + mset (map fst new) \<subseteq># x + owes (pool b k)"
    and "whole \<Longrightarrow> owes t + mset (map fst new) = x + owes (pool b k)"
  shows "balanced whole x b b'"
proof -
  let ?old = "owes (pool b k)" and ?new = "owes t + mset (map fst new)"
  have e: "(answered b' + owed b') + ?old = (answered b + owed b) + ?new"
    using task_debts_update [OF assms(1,2)] assms(3,4) by (simp add: answered_def owed_def ac_simps)
  have "(answered b' + owed b') + ?old \<subseteq># (answered b + owed b + x) + ?old"
    unfolding e using assms(5) by (simp add: ac_simps)
  moreover have "(answered b' + owed b') + ?old = (answered b + owed b + x) + ?old" if whole
    unfolding e using assms(6) [OF that] by (simp add: ac_simps)
  ultimately show ?thesis by (simp add: balanced_def)
qed

lemma balanced_reply:
  "balanced sent {#seq#} b (send_reply sent seq r b)"
  by (simp add: balanced_def answered_def owed_def task_debts_def)

lemma balanced_resume:
  assumes ok: "board_ok lib b"
  shows "balanced sent {#} b (monitor_resume lib k sent edge now b)"
proof (cases "pool b k")
  case None
  then show ?thesis by (simp add: monitor_resume_def balanced_eqI)
next
  case (Some t)
  then have k: "k < POOL_SIZE" using board_okD(3) [OF ok] by blast
  let ?b = "monitor_resume lib k sent edge now b"
  have "\<exists>new. pool ?b = (pool b)(k := pool ?b k) \<and> resetting ?b = resetting b
      \<and> replies ?b = replies b @ new
      \<and> owes (pool ?b k) + mset (map fst new) \<subseteq># {#} + owes (pool b k)
      \<and> (sent \<longrightarrow> owes (pool ?b k) + mset (map fst new) = {#} + owes (pool b k))"
    using Some by (cases t) (auto simp: board_defs fun_eq_iff split: option.split)
  then show ?thesis
    using balanced_task [OF k, of ?b b] by blast
qed

lemma free_place_Some: "free_place b = Some k \<Longrightarrow> k < POOL_SIZE \<and> pool b k = None"
  by (auto simp: free_place_def find_Some_iff)

lemma free_place_None: "free_place b = None \<longleftrightarrow> (\<forall>k < POOL_SIZE. pool b k \<noteq> None)"
  by (auto simp: free_place_def find_None_iff)

lemma balanced_handle:
  assumes "board_ok lib b"
  shows "balanced sent {#seq#} b (app_handle lib v seq sent rq b)"
proof (cases rq)
  case Reset_rq
  then show ?thesis
    by (cases "resetting b")
      (auto simp: spawn_reset_def balanced_reply, auto simp: balanced_def answered_def owed_def task_debts_def)
next
  case (Pin_monitor_rq r)
  show ?thesis
  proof (cases "free_place b")
    case None
    with Pin_monitor_rq show ?thesis by (simp add: spawn_monitor_def balanced_reply)
  next
    case (Some k)
    note k = free_place_Some [OF Some]
    have "balanced sent {#seq#} b (set_task k (Some (Spawned seq r)) b)"
      by (rule balanced_task [where k = k and t = "Some (Spawned seq r)" and new = "[]"])
        (use k in \<open>simp_all add: set_task_def\<close>)
    with Pin_monitor_rq Some k show ?thesis by (simp add: spawn_monitor_def)
  qed
qed (auto simp: balanced_def answered_def owed_def task_debts_def gpio_config_handler_def
    gpio_set_handler_def split: sum.split)

lemma balanced_step:
  assumes "board_ok lib b"
  shows "balanced (delivers e b) (asked [e]) b (fw_step lib v e b)"
proof (cases e)
  case (Reset_turn sent chipid)
  have "balanced sent {#} b (reset_resume lib sent chipid b)" if "resetting b \<noteq> Reset_waiting"
    using that by (cases "resetting b")
      (auto simp: reset_resume_def balanced_def answered_def owed_def task_debts_def)
  moreover have "owed (reset_resume lib sent chipid b) = {#}" "answered (reset_resume lib sent chipid b) = answered b"
    if "resetting b = Reset_waiting"
    using that by (simp_all add: reset_resume_def owed_def task_debts_def answered_def boot_def)
  ultimately show ?thesis
    using Reset_turn by (cases "resetting b = Reset_waiting") (auto simp: balanced_def)
qed (auto simp: balanced_handle [OF assms] balanced_resume [OF assms], auto simp: balanced_def answered_def
    owed_def task_debts_def)

lemma balanced_add:
  assumes "balanced p x b b'" and "balanced q y b' c"
  shows "balanced (p \<and> q) (x + y) b c"
proof -
  have "answered c + owed c \<subseteq># answered b' + owed b' + y"
    using assms(2) by (simp add: balanced_def)
  also have "\<dots> \<subseteq># answered b + owed b + x + y"
    using assms(1) by (simp add: balanced_def)
  finally show ?thesis
    using assms by (auto simp: balanced_def ac_simps)
qed

lemma asked_Cons: "asked (e # es) = asked [e] + asked es"
  by (cases e) simp_all

lemma balanced_run:
  "board_reachable lib b \<Longrightarrow> balanced (all_delivered lib v es b) (asked es) b (server_run lib v es b)"
proof (induction es arbitrary: b)
  case Nil
  then show ?case by (simp add: server_run_def balanced_eqI)
next
  case (Cons e es)
  let ?b = "fw_step lib v e b"
  have "balanced (delivers e b) (asked [e]) b ?b"
    by (rule balanced_step [OF board_reachable_ok [OF Cons.prems]])
  moreover have "balanced (all_delivered lib v es ?b) (asked es) ?b (server_run lib v es ?b)"
    by (rule Cons.IH [OF board_reachable_step [OF Cons.prems]])
  ultimately have "balanced (delivers e b \<and> all_delivered lib v es ?b) (asked [e] + asked es) b
      (server_run lib v es ?b)"
    by (rule balanced_add)
  then show ?case by (simp add: asked_Cons [of e es] server_run_def)
qed

lemma books_at_boot [simp]: "answered (boot lib c) = {#}" "owed (boot lib c) = {#}"
  by (simp_all add: answered_def owed_def task_debts_def boot_def)

section \<open>Replies fit their requests\<close>

text \<open>A reply, or a debt, is for a request that was made; an answer is of its endpoint's type.\<close>

fun fits :: "wire_reply \<Rightarrow> request \<Rightarrow> bool" where
  "fits (Reply r) rq \<longleftrightarrow> answers_endpoint r = endpoint_of rq"
| "fits Failed_to_spawn rq \<longleftrightarrow> (endpoint_of rq, Spawn) \<in> set DISPATCH"

fun requests :: "'h fw_event list \<Rightarrow> (nat \<times> request) set" where
  "requests [] = {}"
| "requests (Request seq rq sent # es) = insert (seq, rq) (requests es)"
| "requests (e # es) = requests es"

definition accounted :: "(nat \<times> request) set \<Rightarrow> ('p, 'h, 'g) board \<Rightarrow> bool" where
  "accounted R b \<longleftrightarrow> (\<forall>(seq, w) \<in> set (replies b). \<exists>rq. (seq, rq) \<in> R \<and> fits w rq)
     \<and> (\<forall>k. \<forall>seq \<in># owes (pool b k). \<exists>r. (seq, Pin_monitor_rq r) \<in> R)
     \<and> (\<forall>seq \<in># reset_owes (resetting b). (seq, Reset_rq) \<in> R)"

lemma accounted_mono: "accounted R b \<Longrightarrow> R \<subseteq> S \<Longrightarrow> accounted S b"
  unfolding accounted_def by blast

lemma accounted_resume:
  assumes "accounted R b"
  shows "accounted R (monitor_resume lib k sent edge now b)"
proof (cases "pool b k")
  case (Some t)
  have "\<exists>r. (seq, Pin_monitor_rq r) \<in> R" if "seq \<in># owes (Some t)" for seq
    using assms Some that unfolding accounted_def by metis
  with assms Some show ?thesis
    by (cases t) (fastforce simp: accounted_def board_defs split: option.split if_splits)+
qed (use assms in \<open>simp add: monitor_resume_def\<close>)

lemma accounted_handle:
  assumes "accounted R b"
  shows "accounted (insert (seq, rq) R) (app_handle lib v seq sent rq b)"
proof -
  have "accounted (insert (seq, rq) R) b"
    by (rule accounted_mono [OF assms]) blast
  then show ?thesis
    by (cases rq)
      (auto simp: accounted_def spawn_monitor_def spawn_reset_def DISPATCH_def set_task_def gpio_config_handler_def
        gpio_set_handler_def split: option.split sum.split dest: free_place_Some)
qed

lemma accounted_step: "accounted R b \<Longrightarrow> accounted (requests [e] \<union> R) (fw_step lib v e b)"
proof (cases e)
  case (Reset_turn sent chipid)
  moreover assume "accounted R b"
  ultimately show ?thesis
    by (cases "resetting b") (auto simp: accounted_def reset_resume_def boot_def)
qed (auto simp: accounted_handle accounted_resume, auto simp: accounted_def)

lemma accounted_run: "accounted R b \<Longrightarrow> accounted (requests es \<union> R) (server_run lib v es b)"
proof (induction es arbitrary: R b)
  case (Cons e es)
  have "requests (e # es) = requests es \<union> requests [e]" by (cases e) auto
  then show ?case
    using Cons.IH [OF accounted_step [OF Cons.prems, of e lib v]] by (simp add: server_run_def Un_assoc)
qed (simp add: server_run_def)

lemma accounted_boot: "accounted {} (boot lib c)"
  by (simp add: accounted_def boot_def)

section \<open>Debts are settled\<close>

text \<open>The turns a task needs until it has replied.\<close>

fun turns_left :: "'p task option \<Rightarrow> nat" where
  "turns_left (Some (Spawned seq rqst)) = 2"
| "turns_left (Some (Replying seq r)) = 1"
| "turns_left (Some (Announcing seq idx pin p)) = 1"
| "turns_left t = 0"

fun turn_of :: "nat \<Rightarrow> 'h fw_event \<Rightarrow> bool" where
  "turn_of k (Task_turn j sent edge now) \<longleftrightarrow> j = k"
| "turn_of k e \<longleftrightarrow> False"

lemma owes_nothing: "owes t = {#} \<longleftrightarrow> turns_left t = 0"
  by (cases t rule: owes.cases) auto

lemma turns_left_bound: "turns_left t \<le> 2"
  by (cases t rule: turns_left.cases) auto

lemma turns_left_resume:
  assumes "sent"
  shows "turns_left (pool (monitor_resume lib j sent edge now b) k)
    \<le> turns_left (pool b k) - (if j = k then 1 else 0)"
proof (cases "pool b j")
  case (Some t)
  with assms show ?thesis
    by (cases t) (auto simp: board_defs split: option.split)
next
  case None
  then show ?thesis by (cases "j = k") (simp_all add: monitor_resume_def)
qed

lemma turns_left_step:
  assumes "delivers e b" and "asked [e] = {#}"
  shows "turns_left (pool (fw_step lib v e b) k) \<le> turns_left (pool b k) - (if turn_of k e then 1 else 0)"
proof (cases e)
  case (Task_turn j sent edge now)
  with assms turns_left_resume [of sent lib j edge now b k] show ?thesis by simp
next
  case (Reset_turn sent chipid)
  with assms show ?thesis by (cases "resetting b") (simp_all add: reset_resume_def)
qed (use assms in simp_all)

lemma reset_owes_step:
  assumes "delivers e b" and "asked [e] = {#}"
  shows "resetting (fw_step lib v e b) = (case e of
    Reset_turn sent chipid \<Rightarrow> if resetting b = No_reset then No_reset else Reset_waiting | _ \<Rightarrow> resetting b)"
  using assms
  by (cases e) (auto simp: board_defs split: option.split task.split reset_task.split)

lemma turns_left_run:
  assumes "all_delivered lib v es b" and "asked es = {#}"
    and "turns_left (pool b k) \<le> length (filter (turn_of k) es)"
  shows "turns_left (pool (server_run lib v es b) k) = 0"
  using assms
proof (induction es arbitrary: b)
  case (Cons e es)
  have e: "asked [e] = {#}" "asked es = {#}" using Cons.prems(2) asked_Cons [of e es] by simp_all
  have d: "delivers e b" using Cons.prems(1) by simp
  have "turns_left (pool (fw_step lib v e b) k) \<le> length (filter (turn_of k) es)"
    using turns_left_step [OF d e(1), of lib v k] Cons.prems(3) by (auto split: if_splits)
  with Cons.IH [of "fw_step lib v e b"] Cons.prems(1) e(2) show ?case by (simp add: server_run_def)
qed (simp add: server_run_def)

lemma reset_owes_run:
  assumes "all_delivered lib v es b" and "asked es = {#}"
    and "reset_owes (resetting b) \<noteq> {#} \<longrightarrow> (\<exists>sent chipid. Reset_turn sent chipid \<in> set es)"
  shows "reset_owes (resetting (server_run lib v es b)) = {#}"
  using assms
proof (induction es arbitrary: b)
  case (Cons e es)
  have e: "asked [e] = {#}" "asked es = {#}" using Cons.prems(2) asked_Cons [of e es] by simp_all
  have d: "delivers e b" using Cons.prems(1) by simp
  have "reset_owes (resetting (fw_step lib v e b)) \<noteq> {#} \<longrightarrow> (\<exists>sent chipid. Reset_turn sent chipid \<in> set es)"
    using reset_owes_step [OF d e(1), of lib v] Cons.prems(3) by (auto split: fw_event.splits if_splits)
  with Cons.IH [of "fw_step lib v e b"] Cons.prems(1) e(2) show ?case by (simp add: server_run_def)
qed (simp add: server_run_def)

lemma debts_settled:
  assumes "all_delivered lib v es b" and "asked es = {#}"
    and "\<forall>k < POOL_SIZE. 2 \<le> length (filter (turn_of k) es)"
    and "reset_owes (resetting b) \<noteq> {#} \<longrightarrow> (\<exists>sent chipid. Reset_turn sent chipid \<in> set es)"
  shows "owed (server_run lib v es b) = {#}"
proof -
  have "owes (pool (server_run lib v es b) k) = {#}" if "k < POOL_SIZE" for k
    using turns_left_run [OF assms(1,2), of k] turns_left_bound [of "pool b k"] assms(3) that
    by (auto simp: owes_nothing intro: order_trans)
  with reset_owes_run [OF assms(1,2,4)] show ?thesis
    by (simp add: owed_def task_debts_def)
qed

lemma all_delivered_append [simp]:
  "all_delivered lib v (xs @ ys) b \<longleftrightarrow> all_delivered lib v xs b \<and> all_delivered lib v ys (server_run lib v xs b)"
  by (induction xs arbitrary: b) (simp_all add: server_run_def)

text \<open>A task without a pin owes a reply, and a full pool has at least two of them.\<close>

lemma size_sum_mset:
  fixes f :: "'a \<Rightarrow> 'b multiset"
  shows "finite A \<Longrightarrow> size (sum f A) = (\<Sum>i \<in> A. size (f i))"
  by (induction rule: finite_induct) simp_all

lemma full_pool_owes:
  assumes "board_ok lib b" and "free_place b = None"
  shows "2 \<le> size (task_debts b)"
proof -
  let ?P = "{..<POOL_SIZE}" and ?O = "{k. owner (pool b k) \<noteq> None}"
  have in_pool: "?O \<subseteq> ?P"
    using board_okD(3) [OF assms(1)] by (fastforce elim: owner.elims)
  have debt: "1 \<le> size (owes (pool b k))" if "k \<in> ?P - ?O" for k
    using that assms(2) by (cases "pool b k" rule: owes.cases) (auto simp: free_place_None)
  have "POOL_SIZE - NUM_PINS \<le> card ?P - card ?O"
    using owners_card [OF assms(1)] by simp
  also have "\<dots> = card (?P - ?O)"
    using in_pool by (simp add: card_Diff_subset finite_subset)
  also have "\<dots> = (\<Sum>k \<in> ?P - ?O. 1)" by simp
  also have "\<dots> \<le> (\<Sum>k \<in> ?P - ?O. size (owes (pool b k)))"
    by (rule sum_mono) (rule debt)
  also have "\<dots> \<le> (\<Sum>k \<in> ?P. size (owes (pool b k)))"
    by (rule sum_mono2) auto
  finally show ?thesis by (simp add: task_debts_def size_sum_mset POOL_SIZE_def)
qed

section \<open>A reset is carried out\<close>

fun resets :: "'h fw_event \<Rightarrow> bool" where
  "resets (Reset_turn sent chipid) \<longleftrightarrow> True"
| "resets e \<longleftrightarrow> False"

lemma replies_step: "set (replies b) \<subseteq> set (replies (fw_step lib v e b))"
proof (cases e)
  case (Request seq rq sent)
  then show ?thesis
    by (cases rq) (auto simp: spawn_monitor_def spawn_reset_def set_task_def gpio_config_handler_def
        gpio_set_handler_def split: option.split sum.split)
next
  case (Reset_turn sent chipid)
  then show ?thesis by (cases "resetting b") (auto simp: reset_resume_def)
qed (auto simp: board_defs split: option.split task.split)

lemma resetting_step:
  assumes "\<not> resets e" and "resetting b \<noteq> No_reset"
  shows "resetting (fw_step lib v e b) = resetting b"
proof (cases e)
  case (Request seq rq sent)
  with assms show ?thesis
    by (cases rq) (auto simp: spawn_monitor_def spawn_reset_def set_task_def gpio_config_handler_def
        gpio_set_handler_def split: option.split sum.split)
qed (use assms in \<open>auto simp: board_defs split: option.split task.split\<close>)

text \<open>The state of a board that has just booted, apart from what it has sent before.\<close>

definition rebooted :: "('p, 'h, 'g) pin_lib \<Rightarrow> u64 option \<Rightarrow> ('p, 'h, 'g) board \<Rightarrow> bool" where
  "rebooted lib chipid b' \<longleftrightarrow> b' = (boot lib chipid)\<lparr>published := published b', replies := replies b'\<rparr>"

lemma waiting_reset_run:
  assumes "resetting b = Reset_waiting" and "1 \<le> length (filter resets es)"
  shows "\<exists>n < length es. \<exists>sent chipid. es ! n = Reset_turn sent chipid
    \<and> rebooted lib chipid (server_run lib v (take (Suc n) es) b)
    \<and> set (replies b) \<subseteq> set (replies (server_run lib v (take (Suc n) es) b))"
  using assms
proof (induction es arbitrary: b)
  case (Cons e es)
  show ?case
  proof (cases "resets e")
    case True
    then obtain sent chipid where "e = Reset_turn sent chipid" by (cases e) simp_all
    with Cons.prems(1) show ?thesis
      by (intro exI [of _ 0]) (simp add: server_run_def reset_resume_def rebooted_def)
  next
    case False
    with Cons.prems Cons.IH [of "fw_step lib v e b"] obtain n sent chipid where "n < length es"
      "es ! n = Reset_turn sent chipid"
      "rebooted lib chipid (server_run lib v (take (Suc n) es) (fw_step lib v e b))"
      "set (replies (fw_step lib v e b)) \<subseteq> set (replies (server_run lib v (take (Suc n) es) (fw_step lib v e b)))"
      using resetting_step [OF False, of b lib v] by auto
    then show ?thesis
      using replies_step [of b lib v e] by (intro exI [of _ "Suc n"]) (auto simp: server_run_def)
  qed
qed simp

lemma replying_reset_run:
  assumes "resetting b = Reset_replying seq" and "2 \<le> length (filter resets es)"
    and "\<forall>c. Reset_turn False c \<notin> set es"
  shows "\<exists>n < length es. \<exists>sent chipid. es ! n = Reset_turn sent chipid
    \<and> rebooted lib chipid (server_run lib v (take (Suc n) es) b)
    \<and> (seq, Reply Reset_rsp) \<in> set (replies (server_run lib v (take (Suc n) es) b))"
  using assms
proof (induction es arbitrary: b)
  case (Cons e es)
  show ?case
  proof (cases "resets e")
    case True
    with Cons.prems(3) obtain c where e: "e = Reset_turn True c" by (cases e) auto
    let ?b = "fw_step lib v e b"
    have "resetting ?b = Reset_waiting" "(seq, Reply Reset_rsp) \<in> set (replies ?b)"
      using e Cons.prems(1) by (simp_all add: reset_resume_def)
    moreover have "1 \<le> length (filter resets es)" using Cons.prems(2) True by simp
    ultimately obtain n sent chipid where "n < length es" "es ! n = Reset_turn sent chipid"
      "rebooted lib chipid (server_run lib v (take (Suc n) es) ?b)"
      "(seq, Reply Reset_rsp) \<in> set (replies (server_run lib v (take (Suc n) es) ?b))"
      using waiting_reset_run [of ?b es lib v] by blast
    then show ?thesis
      by (intro exI [of _ "Suc n"]) (simp add: server_run_def)
  next
    case False
    with Cons.prems Cons.IH [of "fw_step lib v e b"] obtain n sent chipid where "n < length es"
      "es ! n = Reset_turn sent chipid"
      "rebooted lib chipid (server_run lib v (take (Suc n) es) (fw_step lib v e b))"
      "(seq, Reply Reset_rsp) \<in> set (replies (server_run lib v (take (Suc n) es) (fw_step lib v e b)))"
      using resetting_step [OF False, of b lib v] by auto
    then show ?thesis by (intro exI [of _ "Suc n"]) (simp add: server_run_def)
  qed
qed simp

section \<open>Properties\<close>

text \<open>
  C34: every request is answered once. Through any number of connections, in any interleaving
  of requests and tasks, the firmware never sends more replies under a sequence number than
  there were requests with it, counting those a task still owes; every reply belongs to a
  request that was made, with the type of its endpoint, and only the endpoints that spawn a
  task are ever refused. When no message is lost and the chip is not reset, nothing is
  forgotten either: after two more turns of every task exactly the requests are answered.
\<close>

theorem every_request_is_answered_once:
  assumes "b = firmware_main lib v chipid sessions"
  shows "answered b + owed b \<subseteq># asked (concat sessions)
    \<and> (\<forall>(seq, w) \<in> set (replies b). \<exists>rq. (seq, rq) \<in> requests (concat sessions) \<and> fits w rq)
    \<and> (all_delivered lib v (concat sessions @ later) (boot lib chipid) \<and> asked later = {#}
         \<and> (\<forall>k < POOL_SIZE. 2 \<le> length (filter (turn_of k) later))
         \<and> (reset_owes (resetting b) \<noteq> {#} \<longrightarrow> (\<exists>sent chipid. Reset_turn sent chipid \<in> set later))
       \<longrightarrow> answered (server_run lib v later b) = asked (concat sessions))"
proof -
  let ?es = "concat sessions" and ?boot = "boot lib chipid"
  have b: "b = server_run lib v ?es ?boot" by (simp add: assms firmware_main_flat)
  have r: "board_reachable lib ?boot" by (rule board_reachable.booted)
  have run: "balanced (all_delivered lib v ?es ?boot) (asked ?es) ?boot b"
    unfolding b by (rule balanced_run [OF r])
  have after: "balanced (all_delivered lib v later b) (asked later) b (server_run lib v later b)"
    unfolding b by (rule balanced_run [OF board_reachable_run [OF r]])
  have "accounted (requests ?es) b"
    using accounted_run [OF accounted_boot [of lib chipid], of ?es lib v] by (simp add: b)
  then have "\<forall>(seq, w) \<in> set (replies b). \<exists>rq. (seq, rq) \<in> requests ?es \<and> fits w rq"
    by (simp add: accounted_def)
  moreover have "answered b + owed b \<subseteq># asked ?es"
    using run by (simp add: balanced_def)
  moreover have "answered (server_run lib v later b) = asked ?es"
    if d: "all_delivered lib v (?es @ later) ?boot" "asked later = {#}"
      "\<forall>k < POOL_SIZE. 2 \<le> length (filter (turn_of k) later)"
      "reset_owes (resetting b) \<noteq> {#} \<longrightarrow> (\<exists>sent chipid. Reset_turn sent chipid \<in> set later)"
  proof -
    have l: "all_delivered lib v later b" "all_delivered lib v ?es ?boot" using d(1) by (simp_all add: b)
    from debts_settled [OF l(1) d(2-4)] run after l d(2) show ?thesis by (simp add: balanced_def)
  qed
  ultimately show ?thesis by blast
qed

text \<open>
  C36: a host that waits for its answers is never refused. The pool has room for a monitor on
  every pin and for two short requests: as long as fewer than two replies are owed, a request
  to the monitor endpoint gets a task, in every reachable state.
\<close>

theorem patient_host_is_never_refused:
  assumes "board_reachable lib b" and "size (owed b) < 2"
  shows "\<exists>k < POOL_SIZE. pool b k = None
    \<and> app_handle lib v seq sent (Pin_monitor_rq r) b = set_task k (Some (Spawned seq r)) b"
proof (cases "free_place b")
  case None
  with full_pool_owes [OF board_reachable_ok [OF assms(1)]] assms(2) show ?thesis
    by (simp add: owed_def)
next
  case (Some k)
  with free_place_Some [OF Some] show ?thesis by (auto simp: spawn_monitor_def)
qed

text \<open>
  C35: a reset is answered and then carried out, however busy the board is. Once the request
  has come in on a board that is not being reset already, two turns of the reset task are
  enough, whatever requests and monitors come between them: the reply has gone out and the
  board is as after power-on, every pin back in the table, no monitor left, no stop request
  pending, with the chip id that this boot read. When it reads the same as before, the host
  finds the board again under the same serial.
\<close>

theorem reset_is_answered_then_carried_out:
  assumes "resetting b = No_reset" and "2 \<le> length (filter resets es)"
    and "\<forall>c. Reset_turn False c \<notin> set es"
  shows "\<exists>n < length es. \<exists>last chipid. es ! n = Reset_turn last chipid \<and>
    (let b' = server_run lib v (Request seq Reset_rq sent # take (Suc n) es) b in
      (seq, Reply Reset_rsp) \<in> set (replies b')
      \<and> b' = (boot lib chipid)\<lparr>published := published b', replies := replies b'\<rparr>
      \<and> (usb_serial b' = usb_serial b \<longleftrightarrow> otp_id chipid = chip_id b))"
proof -
  let ?b = "fw_step lib v (Request seq Reset_rq sent) b"
  have "resetting ?b = Reset_replying seq"
    using assms(1) by (simp add: spawn_reset_def)
  from replying_reset_run [OF this assms(2,3)] obtain n last chipid where n: "n < length es"
    "es ! n = Reset_turn last chipid" "rebooted lib chipid (server_run lib v (take (Suc n) es) ?b)"
    "(seq, Reply Reset_rsp) \<in> set (replies (server_run lib v (take (Suc n) es) ?b))"
    by blast
  let ?b' = "server_run lib v (take (Suc n) es) ?b"
  have run: "server_run lib v (Request seq Reset_rq sent # take (Suc n) es) b = ?b'"
    by (simp add: server_run_def)
  have fresh: "?b' = (boot lib chipid)\<lparr>published := published ?b', replies := replies ?b'\<rparr>"
    using n(3) unfolding rebooted_def .
  have "chip_id ?b' = otp_id chipid"
    by (subst fresh) (simp add: boot_def)
  then have "usb_serial ?b' = usb_serial b \<longleftrightarrow> otp_id chipid = chip_id b"
    using usb_serial_inject [of ?b' b] by (simp add: usb_config_def)
  with n(1,2,4) fresh run show ?thesis unfolding Let_def by metis
qed

theorem reset_is_answered_then_carried_out_witness:
  "\<exists>n < 4. slots (server_run plain_pins [] (Request 20 Reset_rq True # take (Suc n)
      [Task_turn 0 True True 5, Reset_turn True None, Request 21 Reset_rq True, Reset_turn True None]) watched_board) ! 3
    = Some 5"
proof -
  let ?es = "[Task_turn 0 True True 5, Reset_turn True None, Request 21 Reset_rq True, Reset_turn True None]"
  have "resetting watched_board = No_reset"
    by (simp add: watched_board_def plain_simps upt_rec)
  with reset_is_answered_then_carried_out [of watched_board ?es plain_pins "[]" 20 True]
  obtain n chipid where n: "n < length ?es"
    and b: "server_run plain_pins [] (Request 20 Reset_rq True # take (Suc n) ?es) watched_board
      = (boot plain_pins chipid)
          \<lparr>published := published (server_run plain_pins [] (Request 20 Reset_rq True # take (Suc n) ?es) watched_board),
           replies := replies (server_run plain_pins [] (Request 20 Reset_rq True # take (Suc n) ?es) watched_board)\<rparr>"
    unfolding Let_def by force
  have "slots (server_run plain_pins [] (Request 20 Reset_rq True # take (Suc n) ?es) watched_board) ! 3 = Some 5"
    by (subst b) (simp add: boot_def plain_pins_def NUM_PINS_def)
  moreover have "n < 4" using n by simp
  ultimately show ?thesis by blast
qed

text \<open>Two requests over two connections; a turn or two for every task.\<close>

definition two_sessions :: "(nat \<Rightarrow> bool) fw_event list list" where
  "two_sessions = [[Request 1 Identify_rq True, Request 2 (Pin_monitor_rq (monitor_rq 3 True)) True],
     [Request 1 (Uart_config_rq \<lparr>baud = 9600\<rparr>) True]]"

definition two_turns :: "(nat \<Rightarrow> bool) fw_event list" where
  "two_turns = map (\<lambda>k. Task_turn k True False 0) ([0..<POOL_SIZE] @ [0..<POOL_SIZE])"

lemma two_turns_simps:
  "all_delivered lib v two_turns b" "asked two_turns = {#}"
  "k < POOL_SIZE \<Longrightarrow> 2 \<le> length (filter (turn_of k) two_turns)"
proof -
  have d: "all_delivered lib v (map (\<lambda>k. Task_turn k True False 0) ks) b" for ks b
    by (induction ks arbitrary: b) simp_all
  have a: "asked (map (\<lambda>k. Task_turn k True False 0) ks) = {#}" for ks
    by (induction ks) simp_all
  have f: "k \<in> set ks \<Longrightarrow> 1 \<le> length (filter (turn_of k) (map (\<lambda>k. Task_turn k True False 0) ks))" for ks
    by (induction ks) auto
  show "all_delivered lib v two_turns b" "asked two_turns = {#}"
    by (simp_all only: two_turns_def d a)
  assume "k < POOL_SIZE"
  then have "1 \<le> length (filter (turn_of k) (map (\<lambda>k. Task_turn k True False 0) [0..<POOL_SIZE]))"
    by (intro f) simp
  from add_mono [OF this this] show "2 \<le> length (filter (turn_of k) two_turns)"
    by (simp add: two_turns_def numeral_2_eq_2 del: upt_Suc)
qed

theorem every_request_is_answered_once_witness:
  "answered (server_run plain_pins [] two_turns (firmware_main plain_pins [] None two_sessions)) = {#1, 1, 2#}"
proof -
  let ?b = "firmware_main plain_pins [] None two_sessions"
  have "all_delivered plain_pins [] (concat two_sessions) (boot plain_pins None)"
    by (simp add: two_sessions_def)
  moreover have "resetting ?b = No_reset"
    by (simp add: firmware_main_flat server_run_def two_sessions_def spawn_monitor_def boot_def set_task_def
        split: option.split)
  moreover have "asked (concat two_sessions) = {#1, 1, 2#}"
    by (simp add: two_sessions_def)
  ultimately show ?thesis
    using every_request_is_answered_once [of ?b plain_pins "[]" None two_sessions two_turns]
    by (simp add: two_turns_simps)
qed

theorem patient_host_is_never_refused_witness:
  "\<exists>k < POOL_SIZE. app_handle plain_pins [] 12 True (Pin_monitor_rq (monitor_rq 4 True)) watched_board
     = set_task k (Some (Spawned 12 (monitor_rq 4 True))) watched_board"
proof -
  have "owed watched_board = {#11#}"
    by (simp add: owed_def task_debts_def POOL_SIZE_def NUM_PINS_def lessThan_nat_numeral lessThan_Suc
        watched_board_def plain_simps upt_rec)
  with patient_host_is_never_refused [OF watched_board_reachable, of "[]" 12 True "monitor_rq 4 True"]
  show ?thesis by auto
qed

end
