(* ===== verification/Results.thy ===== *)
theory Results
  imports Config
begin

text \<open>
  Machine-readable results (\<open>banc-host/src/results.rs\<close>): the record of one trial, appending it
  to \<open>results.jsonl\<close> as a best effort, and the name of the suite. The JSON encoder and the
  file system are arguments.
\<close>

definition SCHEMA :: u32 where
  "SCHEMA = 1"

datatype outcome = Passed | Failed | Skipped

record test_record =
  schema :: u32
  rec_suite :: rstr
  rec_test :: rstr
  verdict :: outcome
  rec_reason :: "rstr option"
  rec_attempts :: u32
  duration_ms :: u64
  finished_at :: u64
  evidence_path :: "path option"

definition new_record :: "u64 option \<Rightarrow> rstr \<Rightarrow> rstr \<Rightarrow> outcome \<Rightarrow> test_record" where
  "new_record unix_now s t out =
    \<lparr>schema = SCHEMA, rec_suite = s, rec_test = t, verdict = out, rec_reason = None, rec_attempts = 1,
     duration_ms = 0, finished_at = (case unix_now of Some d \<Rightarrow> d | None \<Rightarrow> 0), evidence_path = None\<rparr>"

record ('f, 'w) result_fs =
  rf_create_dir_all :: "path \<Rightarrow> 'w \<Rightarrow> bool \<times> 'w"
  rf_open_append :: "path \<Rightarrow> 'w \<Rightarrow> 'f option \<times> 'w"
  rf_write_all :: "'f \<Rightarrow> rstr \<Rightarrow> 'w \<Rightarrow> bool \<times> 'w"

definition results_file :: "path \<Rightarrow> path" where
  "results_file dir = file_in dir (lit ''results.jsonl'')"

definition append_record ::
  "(test_record \<Rightarrow> rstr option) \<Rightarrow> ('f, 'w) result_fs \<Rightarrow> path \<Rightarrow> test_record \<Rightarrow> 'w \<Rightarrow> 'w" where
  "append_record to_string fs dir r w =
    (case to_string r of
       None \<Rightarrow> w
     | Some l \<Rightarrow>
         (case rf_create_dir_all fs dir w of
            (False, w1) \<Rightarrow> w1
          | (True, w1) \<Rightarrow>
              (case rf_open_append fs (results_file dir) w1 of
                 (None, w2) \<Rightarrow> w2
               | (Some f, w2) \<Rightarrow> snd (rf_write_all fs f (l @ [10]) w2))))"

section \<open>The suite name\<close>

fun rsplit_once :: "rchar \<Rightarrow> rstr \<Rightarrow> (rstr \<times> rstr) option" where
  "rsplit_once c [] = None"
| "rsplit_once c (x # xs) =
     (case rsplit_once c xs of
        Some (a, b) \<Rightarrow> Some (x # a, b)
      | None \<Rightarrow> if x = c then Some ([], xs) else None)"

text \<open>\<open>Path::file_stem\<close>: the last component up to its last dot, unless that dot leads it.\<close>

definition file_stem :: "path \<Rightarrow> rstr option" where
  "file_stem p =
    (if parts p = [] \<or> last (parts p) = lit ''..'' then None
     else case rsplit_once 46 (last (parts p)) of
            None \<Rightarrow> Some (last (parts p))
          | Some (a, _) \<Rightarrow> Some (if a = [] then last (parts p) else a))"

definition suite_name :: "path option \<Rightarrow> rstr" where
  "suite_name current_exe =
    (let stem = (case current_exe of
                   None \<Rightarrow> lit ''unknown''
                 | Some p \<Rightarrow> (case file_stem p of None \<Rightarrow> lit ''unknown'' | Some s \<Rightarrow> s))
     in case rsplit_once 45 stem of
          Some (name, hash) \<Rightarrow>
            if str_len hash = 16 \<and> list_all is_ascii_hexdigit hash then name else stem
        | None \<Rightarrow> stem)"

lemma rsplit_once_None: "c \<notin> set s \<Longrightarrow> rsplit_once c s = None"
  by (induction s) auto

lemma rsplit_once_append: "c \<notin> set b \<Longrightarrow> rsplit_once c (a @ c # b) = Some (a, b)"
  by (induction a) (auto simp: rsplit_once_None)

lemma rsplit_once_Some: "rsplit_once c s = Some (a, b) \<Longrightarrow> s = a @ c # b \<and> c \<notin> set b"
proof (induction s arbitrary: a)
  case (Cons x xs)
  have "c \<notin> set xs" if "rsplit_once c xs = None"
    using that by (metis rsplit_once_append option.distinct(1) split_list_last)
  with Cons show ?case by (auto split: option.splits if_splits)
qed simp

text \<open>Cargo's suffix is stripped, and a stem without one is kept as it is.\<close>

lemma suite_name_hashed:
  assumes "file_stem p = Some (name @ [45] @ hash)" and "length hash = 16"
    and "list_all is_ascii_hexdigit hash"
  shows "suite_name (Some p) = name"
proof -
  have "45 \<notin> set hash" using assms(3) by (auto simp: list_all_iff is_ascii_hexdigit_def is_ascii_digit_def)
  moreover have "str_len hash = 16"
  proof -
    have "list_all (\<lambda>c. c < 0x80) hash"
      using assms(3) by (auto simp: list_all_iff is_ascii_hexdigit_def is_ascii_digit_def)
    with assms(2) show ?thesis by (simp add: str_len_ascii)
  qed
  ultimately show ?thesis
    using assms rsplit_once_append [of 45 hash name] by (simp add: suite_name_def Let_def)
qed

lemma suite_name_plain:
  assumes "file_stem p = Some stem"
    and "\<And>name hash. stem = name @ [45] @ hash \<Longrightarrow>
      \<not> (str_len hash = 16 \<and> list_all is_ascii_hexdigit hash)"
  shows "suite_name (Some p) = stem"
proof (cases "rsplit_once 45 stem")
  case (Some ab)
  with rsplit_once_Some [of 45 stem "fst ab" "snd ab"] assms(2) [of "fst ab" "snd ab"] assms(1)
  show ?thesis by (auto simp: suite_name_def Let_def split: prod.split)
qed (simp add: suite_name_def assms(1))

end
