(* ===== verification/Evidence.thy ===== *)
theory Evidence
  imports Config
begin

text \<open>
  Per-test evidence (\<open>banc-host/src/evidence.rs\<close>): a bounded log that forgets its oldest
  entries and counts them, the tail shown under a failure, and the file a failure leaves
  behind. All clones share one mutex, so a log is a sequence of \<open>ev_record\<close> steps.

  Times are printed in milliseconds with three decimals from a double-precision quotient. The
  model prints the exact decimal, which is what the code prints for tests shorter than
  \<open>2 ^ 43\<close> microseconds (a hundred days).
\<close>

section \<open>The log\<close>

definition MAX_ENTRIES :: nat where
  "MAX_ENTRIES = 50000"

record entry =
  at_us :: nat
  source :: rstr
  line :: rstr

record evidence =
  ev_test :: rstr
  started :: instant
  entries :: "entry list"
  dropped :: u64

definition new_evidence :: "rstr \<Rightarrow> instant \<Rightarrow> evidence" where
  "new_evidence test now = \<lparr>ev_test = test, started = now, entries = [], dropped = 0\<rparr>"

definition as_micros :: "duration \<Rightarrow> nat" where
  "as_micros d = d div 1000"

definition ev_record :: "instant \<Rightarrow> rstr \<Rightarrow> rstr \<Rightarrow> evidence \<Rightarrow> evidence" where
  "ev_record now src text ev =
    (let us = as_micros (saturating_duration_since now (started ev));
         ev1 = (if MAX_ENTRIES \<le> length (entries ev)
                then ev\<lparr>entries := tl (entries ev), dropped := dropped ev + 1\<rparr> else ev)
     in ev1\<lparr>entries := entries ev1 @ [\<lparr>at_us = us, source = src, line = text\<rparr>]\<rparr>)"

definition ev_is_empty :: "evidence \<Rightarrow> bool" where
  "ev_is_empty ev \<longleftrightarrow> entries ev = []"

section \<open>Its text\<close>

definition pad_left :: "nat \<Rightarrow> rstr \<Rightarrow> rstr" where
  "pad_left n s = replicate (n - length s) 32 @ s"

definition show_millis :: "nat \<Rightarrow> rstr" where
  "show_millis us = show_nat (us div 1000) @ lit ''.'' @
     [48 + us div 100 mod 10, 48 + us div 10 mod 10, 48 + us mod 10]"

definition entry_line :: "entry \<Rightarrow> rstr" where
  "entry_line e = lit ''['' @ pad_left 10 (show_millis (at_us e)) @ lit ''ms '' @ source e @ lit ''] ''
     @ line e @ [10]"

definition ev_tail :: "nat \<Rightarrow> evidence \<Rightarrow> rstr" where
  "ev_tail n ev =
    (let skip = length (entries ev) - n;
         out = (if 0 < dropped ev \<and> skip = 0
                then lit ''[... '' @ show_nat (unat (dropped ev)) @ lit '' earlier entries dropped ...]'' @ [10]
                else [])
     in out @ concat (map entry_line (drop skip (entries ev))))"

definition sanitize :: "rstr \<Rightarrow> rstr" where
  "sanitize test = map (\<lambda>c. if is_ascii_alphanumeric c \<or> c = 45 \<or> c = 95 then c else 95) test"

definition evidence_file :: "path \<Rightarrow> evidence \<Rightarrow> path" where
  "evidence_file dir ev = file_in dir (sanitize (ev_test ev) @ lit ''.evidence.log'')"

definition evidence_text :: "evidence \<Rightarrow> rstr" where
  "evidence_text ev =
    (if 0 < dropped ev
     then lit ''[... '' @ show_nat (unat (dropped ev)) @ lit '' earlier entries dropped (evidence cap) ...]'' @ [10]
     else []) @ concat (map entry_line (entries ev))"

text \<open>Creating the directory and writing the file are arguments over a file system.\<close>

definition persist ::
  "(path \<Rightarrow> 'w \<Rightarrow> ('io + unit) \<times> 'w) \<Rightarrow> (path \<Rightarrow> rstr \<Rightarrow> 'w \<Rightarrow> ('io + unit) \<times> 'w)
   \<Rightarrow> path \<Rightarrow> evidence \<Rightarrow> 'w \<Rightarrow> ('io + path) \<times> 'w" where
  "persist create_dir_all write dir ev w =
    st_then (create_dir_all dir w) (\<lambda>_ w1.
    st_then (write (evidence_file dir ev) (evidence_text ev) w1) (\<lambda>_ w2.
      (Inr (evidence_file dir ev), w2)))"

section \<open>What a sequence of records leaves\<close>

type_synonym observation = "instant \<times> rstr \<times> rstr"

definition ev_records :: "observation list \<Rightarrow> evidence \<Rightarrow> evidence" where
  "ev_records obs ev = foldl (\<lambda>ev (now, src, text). ev_record now src text ev) ev obs"

definition entry_of :: "instant \<Rightarrow> observation \<Rightarrow> entry" where
  "entry_of t0 ob = (case ob of (now, src, text) \<Rightarrow>
    \<lparr>at_us = as_micros (saturating_duration_since now t0), source = src, line = text\<rparr>)"

lemma ev_record_simps:
  "started (ev_record now src text ev) = started ev" "ev_test (ev_record now src text ev) = ev_test ev"
  "entries (ev_record now src text ev) =
     (if MAX_ENTRIES \<le> length (entries ev) then tl (entries ev) else entries ev)
       @ [entry_of (started ev) (now, src, text)]"
  "dropped (ev_record now src text ev) =
     (if MAX_ENTRIES \<le> length (entries ev) then dropped ev + 1 else dropped ev)"
  by (simp_all add: ev_record_def entry_of_def Let_def)

lemma ev_records_invariant:
  "started (ev_records obs (new_evidence test t0)) = t0
   \<and> ev_test (ev_records obs (new_evidence test t0)) = test
   \<and> entries (ev_records obs (new_evidence test t0))
       = drop (length obs - MAX_ENTRIES) (map (entry_of t0) obs)
   \<and> dropped (ev_records obs (new_evidence test t0)) = of_nat (length obs - MAX_ENTRIES)"
proof (induction obs rule: rev_induct)
  case Nil
  then show ?case by (simp add: ev_records_def new_evidence_def)
next
  case (snoc ob obs)
  obtain now src msg where ob: "ob = (now, src, msg)" by (rule prod_cases3)
  let ?ev = "ev_records obs (new_evidence test t0)" and ?es = "map (entry_of t0) obs"
  have step: "ev_records (obs @ [ob]) (new_evidence test t0) = ev_record now src msg ?ev"
    by (simp add: ev_records_def ob)
  have len: "length (entries ?ev) = min (length obs) MAX_ENTRIES"
    using snoc by (simp add: min_def)
  show ?case
  proof (cases "MAX_ENTRIES \<le> length obs")
    case True
    then have d: "length (obs @ [ob]) - MAX_ENTRIES = Suc (length obs - MAX_ENTRIES)" by simp
    have "tl (drop (length obs - MAX_ENTRIES) ?es) = drop (Suc (length obs - MAX_ENTRIES)) ?es"
      by (simp add: tl_drop drop_Suc)
    with True len snoc step d show ?thesis
      by (simp add: ev_record_simps ob MAX_ENTRIES_def)
  next
    case False
    with len snoc step show ?thesis by (simp add: ev_record_simps ob)
  qed
qed

lemma concat_suffix: "drop k es = es' \<Longrightarrow> \<exists>pre. concat (map f es) = pre @ concat (map f es')"
  by (metis append_take_drop_id concat_append map_append)

section \<open>Properties\<close>

text \<open>
  C25: the log keeps the newest fifty thousand observations, in order and with the time since
  the test began, and counts exactly the ones it forgot; an empty log means nothing was ever
  observed.
\<close>

theorem evidence_keeps_the_newest:
  "let ev = ev_records obs (new_evidence test t0) in
    entries ev = drop (length obs - MAX_ENTRIES) (map (entry_of t0) obs)
    \<and> length (entries ev) = min (length obs) MAX_ENTRIES
    \<and> dropped ev = of_nat (length obs - MAX_ENTRIES)
    \<and> (ev_is_empty ev \<longleftrightarrow> obs = [])"
  using ev_records_invariant [of obs test t0]
  by (cases obs rule: rev_cases) (auto simp: Let_def ev_is_empty_def MAX_ENTRIES_def)

text \<open>
  What a failure shows is honest about being incomplete. The persisted text starts with
  the number of forgotten observations exactly when some were forgotten, and then has one
  line for each retained one; the tail shown inline ends the same text, has at most the
  requested number of lines, and carries the notice when it shows all that is retained.
\<close>

theorem evidence_text_is_honest:
  assumes "length obs < 2 ^ 64"
  shows "let ev = ev_records obs (new_evidence test t0);
             k = length obs - MAX_ENTRIES;
             shown = drop (length (entries ev) - n) (entries ev)
    in evidence_text ev =
         (if k = 0 then [] else lit ''[... '' @ show_nat k @ lit '' earlier entries dropped (evidence cap) ...]'' @ [10])
         @ concat (map entry_line (drop k (map (entry_of t0) obs)))
      \<and> ev_tail n ev =
         (if k = 0 \<or> n < length (entries ev) then []
          else lit ''[... '' @ show_nat k @ lit '' earlier entries dropped ...]'' @ [10])
         @ concat (map entry_line shown)
      \<and> length shown \<le> n \<and> (\<exists>pre. evidence_text ev = pre @ concat (map entry_line shown))"
proof -
  let ?ev = "ev_records obs (new_evidence test t0)" and ?k = "length obs - MAX_ENTRIES"
  have i: "entries ?ev = drop ?k (map (entry_of t0) obs)" "dropped ?ev = of_nat ?k"
    using ev_records_invariant [of obs test t0] by simp_all
  have "?k < 2 ^ 64" using assms by simp
  then have u: "unat (dropped ?ev) = ?k" by (simp add: i(2) unat_of_nat)
  then have z: "0 < dropped ?ev \<longleftrightarrow> ?k \<noteq> 0"
    using word_gt_0 unat_eq_0 [of "dropped ?ev"] by fastforce
  have "\<exists>pre. evidence_text ?ev = pre @ concat (map entry_line
      (drop (length (entries ?ev) - n) (entries ?ev)))"
    unfolding evidence_text_def using concat_suffix [OF refl] by (metis append.assoc)
  moreover have "length (drop (length (entries ?ev) - n) (entries ?ev)) \<le> n" by simp
  moreover have "evidence_text ?ev =
      (if ?k = 0 then [] else lit ''[... '' @ show_nat ?k @ lit '' earlier entries dropped (evidence cap) ...]'' @ [10])
      @ concat (map entry_line (drop ?k (map (entry_of t0) obs)))"
    using u z by (simp add: evidence_text_def i(1))
  moreover have "ev_tail n ?ev =
      (if ?k = 0 \<or> n < length (entries ?ev) then []
       else lit ''[... '' @ show_nat ?k @ lit '' earlier entries dropped ...]'' @ [10])
      @ concat (map entry_line (drop (length (entries ?ev) - n) (entries ?ev)))"
    using u z by (simp add: ev_tail_def Let_def not_less)
  ultimately show ?thesis unfolding Let_def by blast
qed

theorem evidence_text_is_honest_witness:
  "\<exists>pre. evidence_text (ev_records [(Instant 5000, lit ''runner'', lit ''x'')] (new_evidence [] (Instant 0)))
    = pre @ entry_line \<lparr>at_us = 5, source = lit ''runner'', line = lit ''x''\<rparr>"
  using evidence_text_is_honest [of "[(Instant 5000, lit ''runner'', lit ''x'')]" "[]" "Instant 0" 1]
  by (simp add: Let_def MAX_ENTRIES_def ev_records_invariant entry_of_def as_micros_def
      saturating_duration_since_def)

lemma sanitize_eq_iff:
  "sanitize s = sanitize t \<longleftrightarrow>
   list_all2 (\<lambda>a b. a = b \<or> \<not> (is_ascii_alphanumeric a \<or> a = 45) \<and> \<not> (is_ascii_alphanumeric b \<or> b = 45)) s t"
proof (induction s arbitrary: t)
  case (Cons a s)
  have under: "\<not> is_ascii_alphanumeric 95"
    by (simp add: is_ascii_alphanumeric_def is_ascii_digit_def is_ascii_lower_def is_ascii_upper_def)
  show ?case
    using Cons.IH under by (cases t) (auto simp: sanitize_def)
qed (auto simp: sanitize_def)

text \<open>
  C27: a test name cannot escape the artifacts directory. The evidence file is directly inside
  the directory, its name has only ASCII letters, digits, hyphens, underscores and the fixed
  suffix, and it is neither the directory itself nor its parent; a name that is already safe
  is kept. The price is that names are told apart only by their letters, digits and hyphens:
  two tests share a file exactly when their names agree in these, position by position.
\<close>

theorem evidence_file_stays_inside:
  "parent (evidence_file dir ev) = Some dir
   \<and> (\<exists>stem. parts (evidence_file dir ev) = parts dir @ [stem @ lit ''.evidence.log'']
        \<and> list_all (\<lambda>c. is_ascii_alphanumeric c \<or> c = 45 \<or> c = 95) stem
        \<and> (list_all (\<lambda>c. is_ascii_alphanumeric c \<or> c = 45 \<or> c = 95) (ev_test ev) \<longrightarrow> stem = ev_test ev))
   \<and> last (parts (evidence_file dir ev)) \<notin> {[], lit ''.'', lit ''..''}
   \<and> (evidence_file dir ev = evidence_file dir ev' \<longleftrightarrow> list_all2 (\<lambda>a b. a = b
        \<or> \<not> (is_ascii_alphanumeric a \<or> a = 45) \<and> \<not> (is_ascii_alphanumeric b \<or> b = 45)) (ev_test ev) (ev_test ev'))"
proof -
  have "list_all (\<lambda>c. is_ascii_alphanumeric c \<or> c = 45 \<or> c = 95) (sanitize s)" for s
    by (auto simp: sanitize_def list_all_iff)
  moreover have "sanitize s = s" if "list_all (\<lambda>c. is_ascii_alphanumeric c \<or> c = 45 \<or> c = 95) s" for s
    using that by (auto simp: sanitize_def list_all_iff map_idI)
  moreover have "evidence_file dir ev = evidence_file dir ev' \<longleftrightarrow> sanitize (ev_test ev) = sanitize (ev_test ev')"
  proof
    assume "evidence_file dir ev = evidence_file dir ev'"
    then have "parts (evidence_file dir ev) = parts (evidence_file dir ev')" by simp
    then show "sanitize (ev_test ev) = sanitize (ev_test ev')" by (simp add: evidence_file_def)
  qed (simp add: evidence_file_def)
  ultimately show ?thesis
    unfolding sanitize_eq_iff by (auto simp: evidence_file_def lit_def dest: arg_cong [where f = length])
qed

theorem evidence_file_stays_inside_witness:
  "parts (evidence_file (path_of (lit ''/art'')) (new_evidence (lit ''boot_once'') (Instant 0)))
      = [lit ''art'', lit ''boot_once.evidence.log'']
    \<and> evidence_file (path_of (lit ''/art'')) (new_evidence (lit ''boot_once'') (Instant 0))
      = evidence_file (path_of (lit ''/art'')) (new_evidence (lit ''boot.once'') (Instant 0))"
  using evidence_file_stays_inside [of "path_of (lit ''/art'')" "new_evidence (lit ''boot_once'') (Instant 0)"
      "new_evidence (lit ''boot.once'') (Instant 0)"]
  by (auto simp: new_evidence_def path_of_def lit_def is_ascii_alphanumeric_def is_ascii_digit_def
      is_ascii_upper_def is_ascii_lower_def)

end
