(* ===== verification/Runner.thy ===== *)
theory Runner
  imports Results Evidence Rig
begin

text \<open>
  The test runner (\<open>banc-host/src/runner.rs\<close>): one trial with its retries, its evidence and its
  record, and the sequence of trials of a process, which share one acquisition of the rig.
  The test body is an argument: it runs on its own runtime, may add evidence, and returns,
  fails or panics. Selecting and reporting trials is the test harness's part.
\<close>

section \<open>The parts a trial is built from\<close>

text \<open>What an attempt ends with. A failure may carry a message.\<close>

datatype attempt_end = Finished "rstr option + unit" | Panicking

text \<open>
  What a body is given: the rig, the log of its evidence and the number of the attempt. The
  log is shared with the runner, so what the body leaves in it comes back.
\<close>

record 'r test_cx =
  cx_rig :: 'r
  cx_evidence :: evidence
  cx_attempt :: u32

record ('r, 'w) banc_test =
  bt_name :: rstr
  bt_attempts :: u32
  bt_body :: "'r test_cx \<Rightarrow> 'w \<Rightarrow> attempt_end \<times> evidence \<times> 'w"

definition new_test :: "rstr \<Rightarrow> ('r test_cx \<Rightarrow> 'w \<Rightarrow> attempt_end \<times> evidence \<times> 'w) \<Rightarrow> ('r, 'w) banc_test" where
  "new_test name f = \<lparr>bt_name = name, bt_attempts = 1, bt_body = f\<rparr>"

definition with_attempts :: "u32 \<Rightarrow> ('r, 'w) banc_test \<Rightarrow> ('r, 'w) banc_test" where
  "with_attempts n t = t\<lparr>bt_attempts := max n 1\<rparr>"

datatype 'r rig_state = Ready 'r | No_rig rstr | Broken_rig rstr

record ('r, 'w) runner_env =
  re_artifacts :: "path option"
  re_rig_artifacts :: "'r \<Rightarrow> path"
  re_acquire :: "'w \<Rightarrow> ((rstr + rstr) + 'r) option \<times> 'w"
  re_append :: "path \<Rightarrow> test_record \<Rightarrow> 'w \<Rightarrow> 'w"
  re_now :: "'w \<Rightarrow> instant"
  re_unix :: "'w \<Rightarrow> u64 option"
  re_persist :: "path \<Rightarrow> evidence \<Rightarrow> 'w \<Rightarrow> (rstr + path) \<times> 'w"
  re_display :: "path \<Rightarrow> rstr"
  re_suite :: rstr

definition results_dir :: "('r, 'w) runner_env \<Rightarrow> 'r rig_state \<Rightarrow> path option" where
  "results_dir env st =
    (case re_artifacts env of
       Some p \<Rightarrow> Some p
     | None \<Rightarrow> (case st of Ready r \<Rightarrow> Some (re_rig_artifacts env r) | _ \<Rightarrow> None))"

definition record_trial :: "('r, 'w) runner_env \<Rightarrow> 'r rig_state \<Rightarrow> test_record \<Rightarrow> 'w \<Rightarrow> 'w" where
  "record_trial env st r w =
    (case results_dir env st of None \<Rightarrow> w | Some dir \<Rightarrow> re_append env dir r w)"

text \<open>
  The rig is acquired on first use; a skip and a failure are kept as text. An acquisition
  that panics unwinds out of \<open>get_or_init\<close>, which is \<open>None\<close>, and leaves the cell empty.
\<close>

definition init_state :: "((rstr + rstr) + 'r) \<Rightarrow> 'r rig_state" where
  "init_state r = (case r of Inr rg \<Rightarrow> Ready rg | Inl (Inl reason) \<Rightarrow> No_rig reason
     | Inl (Inr e) \<Rightarrow> Broken_rig e)"

definition get_or_init ::
  "('r, 'w) runner_env \<Rightarrow> 'r rig_state option \<Rightarrow> 'w \<Rightarrow> 'r rig_state option \<times> 'w" where
  "get_or_init env cell w =
    (case cell of Some st \<Rightarrow> (Some st, w)
     | None \<Rightarrow> (case re_acquire env w of (r, w1) \<Rightarrow> (map_option init_state r, w1)))"

section \<open>One trial\<close>

definition show_u32 :: "u32 \<Rightarrow> rstr" where
  "show_u32 n = show_nat (unat n)"

definition message_or :: "rstr option \<Rightarrow> rstr" where
  "message_or m = (case m of Some s \<Rightarrow> s | None \<Rightarrow> lit ''test failed'')"

definition runner_note :: "('r, 'w) runner_env \<Rightarrow> rstr \<Rightarrow> evidence \<Rightarrow> 'w \<Rightarrow> evidence" where
  "runner_note env msg ev w = ev_record (re_now env w) (lit ''runner'') msg ev"

text \<open>
  The loop over attempts, from the given one up to the number the test allows: the result, the
  number of the last attempt, the evidence and the world. \<open>fuel\<close> is the number of attempts
  still allowed.
\<close>

fun run_attempts ::
  "('r, 'w) runner_env \<Rightarrow> 'r \<Rightarrow> ('r, 'w) banc_test \<Rightarrow> nat \<Rightarrow> u32 \<Rightarrow> evidence \<Rightarrow> 'w
   \<Rightarrow> attempt_end \<times> u32 \<times> evidence \<times> 'w" where
  "run_attempts env rg t 0 attempt ev w = (Finished (Inr ()), attempt, ev, w)"
| "run_attempts env rg t (Suc fuel) attempt ev w =
     (let ev1 = (if 1 < attempt
                 then runner_note env (lit ''--- attempt '' @ show_u32 attempt @ lit '' ---'') ev w else ev);
          (res, ev2, w2) = bt_body t \<lparr>cx_rig = rg, cx_evidence = ev1, cx_attempt = attempt\<rparr> w
      in case res of
           Panicking \<Rightarrow> (Panicking, attempt, ev2, w2)
         | Finished (Inr _) \<Rightarrow> (Finished (Inr ()), attempt, ev2, w2)
         | Finished (Inl m) \<Rightarrow>
             if attempt < bt_attempts t then
               run_attempts env rg t fuel (attempt + 1)
                 (runner_note env (lit ''attempt '' @ show_u32 attempt @ lit '' failed: '' @ message_or m) ev2 w2) w2
             else (Finished (Inl m), attempt, ev2, w2))"

datatype completion = Completed | Ignored rstr | Failed_with rstr | Unwound

text \<open>The report of a failed test: its message, and the evidence when there is any.\<close>

definition failure_report ::
  "('r, 'w) runner_env \<Rightarrow> 'r \<Rightarrow> evidence \<Rightarrow> rstr \<Rightarrow> 'w \<Rightarrow> (rstr \<times> path option) \<times> 'w" where
  "failure_report env rg ev msg w =
    (if ev_is_empty ev then ((msg, None), w)
     else case re_persist env (re_rig_artifacts env rg) ev w of
            (Inr p, w1) \<Rightarrow>
              ((msg @ [10] @ lit ''--- evidence (tail) ---'' @ [10] @ ev_tail 40 ev
                  @ lit ''full log: '' @ re_display env p, Some p), w1)
          | (Inl e, w1) \<Rightarrow>
              ((msg @ [10] @ lit ''--- evidence (tail; persist failed: '' @ e @ lit '') ---'' @ [10]
                  @ ev_tail 40 ev, None), w1))"

definition run_trial ::
  "('r, 'w) runner_env \<Rightarrow> ('r, 'w) banc_test \<Rightarrow> 'r rig_state option \<Rightarrow> 'w
   \<Rightarrow> completion \<times> 'r rig_state option \<times> 'w" where
  "run_trial env t cell w =
    (let began = re_now env w;
         (cell1, w1) = get_or_init env cell w;
         name = bt_name t
     in case cell1 of None \<Rightarrow> (Unwound, cell, w1) | Some st \<Rightarrow>
        (case st of
          No_rig reason \<Rightarrow>
            (Ignored reason, Some st,
             record_trial env st ((new_record (re_unix env w1) (re_suite env) name Skipped)
               \<lparr>rec_reason := Some reason\<rparr>) w1)
        | Broken_rig e \<Rightarrow>
            (Failed_with (lit ''rig unavailable: '' @ e), Some st,
             record_trial env st ((new_record (re_unix env w1) (re_suite env) name Failed)
               \<lparr>rec_reason := Some (lit ''rig unavailable: '' @ e)\<rparr>) w1)
        | Ready rg \<Rightarrow>
            (case run_attempts env rg t (unat (bt_attempts t)) 1 (new_evidence name (re_now env w1)) w1 of
               (Panicking, _, _, w2) \<Rightarrow> (Unwound, Some st, w2)
             | (Finished res, used, ev, w2) \<Rightarrow>
                 (let rec = (new_record (re_unix env w2) (re_suite env) name Passed)
                        \<lparr>rec_attempts := used,
                         duration_ms := of_nat (saturating_duration_since (re_now env w2) began div 1000000)\<rparr>
                  in case res of
                       Inr _ \<Rightarrow> (Completed, Some st, record_trial env st rec w2)
                     | Inl m \<Rightarrow>
                         (case failure_report env rg ev (message_or m) w2 of
                            ((report, p), w3) \<Rightarrow>
                              (Failed_with report, Some st,
                               record_trial env st (rec\<lparr>verdict := Failed, rec_reason := Some (message_or m),
                                  evidence_path := p\<rparr>) w3))))))"

section \<open>A process\<close>

fun run_trials ::
  "('r, 'w) runner_env \<Rightarrow> ('r, 'w) banc_test list \<Rightarrow> 'r rig_state option \<Rightarrow> 'w
   \<Rightarrow> completion list \<times> 'r rig_state option \<times> 'w" where
  "run_trials env [] cell w = ([], cell, w)"
| "run_trials env (t # ts) cell w =
     (let (c, cell1, w1) = run_trial env t cell w;
          (cs, cell2, w2) = run_trials env ts cell1 w1
      in (c # cs, cell2, w2))"

text \<open>The process: one thread, one cell for the rig, the trials the harness selected in order.\<close>

definition run_suite ::
  "('r, 'w) runner_env \<Rightarrow> (('r, 'w) banc_test list \<Rightarrow> ('r, 'w) banc_test list) \<Rightarrow> ('r, 'w) banc_test list \<Rightarrow> 'w
   \<Rightarrow> completion list \<times> 'r rig_state option \<times> 'w" where
  "run_suite env selected tests w = run_trials env (selected tests) None w"

section \<open>What the attempts did\<close>

text \<open>How each attempt that was made ended, in order.\<close>

fun attempt_ends ::
  "('r, 'w) runner_env \<Rightarrow> 'r \<Rightarrow> ('r, 'w) banc_test \<Rightarrow> nat \<Rightarrow> u32 \<Rightarrow> evidence \<Rightarrow> 'w \<Rightarrow> attempt_end list" where
  "attempt_ends env rg t 0 attempt ev w = []"
| "attempt_ends env rg t (Suc fuel) attempt ev w =
     (let ev1 = (if 1 < attempt
                 then runner_note env (lit ''--- attempt '' @ show_u32 attempt @ lit '' ---'') ev w else ev);
          (res, ev2, w2) = bt_body t \<lparr>cx_rig = rg, cx_evidence = ev1, cx_attempt = attempt\<rparr> w
      in res # (case res of
           Finished (Inl m) \<Rightarrow>
             if attempt < bt_attempts t then
               attempt_ends env rg t fuel (attempt + 1)
                 (runner_note env (lit ''attempt '' @ show_u32 attempt @ lit '' failed: '' @ message_or m) ev2 w2) w2
             else []
         | _ \<Rightarrow> []))"

definition is_failure :: "attempt_end \<Rightarrow> bool" where
  "is_failure e \<longleftrightarrow> (\<exists>m. e = Finished (Inl m))"

lemma is_failure_simps [simp]: "is_failure (Finished (Inl m))" "\<not> is_failure Panicking"
  "\<not> is_failure (Finished (Inr u))"
  by (simp_all add: is_failure_def)

lemma unat_Suc_less: "(a :: u32) < b \<Longrightarrow> unat (a + 1) = Suc (unat a)"
proof -
  assume "a < b"
  then have "Suc (unat a) < 2 ^ 32"
    using unsigned_less [of b, where 'a = nat] by (simp add: word_less_nat_alt)
  then show ?thesis by (simp add: unat_word_ariths)
qed

lemma run_attempts_ends:
  assumes "run_attempts env rg t fuel attempt ev w = (res, used, ev', w')" and "fuel \<noteq> 0"
    and "unat attempt + fuel = Suc (unat (bt_attempts t))"
  shows "attempt_ends env rg t fuel attempt ev w \<noteq> [] \<and> res = last (attempt_ends env rg t fuel attempt ev w)
    \<and> list_all is_failure (butlast (attempt_ends env rg t fuel attempt ev w))
    \<and> Suc (unat used) = unat attempt + length (attempt_ends env rg t fuel attempt ev w)
    \<and> unat used \<le> unat (bt_attempts t)
    \<and> (is_failure res \<longrightarrow> used = bt_attempts t)"
  using assms
proof (induction env rg t fuel attempt ev w rule: run_attempts.induct)
  case (2 env rg t fuel attempt ev w)
  define ev1 where "ev1 = (if 1 < attempt
      then runner_note env (lit ''--- attempt '' @ show_u32 attempt @ lit '' ---'') ev w else ev)"
  obtain e ev2 w2 where b: "bt_body t \<lparr>cx_rig = rg, cx_evidence = ev1, cx_attempt = attempt\<rparr> w = (e, ev2, w2)" by (rule prod_cases3)
  have le: "unat attempt \<le> unat (bt_attempts t)" using 2(4) by simp
  show ?case
  proof (cases "is_failure e \<and> attempt < bt_attempts t")
    case False
    with 2(2) b have r: "res = e" "used = attempt"
      by (auto simp: Let_def is_failure_def ev1_def [symmetric] split: attempt_end.splits sum.splits)
    have a: "attempt_ends env rg t (Suc fuel) attempt ev w = [e]"
      using False b by (auto simp: Let_def is_failure_def ev1_def [symmetric] split: attempt_end.splits sum.splits)
    have "attempt = bt_attempts t" if "\<not> attempt < bt_attempts t"
      using le that by (simp add: word_less_nat_alt word_unat_eq_iff)
    then show ?thesis using r le False unfolding a by auto
  next
    case True
    then obtain m where e: "e = Finished (Inl m)" and more: "attempt < bt_attempts t"
      by (auto simp: is_failure_def)
    let ?ev = "runner_note env (lit ''attempt '' @ show_u32 attempt @ lit '' failed: '' @ message_or m) ev2 w2"
    have u: "unat (attempt + 1) = Suc (unat attempt)"
      using more by (rule unat_Suc_less)
    have f: "fuel \<noteq> 0" using 2(4) more by (auto simp: word_less_nat_alt)
    have run: "run_attempts env rg t fuel (attempt + 1) ?ev w2 = (res, used, ev', w')"
      using 2(2) b e more by (simp add: Let_def flip: ev1_def)
    have a: "attempt_ends env rg t (Suc fuel) attempt ev w = e # attempt_ends env rg t fuel (attempt + 1) ?ev w2"
      using b e more by (simp add: Let_def flip: ev1_def)
    have "unat (attempt + 1) + fuel = Suc (unat (bt_attempts t))" using 2(4) u by simp
    from 2(1) [OF ev1_def b [symmetric] refl refl e refl more run f this]
    show ?thesis unfolding a using e u by auto
  qed
qed simp

text \<open>
  The result is that of the last attempt, whose context is known. \<open>R\<close> is whatever every body
  does to the world and what the worlds of several in a row therefore share.
\<close>

lemma run_attempts_last:
  assumes "run_attempts env rg t fuel attempt ev w = (res, used, ev', w')" and "fuel \<noteq> 0"
    and "unat attempt + fuel = Suc (unat (bt_attempts t))"
    and R: "reflp R" "transp R" "\<And>cx w. R w (snd (snd (bt_body t cx w)))"
  shows "\<exists>ev0 w0. R w w0 \<and> bt_body t \<lparr>cx_rig = rg, cx_evidence = ev0, cx_attempt = used\<rparr> w0 = (res, ev', w')"
  using assms(1-3) R(3)
proof (induction env rg t fuel attempt ev w rule: run_attempts.induct)
  case (2 env rg t fuel attempt ev w)
  define ev1 where "ev1 = (if 1 < attempt
      then runner_note env (lit ''--- attempt '' @ show_u32 attempt @ lit '' ---'') ev w else ev)"
  obtain e ev2 w2 where b: "bt_body t \<lparr>cx_rig = rg, cx_evidence = ev1, cx_attempt = attempt\<rparr> w = (e, ev2, w2)"
    by (rule prod_cases3)
  show ?case
  proof (cases "is_failure e \<and> attempt < bt_attempts t")
    case False
    with 2(2) b have "(res, used, ev', w') = (e, attempt, ev2, w2)"
      by (auto simp: Let_def is_failure_def ev1_def [symmetric] split: attempt_end.splits sum.splits)
    with b R(1) show ?thesis by (auto dest: reflpD)
  next
    case True
    then obtain m where e: "e = Finished (Inl m)" and more: "attempt < bt_attempts t"
      by (auto simp: is_failure_def)
    have u: "unat (attempt + 1) = Suc (unat attempt)"
      using more by (rule unat_Suc_less)
    have f: "fuel \<noteq> 0" using 2(4) more by (auto simp: word_less_nat_alt)
    have run: "run_attempts env rg t fuel (attempt + 1)
        (runner_note env (lit ''attempt '' @ show_u32 attempt @ lit '' failed: '' @ message_or m) ev2 w2) w2
        = (res, used, ev', w')"
      using 2(2) b e more by (simp add: Let_def flip: ev1_def)
    have "unat (attempt + 1) + fuel = Suc (unat (bt_attempts t))" using 2(4) u by simp
    from 2(1) [OF ev1_def b [symmetric] refl refl e refl more run f this 2(5)] obtain ev0 w0 where
      "R w2 w0" "bt_body t \<lparr>cx_rig = rg, cx_evidence = ev0, cx_attempt = used\<rparr> w0 = (res, ev', w')" by blast
    moreover have "R w w2" using 2(5) [of w "\<lparr>cx_rig = rg, cx_evidence = ev1, cx_attempt = attempt\<rparr>"] b by simp
    ultimately show ?thesis using R(2) by (blast dest: transpD)
  qed
qed simp

text \<open>The attempts of a trial that got its rig.\<close>

definition trial_ends :: "('r, 'w) runner_env \<Rightarrow> 'r \<Rightarrow> ('r, 'w) banc_test \<Rightarrow> 'w \<Rightarrow> attempt_end list" where
  "trial_ends env rg t w = attempt_ends env rg t (unat (bt_attempts t)) 1 (new_evidence (bt_name t) (re_now env w)) w"

text \<open>
  What is written for a trial: the record of this suite and test, handed to \<open>record_trial\<close> as
  the last thing the trial does.
\<close>

definition recorded ::
  "('r, 'w) runner_env \<Rightarrow> ('r, 'w) banc_test \<Rightarrow> 'r rig_state \<Rightarrow> outcome \<Rightarrow> rstr option \<Rightarrow> nat \<Rightarrow> 'w \<Rightarrow> bool" where
  "recorded env t st out why n w' \<longleftrightarrow>
    (\<exists>w r. w' = record_trial env st r w \<and> schema r = SCHEMA \<and> rec_suite r = re_suite env
       \<and> rec_test r = bt_name t \<and> verdict r = out \<and> rec_reason r = why
       \<and> unat (rec_attempts r) = n \<and> (out \<noteq> Failed \<longrightarrow> evidence_path r = None))"

lemma new_record_simps [simp]:
  "schema (new_record u s t out) = SCHEMA" "rec_suite (new_record u s t out) = s"
  "rec_test (new_record u s t out) = t" "verdict (new_record u s t out) = out"
  "rec_reason (new_record u s t out) = None" "rec_attempts (new_record u s t out) = 1"
  "evidence_path (new_record u s t out) = None"
  by (simp_all add: new_record_def)

lemma recordedI:
  assumes "w' = record_trial env st r w" and "schema r = SCHEMA" and "rec_suite r = re_suite env"
    and "rec_test r = bt_name t" and "verdict r = out" and "rec_reason r = why"
    and "unat (rec_attempts r) = n" and "out \<noteq> Failed \<Longrightarrow> evidence_path r = None"
  shows "recorded env t st out why n w'"
  using assms unfolding recorded_def by blast

lemma failure_report_prefix:
  "failure_report env rg ev msg w = ((report, p), w') \<Longrightarrow> \<exists>more. report = msg @ more"
  by (auto simp: failure_report_def split: if_splits prod.splits sum.splits)

lemma run_trial_ready:
  assumes "get_or_init env cell w = (Some (Ready rg), w1)" and "bt_attempts t \<noteq> 0"
    and "run_trial env t cell w = (c, cell', w')"
  shows "cell' = Some (Ready rg) \<and> trial_ends env rg t w1 \<noteq> []
    \<and> length (trial_ends env rg t w1) \<le> unat (bt_attempts t)
    \<and> list_all is_failure (butlast (trial_ends env rg t w1))
    \<and> (case last (trial_ends env rg t w1) of
         Panicking \<Rightarrow> c = Unwound
       | Finished (Inr _) \<Rightarrow> c = Completed
           \<and> recorded env t (Ready rg) Passed None (length (trial_ends env rg t w1)) w'
       | Finished (Inl m) \<Rightarrow> length (trial_ends env rg t w1) = unat (bt_attempts t)
           \<and> (\<exists>more. c = Failed_with (message_or m @ more))
           \<and> recorded env t (Ready rg) Failed (Some (message_or m)) (unat (bt_attempts t)) w')"
proof -
  obtain res used ev w2 where r: "run_attempts env rg t (unat (bt_attempts t)) 1
      (new_evidence (bt_name t) (re_now env w1)) w1 = (res, used, ev, w2)"
    by (rule prod_cases4)
  let ?ends = "trial_ends env rg t w1"
  have e: "?ends \<noteq> []" "res = last ?ends" "list_all is_failure (butlast ?ends)"
    "unat used = length ?ends" "unat used \<le> unat (bt_attempts t)" "is_failure res \<longrightarrow> used = bt_attempts t"
    using run_attempts_ends [OF r] assms(2) by (auto simp: trial_ends_def unat_eq_0)
  show ?thesis
  proof (cases res)
    case Panicking
    with assms(1,3) r e show ?thesis by (simp add: run_trial_def Let_def)
  next
    case (Finished x)
    show ?thesis
    proof (cases x)
      case (Inr u)
      let ?rec = "(new_record (re_unix env w2) (re_suite env) (bt_name t) Passed)\<lparr>rec_attempts := used,
        duration_ms := of_nat (saturating_duration_since (re_now env w2) (re_now env w) div 1000000)\<rparr>"
      have c: "c = Completed" "cell' = Some (Ready rg)" "w' = record_trial env (Ready rg) ?rec w2"
        using assms(1,3) r Finished Inr by (simp_all add: run_trial_def Let_def)
      have "recorded env t (Ready rg) Passed None (length ?ends) w'"
        by (rule recordedI [OF c(3)]) (simp_all add: e(4))
      moreover have "last ?ends = Finished (Inr ())" using e(2) Finished Inr by simp
      ultimately show ?thesis using c(1,2) e(1,3-5) by simp
    next
      case (Inl m)
      obtain report p w3 where f: "failure_report env rg ev (message_or m) w2 = ((report, p), w3)"
        by (metis prod.exhaust)
      let ?rec = "(new_record (re_unix env w2) (re_suite env) (bt_name t) Passed)\<lparr>rec_attempts := used,
        duration_ms := of_nat (saturating_duration_since (re_now env w2) (re_now env w) div 1000000),
        verdict := Failed, rec_reason := Some (message_or m), evidence_path := p\<rparr>"
      have c: "c = Failed_with report" "cell' = Some (Ready rg)" "w' = record_trial env (Ready rg) ?rec w3"
        using assms(1,3) r Finished Inl f by (simp_all add: run_trial_def Let_def)
      have n: "used = bt_attempts t" using e(6) Finished Inl by simp
      have "recorded env t (Ready rg) Failed (Some (message_or m)) (unat (bt_attempts t)) w'"
        by (rule recordedI [OF c(3)]) (simp_all add: n)
      moreover have "last ?ends = Finished (Inl m)" using e(2) Finished Inl by simp
      ultimately show ?thesis using c(1,2) e(1,3-5) n failure_report_prefix [OF f] by auto
    qed
  qed
qed

text \<open>A trial that ends in any other way than by a panic of its acquisition settles the cell.\<close>

lemma run_trial_cell:
  assumes "run_trial env t cell w = (c, cell', w')"
  shows "cell' = (case fst (get_or_init env cell w) of None \<Rightarrow> cell | Some st \<Rightarrow> Some st)"
proof (cases "get_or_init env cell w")
  case (Pair r w1)
  show ?thesis
  proof (cases r)
    case None
    with assms Pair show ?thesis by (simp add: run_trial_def Let_def)
  next
    case (Some st)
    show ?thesis
    proof (cases st)
      case (Ready rg)
      obtain res used ev w2 where "run_attempts env rg t (unat (bt_attempts t)) 1
          (new_evidence (bt_name t) (re_now env w1)) w1 = (res, used, ev, w2)"
        by (rule prod_cases4)
      with assms Pair Some Ready show ?thesis
        by (cases res rule: attempt_end.exhaust)
          (auto simp: run_trial_def Let_def split: sum.splits prod.splits)
    qed (use assms Pair Some in \<open>auto simp: run_trial_def Let_def\<close>)
  qed
qed

lemma get_or_init_Some [simp]: "get_or_init env (Some st) w = (Some st, w)"
  by (simp add: get_or_init_def)

lemma settled_cell: "run_trial env t (Some st) w = (c, cell', w') \<Longrightarrow> cell' = Some st"
  by (drule run_trial_cell) simp

lemma settled_cells: "run_trials env ts (Some st) w = (cs, cell', w') \<Longrightarrow> cell' = Some st"
  by (induction ts arbitrary: w cs) (auto dest!: settled_cell split: prod.splits)

text \<open>A trial is completed only by an attempt that passed, with the rig and a number allowed.\<close>

lemma completed_trial_passed:
  assumes "bt_attempts t \<noteq> 0" and "run_trial env t cell w = (Completed, cell', w')"
  shows "\<exists>rg w1 used ev w2. get_or_init env cell w = (Some (Ready rg), w1) \<and> cell' = Some (Ready rg)
    \<and> run_attempts env rg t (unat (bt_attempts t)) 1 (new_evidence (bt_name t) (re_now env w1)) w1
        = (Finished (Inr ()), used, ev, w2)
    \<and> used \<le> bt_attempts t \<and> (\<exists>r. w' = record_trial env (Ready rg) r w2)"
proof -
  obtain r w1 where g: "get_or_init env cell w = (r, w1)" by (rule prod.exhaust)
  obtain st where st: "r = Some st"
    using assms(2) g by (cases r) (simp_all add: run_trial_def Let_def)
  show ?thesis
  proof (cases st)
    case (Ready rg)
    obtain res used ev w2 where r: "run_attempts env rg t (unat (bt_attempts t)) 1
        (new_evidence (bt_name t) (re_now env w1)) w1 = (res, used, ev, w2)"
      by (rule prod_cases4)
    have f: "unat (bt_attempts t) \<noteq> 0" "unat (1 :: u32) + unat (bt_attempts t) = Suc (unat (bt_attempts t))"
      using assms(1) by (simp_all add: unat_eq_0)
    have res: "res = Finished (Inr ()) \<and> cell' = Some (Ready rg) \<and> (\<exists>r. w' = record_trial env (Ready rg) r w2)"
      using assms(2) g st Ready r
      by (cases res rule: attempt_end.exhaust) (auto simp: run_trial_def Let_def split: sum.splits prod.splits)
    have "used \<le> bt_attempts t"
      using run_attempts_ends [OF r f] by (simp add: word_le_nat_alt)
    with g st Ready r res show ?thesis by blast
  qed (use assms(2) g st in \<open>simp_all add: run_trial_def Let_def\<close>)
qed

section \<open>Which bodies run\<close>

text \<open>
  Tests that differ at most in what their bodies do with a rig outside \<open>R\<close>. If a process does
  the same for any two such lists of tests, then no body was run with such a rig.
\<close>

definition alike :: "'r set \<Rightarrow> ('r, 'w) banc_test \<Rightarrow> ('r, 'w) banc_test \<Rightarrow> bool" where
  "alike R t t' \<longleftrightarrow> bt_name t' = bt_name t \<and> bt_attempts t' = bt_attempts t
     \<and> (\<forall>cx w. cx_rig cx \<in> R \<longrightarrow> bt_body t' cx w = bt_body t cx w)"

lemma run_attempts_alike:
  "alike R t t' \<Longrightarrow> rg \<in> R \<Longrightarrow> run_attempts env rg t' fuel attempt ev w = run_attempts env rg t fuel attempt ev w"
  by (induction fuel arbitrary: attempt ev w)
    (simp_all add: alike_def Let_def split: prod.split attempt_end.split sum.split)

lemma run_trial_alike:
  assumes "run_trial env t cell w = (c, cell', w')" and "alike {rg. cell' = Some (Ready rg)} t t'"
  shows "run_trial env t' cell w = (c, cell', w')"
proof (cases "get_or_init env cell w")
  case (Pair r w1)
  have n: "bt_name t' = bt_name t" "bt_attempts t' = bt_attempts t" using assms(2) by (simp_all add: alike_def)
  have cell': "cell' = (case r of None \<Rightarrow> cell | Some st \<Rightarrow> Some st)"
    using run_trial_cell [OF assms(1)] Pair by simp
  show ?thesis
  proof (cases "\<exists>rg. r = Some (Ready rg)")
    case True
    then obtain rg where rg: "r = Some (Ready rg)" by blast
    with cell' have "rg \<in> {rg. cell' = Some (Ready rg)}" by simp
    note same = run_attempts_alike [OF assms(2) this]
    from assms(1) Pair rg show ?thesis by (simp add: run_trial_def n same)
  next
    case False
    with assms(1) Pair n show ?thesis
      by (cases r) (auto simp: run_trial_def Let_def split: rig_state.splits)
  qed
qed

lemma run_trials_alike:
  assumes "run_trials env ts cell w = (cs, cell', w')" and "list_all2 (alike {rg. cell' = Some (Ready rg)}) ts ts'"
  shows "run_trials env ts' cell w = (cs, cell', w')"
  using assms
proof (induction ts arbitrary: cell w cs ts')
  case Nil
  then show ?case by simp
next
  case (Cons t ts)
  obtain t' us where ts': "ts' = t' # us" "alike {rg. cell' = Some (Ready rg)} t t'"
    "list_all2 (alike {rg. cell' = Some (Ready rg)}) ts us"
    using Cons.prems(2) by (auto simp: list_all2_Cons1)
  obtain c cell1 w1 where one: "run_trial env t cell w = (c, cell1, w1)" by (rule prod_cases3)
  obtain cs2 where rest: "run_trials env ts cell1 w1 = (cs2, cell', w')" "cs = c # cs2"
    using Cons.prems(1) one by (auto simp: Let_def split: prod.splits)
  have "{rg. cell1 = Some (Ready rg)} \<subseteq> {rg. cell' = Some (Ready rg)}"
    using settled_cells [of env ts _ w1 cs2 cell' w'] rest(1) by auto
  with ts'(2) have "alike {rg. cell1 = Some (Ready rg)} t t'" by (auto simp: alike_def)
  from run_trial_alike [OF one this] Cons.IH [OF rest(1) ts'(3)] rest(2) ts'(1) show ?case by simp
qed

section \<open>One acquisition per process\<close>

text \<open>\<open>p\<close> acquisitions in a row that panic lead from one world to another.\<close>

fun unwinding :: "('r, 'w) runner_env \<Rightarrow> nat \<Rightarrow> 'w \<Rightarrow> 'w \<Rightarrow> bool" where
  "unwinding env 0 w v \<longleftrightarrow> v = w"
| "unwinding env (Suc p) w v \<longleftrightarrow> fst (re_acquire env w) = None \<and> unwinding env p (snd (re_acquire env w)) v"

text \<open>The trials of a process begin with those, if any, whose acquisition panicked.\<close>

lemma run_trials_unwinding:
  assumes "run_trials env ts None w = (cs, cell, w')"
  shows "length cs = length ts \<and> (\<exists>p v. unwinding env p w v \<and> p \<le> length ts \<and> take p cs = replicate p Unwound
    \<and> run_trials env (drop p ts) None v = (drop p cs, cell, w')
    \<and> (if p = length ts then cell = None else fst (re_acquire env v) \<noteq> None))"
  using assms
proof (induction ts arbitrary: w cs)
  case Nil
  then show ?case by auto
next
  case (Cons t ts)
  obtain c cell1 w1 where one: "run_trial env t None w = (c, cell1, w1)" by (rule prod_cases3)
  obtain cs2 where rest: "run_trials env ts cell1 w1 = (cs2, cell, w')" "cs = c # cs2"
    using Cons.prems one by (auto simp: Let_def split: prod.splits)
  show ?case
  proof (cases "fst (re_acquire env w)")
    case None
    then have "get_or_init env None w = (None, snd (re_acquire env w))"
      by (simp add: get_or_init_def split_beta)
    then have u: "c = Unwound" "cell1 = None" "w1 = snd (re_acquire env w)"
      using one by (simp_all add: run_trial_def Let_def)
    from Cons.IH [OF rest(1) [unfolded u(2)]] obtain p v where p: "length cs2 = length ts" "unwinding env p w1 v"
      "p \<le> length ts" "take p cs2 = replicate p Unwound" "run_trials env (drop p ts) None v = (drop p cs2, cell, w')"
      "if p = length ts then cell = None else fst (re_acquire env v) \<noteq> None" by blast
    then show ?thesis
      using None u rest(2) by (intro conjI exI [of _ "Suc p"] exI [of _ v]) simp_all
  next
    case (Some r)
    have "length ds = length us" if "run_trials env us x z = (ds, y, z')" for us ds x y z z'
      using that by (induction us arbitrary: ds x z) (auto simp: Let_def split: prod.splits)
    from this [OF Cons.prems] Cons.prems Some show ?thesis by (intro conjI exI [of _ 0] exI [of _ w]) simp_all
  qed
qed

lemma run_trials_settled:
  "run_trials env ts (Some (No_rig why)) w = (cs, cell', w') \<Longrightarrow> cs = replicate (length ts) (Ignored why)"
  "run_trials env ts (Some (Broken_rig e)) w = (cs, cell', w') \<Longrightarrow>
     cs = replicate (length ts) (Failed_with (lit ''rig unavailable: '' @ e))"
  by (induction ts arbitrary: w cs)
    (auto simp: run_trial_def Let_def split: prod.splits)

text \<open>What a trial with a rig shows of its attempts.\<close>

definition tells_attempts :: "('r, 'w) runner_env \<Rightarrow> 'r \<Rightarrow> ('r, 'w) banc_test \<Rightarrow> completion \<Rightarrow> bool" where
  "tells_attempts env rg t c \<longleftrightarrow> (\<exists>w. trial_ends env rg t w \<noteq> []
     \<and> (c = Completed \<longleftrightarrow> last (trial_ends env rg t w) = Finished (Inr ()))
     \<and> (c = Unwound \<longleftrightarrow> last (trial_ends env rg t w) = Panicking))"

lemma run_trial_tells:
  assumes "get_or_init env cell w = (Some (Ready rg), w1)" and "bt_attempts t \<noteq> 0"
    and "run_trial env t cell w = (c, cell', w')"
  shows "tells_attempts env rg t c"
proof -
  note v = run_trial_ready [OF assms]
  show ?thesis
    unfolding tells_attempts_def
  proof (intro exI [of _ w1])
    show "trial_ends env rg t w1 \<noteq> [] \<and> (c = Completed \<longleftrightarrow> last (trial_ends env rg t w1) = Finished (Inr ()))
       \<and> (c = Unwound \<longleftrightarrow> last (trial_ends env rg t w1) = Panicking)"
      using v by (cases "last (trial_ends env rg t w1)") (auto split: sum.splits)
  qed
qed

lemma run_trials_tell:
  assumes "run_trials env ts (Some (Ready rg)) w = (cs, cell', w')" and "\<forall>t \<in> set ts. bt_attempts t \<noteq> 0"
  shows "list_all2 (tells_attempts env rg) ts cs"
  using assms
proof (induction ts arbitrary: w cs)
  case Nil
  then show ?case by simp
next
  case (Cons t ts)
  obtain c cell1 w1 where one: "run_trial env t (Some (Ready rg)) w = (c, cell1, w1)" by (rule prod_cases3)
  then have "cell1 = Some (Ready rg)" by (rule settled_cell)
  with Cons.prems(1) one obtain cs2 where rest: "run_trials env ts (Some (Ready rg)) w1 = (cs2, cell', w')" "cs = c # cs2"
    by (auto simp: Let_def split: prod.splits)
  from Cons.IH [OF rest(1)] run_trial_tells [OF get_or_init_Some _ one] Cons.prems(2) rest(2)
  show ?case by simp
qed

text \<open>
  Once an acquisition has an outcome, all trials share it: when there is no rig every one is
  ignored with the same reason, when the rig is broken every one fails with the same message,
  otherwise every one runs its body on it.
\<close>

lemma shared_acquisition:
  assumes "run_trials env (t # ts) None w = (cs, cell, w')" and "re_acquire env w = (Some r, w1)"
    and "\<forall>t \<in> set (t # ts). bt_attempts t \<noteq> 0"
  shows "cell = Some (init_state r) \<and> (case init_state r of
      No_rig why \<Rightarrow> cs = replicate (Suc (length ts)) (Ignored why)
    | Broken_rig e \<Rightarrow> cs = replicate (Suc (length ts)) (Failed_with (lit ''rig unavailable: '' @ e))
    | Ready rg \<Rightarrow> list_all2 (tells_attempts env rg) (t # ts) cs)"
proof -
  have g: "get_or_init env None w = (Some (init_state r), w1)" using assms(2) by (simp add: get_or_init_def)
  obtain c cell1 w2 where one: "run_trial env t None w = (c, cell1, w2)" by (rule prod_cases3)
  from run_trial_cell [OF one] g have cell1: "cell1 = Some (init_state r)" by simp
  obtain cs2 where rest: "run_trials env ts (Some (init_state r)) w2 = (cs2, cell, w')" "cs = c # cs2"
    using assms(1) one cell1 by (auto simp: Let_def split: prod.splits)
  show ?thesis
  proof (cases "init_state r")
    case (Ready rg)
    from run_trials_tell [OF rest(1) [unfolded Ready]] assms(3)
    have "list_all2 (tells_attempts env rg) ts cs2" by simp
    moreover have "tells_attempts env rg t c"
      using run_trial_tells [OF g [unfolded Ready] _ one] assms(3) by simp
    ultimately show ?thesis using settled_cells [OF rest(1)] Ready rest(2) by simp
  next
    case (No_rig why)
    moreover have "c = Ignored why" using one g No_rig by (simp add: run_trial_def Let_def)
    ultimately show ?thesis
      using settled_cells [OF rest(1)] run_trials_settled(1) [OF rest(1) [unfolded No_rig]] rest(2) by simp
  next
    case (Broken_rig e)
    moreover have "c = Failed_with (lit ''rig unavailable: '' @ e)" using one g Broken_rig by (simp add: run_trial_def Let_def)
    ultimately show ?thesis
      using settled_cells [OF rest(1)] run_trials_settled(2) [OF rest(1) [unfolded Broken_rig]] rest(2) by simp
  qed
qed

section \<open>Properties\<close>

text \<open>
  C28: the verdict of a trial is honest and its record agrees with it. Without a rig the trial
  is ignored, with a broken one it fails, each with its reason. With a rig the attempts
  stop at the first that does not fail and never exceed the declared number; the trial is
  completed exactly when the last attempt passed, fails with that attempt's message when all
  allowed attempts failed, and every such verdict is recorded with its outcome, reason and
  number of attempts. Only a panicking attempt, or a panicking acquisition, which the next
  trial repeats, ends the trial without a record.
\<close>

theorem trial_verdict_is_honest:
  assumes "bt_attempts t \<noteq> 0" and "run_trial env t cell w = (c, cell', w')"
    and "get_or_init env cell w = (r, w1)"
  shows "case r of
    None \<Rightarrow> c = Unwound \<and> cell' = cell \<and> w' = w1
  | Some st \<Rightarrow> cell' = Some st \<and> (case st of
      No_rig why \<Rightarrow> c = Ignored why \<and> recorded env t st Skipped (Some why) 1 w'
    | Broken_rig e \<Rightarrow> c = Failed_with (lit ''rig unavailable: '' @ e)
        \<and> recorded env t st Failed (Some (lit ''rig unavailable: '' @ e)) 1 w'
    | Ready rg \<Rightarrow> trial_ends env rg t w1 \<noteq> [] \<and> length (trial_ends env rg t w1) \<le> unat (bt_attempts t)
        \<and> list_all is_failure (butlast (trial_ends env rg t w1))
        \<and> (case last (trial_ends env rg t w1) of
             Panicking \<Rightarrow> c = Unwound
           | Finished (Inr _) \<Rightarrow> c = Completed \<and> recorded env t st Passed None (length (trial_ends env rg t w1)) w'
           | Finished (Inl m) \<Rightarrow> length (trial_ends env rg t w1) = unat (bt_attempts t)
               \<and> (\<exists>more. c = Failed_with (message_or m @ more))
               \<and> recorded env t st Failed (Some (message_or m)) (unat (bt_attempts t)) w'))"
proof (cases r)
  case None
  with assms(2,3) show ?thesis by (simp add: run_trial_def Let_def)
next
  case (Some st)
  show ?thesis
  proof (cases st)
    case (Ready rg)
    with assms(3) Some have g: "get_or_init env cell w = (Some (Ready rg), w1)" by simp
    show ?thesis using run_trial_ready [OF g assms(1,2)] unfolding Some Ready by simp
  next
    case (No_rig why)
    let ?rec = "(new_record (re_unix env w1) (re_suite env) (bt_name t) Skipped)\<lparr>rec_reason := Some why\<rparr>"
    have c: "c = Ignored why" "cell' = Some st" "w' = record_trial env st ?rec w1"
      using assms(2,3) Some No_rig by (simp_all add: run_trial_def Let_def)
    have "recorded env t st Skipped (Some why) 1 w'"
      by (rule recordedI [OF c(3)]) simp_all
    with c Some No_rig show ?thesis by simp
  next
    case (Broken_rig e)
    let ?why = "lit ''rig unavailable: '' @ e"
    let ?rec = "(new_record (re_unix env w1) (re_suite env) (bt_name t) Failed)\<lparr>rec_reason := Some ?why\<rparr>"
    have c: "c = Failed_with ?why" "cell' = Some st" "w' = record_trial env st ?rec w1"
      using assms(2,3) Some Broken_rig by (simp_all add: run_trial_def Let_def)
    have "recorded env t st Failed (Some ?why) 1 w'"
      by (rule recordedI [OF c(3)]) simp_all
    with c Some Broken_rig show ?thesis by simp
  qed
qed

text \<open>An environment that counts appended records, and a test that passes at its second attempt.\<close>

definition plain_env :: "(unit, nat) runner_env" where
  "plain_env = \<lparr>re_artifacts = None, re_rig_artifacts = (\<lambda>_. path_of (lit ''/a'')),
     re_acquire = (\<lambda>w. (Some (Inr ()), w)), re_append = (\<lambda>_ _ w. w + 1), re_now = (\<lambda>_. Instant 0),
     re_unix = (\<lambda>_. Some 0), re_persist = (\<lambda>d ev w. (Inr (evidence_file d ev), w)),
     re_display = (\<lambda>_. []), re_suite = lit ''demo''\<rparr>"

definition flaky :: "(unit, nat) banc_test" where
  "flaky = with_attempts 3 (new_test (lit ''t'')
     (\<lambda>cx w. (Finished (if cx_attempt cx < 2 then Inl (Some (lit ''no'')) else Inr ()), cx_evidence cx, w)))"

theorem trial_verdict_is_honest_witness:
  "\<exists>w'. run_trial plain_env flaky None 0 = (Completed, Some (Ready ()), w')
    \<and> recorded plain_env flaky (Ready ()) Passed None 2 w'"
proof -
  have g: "get_or_init plain_env None 0 = (Some (Ready ()), 0)"
    by (simp add: get_or_init_def plain_env_def init_state_def)
  have n: "bt_attempts flaky = 3"
    by (simp add: flaky_def with_attempts_def max_def word_le_nat_alt)
  have e: "trial_ends plain_env () flaky 0 = [Finished (Inl (Some (lit ''no''))), Finished (Inr ())]"
  proof -
    have "bt_body flaky = (\<lambda>cx w. (Finished (if cx_attempt cx < 2 then Inl (Some (lit ''no'')) else Inr ()), cx_evidence cx, w))"
      by (simp add: flaky_def with_attempts_def new_test_def)
    then have "attempt_ends plain_env () flaky (Suc (Suc (Suc 0))) 1 ev 0
        = [Finished (Inl (Some (lit ''no''))), Finished (Inr ())]" for ev
      by (simp add: n Let_def)
    moreover have "unat (bt_attempts flaky) = Suc (Suc (Suc 0))" by (simp add: n)
    ultimately show ?thesis by (simp only: trial_ends_def)
  qed
  obtain c cell' w' where r: "run_trial plain_env flaky None 0 = (c, cell', w')" by (rule prod_cases3)
  from trial_verdict_is_honest [OF _ r g] n r e show ?thesis by (simp flip: numeral_2_eq_2)
qed

end
