(* ===== verification/Device.thy ===== *)
theory Device
  imports Runner
begin

text \<open>
  The device half of a paired scenario (\<open>banc-host/src/device.rs\<close>): one on-target test run as a
  child process, its verdict, and the scenario wrapper that \<open>paired_suite!\<close> generates. A
  child is known by its command line and a number; how it ends is an argument. Awaiting it
  is a suspension point: \<open>verdict_begin\<close> is the part of \<open>verdict\<close> before it, and a future
  that is dropped there leaves the state that part left.
\<close>

section \<open>Suites and handles\<close>

record device_suite =
  crate_dir :: path
  test_target :: rstr
  cargo_args :: "rstr list"
  program :: rstr

definition new_suite :: "path \<Rightarrow> rstr \<Rightarrow> device_suite" where
  "new_suite dir tgt = \<lparr>crate_dir = dir, test_target = tgt, cargo_args = [], program = lit ''cargo''\<rparr>"

record child =
  ch_program :: rstr
  ch_args :: "rstr list"
  ch_dir :: path
  ch_id :: nat

datatype device_state = Idle | Running child | Done "rstr + unit"

record device_test =
  dt_suite :: device_suite
  test_path :: rstr
  dt_state :: device_state

definition suite_test :: "device_suite \<Rightarrow> rstr \<Rightarrow> device_test" where
  "suite_test s tp = \<lparr>dt_suite = s, test_path = tp, dt_state = Idle\<rparr>"

text \<open>How the task that runs the child ends: it is lost, spawning fails, or the child exits.\<close>

datatype join_end = Join_failed rstr | Spawn_failed rstr | Exited bool rstr

section \<open>Operations\<close>

definition device_args :: "device_suite \<Rightarrow> rstr \<Rightarrow> rstr list" where
  "device_args s tp = lit ''test'' # cargo_args s
     @ [lit ''--test'', test_target s, lit ''--'', lit ''--exact'', tp]"

text \<open>Starting twice panics, which is \<open>None\<close>. \<open>n\<close> numbers the child that is spawned.\<close>

definition start :: "(path \<Rightarrow> bool) \<Rightarrow> (path \<Rightarrow> rstr) \<Rightarrow> nat \<Rightarrow> device_test \<Rightarrow> device_test option" where
  "start is_dir display n dt =
    (if dt_state dt \<noteq> Idle then None
     else if \<not> is_dir (crate_dir (dt_suite dt)) then
       Some (dt\<lparr>dt_state := Done (Inl (lit ''device crate dir '' @ display (crate_dir (dt_suite dt))
         @ lit '' does not exist''))\<rparr>)
     else Some (dt\<lparr>dt_state := Running \<lparr>ch_program = program (dt_suite dt),
       ch_args = device_args (dt_suite dt) (test_path dt), ch_dir = crate_dir (dt_suite dt), ch_id = n\<rparr>\<rparr>))"

datatype verdict_point = Return "rstr + unit" | Await child

definition never_started :: "device_test \<Rightarrow> rstr" where
  "never_started dt = lit ''device test '' @ [39] @ test_path dt @ [39] @ lit '' was never started''"

definition verdict_begin :: "device_test \<Rightarrow> verdict_point \<times> device_test" where
  "verdict_begin dt =
    (let dt' = dt\<lparr>dt_state := Idle\<rparr> in
     case dt_state dt of
       Idle \<Rightarrow> (Return (Inl (never_started dt)), dt')
     | Running h \<Rightarrow> (Await h, dt')
     | Done r \<Rightarrow> (Return r, dt'\<lparr>dt_state := Done r\<rparr>))"

definition join_result :: "(path \<Rightarrow> rstr) \<Rightarrow> device_test \<Rightarrow> join_end \<Rightarrow> rstr + unit" where
  "join_result display dt e =
    (case e of
       Join_failed m \<Rightarrow> Inl (lit ''device test task failed: '' @ m)
     | Spawn_failed m \<Rightarrow> Inl (lit ''spawning '' @ program (dt_suite dt) @ lit '' in ''
         @ display (crate_dir (dt_suite dt)) @ lit '': '' @ m)
     | Exited True _ \<Rightarrow> Inr ()
     | Exited False status \<Rightarrow> Inl (lit ''device-side test '' @ [39] @ test_path dt @ [39]
         @ lit '' reported failure ('' @ status @ lit '')''))"

definition device_verdict ::
  "(path \<Rightarrow> rstr) \<Rightarrow> (child \<Rightarrow> join_end) \<Rightarrow> device_test \<Rightarrow> (rstr + unit) \<times> device_test" where
  "device_verdict display ends dt =
    (case verdict_begin dt of
       (Return r, dt') \<Rightarrow> (r, dt')
     | (Await h, dt') \<Rightarrow>
         (let r = join_result display dt (ends h) in (r, dt'\<lparr>dt_state := Done r\<rparr>)))"

definition failure_context ::
  "(path \<Rightarrow> rstr) \<Rightarrow> (child \<Rightarrow> join_end) \<Rightarrow> (child \<Rightarrow> bool) \<Rightarrow> device_test \<Rightarrow> rstr option \<times> device_test" where
  "failure_context display ends finished dt =
    (if (case dt_state dt of Done r \<Rightarrow> \<not> is_ok r | Running h \<Rightarrow> finished h | Idle \<Rightarrow> False)
     then (case device_verdict display ends dt of
             (Inl m, dt') \<Rightarrow> (Some m, dt') | (Inr _, dt') \<Rightarrow> (None, dt'))
     else (None, dt))"

section \<open>The paired scenario\<close>

text \<open>
  The body owns the handle while it runs and gives it back in whatever state its calls left,
  with its evidence; then the wrapper adds the device's side of a failure, or asks for the
  verdict. Each attempt gets a handle of its own.
\<close>

type_synonym ('r, 'w) scenario_body =
  "'r test_cx \<Rightarrow> device_test \<Rightarrow> 'w \<Rightarrow> attempt_end \<times> device_test \<times> evidence \<times> 'w"

definition paired_scenario ::
  "(path \<Rightarrow> rstr) \<Rightarrow> (child \<Rightarrow> join_end) \<Rightarrow> (child \<Rightarrow> bool) \<Rightarrow> device_suite \<Rightarrow> rstr
   \<Rightarrow> ('r, 'w) scenario_body \<Rightarrow> 'r test_cx \<Rightarrow> 'w \<Rightarrow> attempt_end \<times> evidence \<times> 'w" where
  "paired_scenario display ends finished s tp body cx w =
    (case body cx (suite_test s tp) w of
       (Panicking, _, ev, w') \<Rightarrow> (Panicking, ev, w')
     | (Finished (Inl m), dt, ev, w') \<Rightarrow>
         (case failure_context display ends finished dt of
            (Some dev, _) \<Rightarrow>
              (Finished (Inl (Some (message_or m @ [10] @ lit ''device side: '' @ dev))), ev, w')
          | (None, _) \<Rightarrow> (Finished (Inl (Some (message_or m))), ev, w'))
     | (Finished (Inr _), dt, ev, w') \<Rightarrow>
         (Finished (map_err Some (fst (device_verdict display ends dt))), ev, w'))"

definition default_test_path :: "rstr \<Rightarrow> rstr" where
  "default_test_path name = lit ''tests::'' @ name"

record ('r, 'w) scenario =
  sc_name :: rstr
  sc_attempts :: "u32 option"
  sc_device_test :: "rstr option"
  sc_body :: "('r, 'w) scenario_body"

definition scenario_path :: "('r, 'w) scenario \<Rightarrow> rstr" where
  "scenario_path sc = (case sc_device_test sc of None \<Rightarrow> default_test_path (sc_name sc) | Some tp \<Rightarrow> tp)"

definition scenario_test ::
  "(path \<Rightarrow> rstr) \<Rightarrow> (child \<Rightarrow> join_end) \<Rightarrow> (child \<Rightarrow> bool) \<Rightarrow> device_suite \<Rightarrow> ('r, 'w) scenario
   \<Rightarrow> ('r, 'w) banc_test" where
  "scenario_test display ends finished s sc =
    (let t = new_test (sc_name sc) (paired_scenario display ends finished s (scenario_path sc) (sc_body sc))
     in case sc_attempts sc of None \<Rightarrow> t | Some n \<Rightarrow> with_attempts n t)"

definition paired_suite ::
  "('r, 'w) runner_env \<Rightarrow> (('r, 'w) banc_test list \<Rightarrow> ('r, 'w) banc_test list) \<Rightarrow> (path \<Rightarrow> rstr)
   \<Rightarrow> (child \<Rightarrow> join_end) \<Rightarrow> (child \<Rightarrow> bool) \<Rightarrow> device_suite \<Rightarrow> ('r, 'w) scenario list \<Rightarrow> 'w
   \<Rightarrow> completion list \<times> 'r rig_state option \<times> 'w" where
  "paired_suite env selected display ends finished s scs w =
    run_suite env selected (map (scenario_test display ends finished s) scs) w"

section \<open>What a body can do to its handle\<close>

text \<open>
  The process's children, in the order they were spawned, are part of the world; each is
  numbered by its place. Time may add children, which other handles and other code spawn.
\<close>

definition grows :: "('w \<Rightarrow> child list) \<Rightarrow> 'w \<Rightarrow> 'w \<Rightarrow> bool" where
  "grows procs w w' \<longleftrightarrow> (\<exists>more. procs w' = procs w @ more
     \<and> map ch_id more = [length (procs w)..<length (procs w) + length more])"

definition spawned_between :: "('w \<Rightarrow> child list) \<Rightarrow> 'w \<Rightarrow> 'w \<Rightarrow> child set" where
  "spawned_between procs w w' = set (drop (length (procs w)) (procs w'))"

text \<open>
  What happens to a handle from one world to another: calls, in any order, a verdict that is
  dropped while it waits, and anything else that leaves the handle alone.
\<close>

inductive device_run ::
  "(path \<Rightarrow> bool) \<Rightarrow> (path \<Rightarrow> rstr) \<Rightarrow> (child \<Rightarrow> join_end) \<Rightarrow> ('w \<Rightarrow> child list)
   \<Rightarrow> device_test \<times> 'w \<Rightarrow> device_test \<times> 'w \<Rightarrow> bool"
  for is_dir display ends procs x where
  fresh: "device_run is_dir display ends procs x x"
| started: "device_run is_dir display ends procs x (dt, w) \<Longrightarrow>
     start is_dir display (length (procs w)) dt = Some dt' \<Longrightarrow>
     procs w' = procs w @ (case dt_state dt' of Running h \<Rightarrow> [h] | _ \<Rightarrow> []) \<Longrightarrow>
     device_run is_dir display ends procs x (dt', w')"
| asked: "device_run is_dir display ends procs x (dt, w) \<Longrightarrow> device_verdict display ends dt = (r, dt') \<Longrightarrow>
     device_run is_dir display ends procs x (dt', w)"
| dropped: "device_run is_dir display ends procs x (dt, w) \<Longrightarrow> verdict_begin dt = (Await h, dt') \<Longrightarrow>
     device_run is_dir display ends procs x (dt', w)"
| consulted: "device_run is_dir display ends procs x (dt, w) \<Longrightarrow>
     failure_context display ends finished dt = (m, dt') \<Longrightarrow> device_run is_dir display ends procs x (dt', w)"
| elapsed: "device_run is_dir display ends procs x (dt, w) \<Longrightarrow> grows procs w w' \<Longrightarrow>
     device_run is_dir display ends procs x (dt, w')"

text \<open>The child that runs exactly this test of this suite.\<close>

definition runs_test :: "device_suite \<Rightarrow> rstr \<Rightarrow> child \<Rightarrow> bool" where
  "runs_test s tp h \<longleftrightarrow> ch_program h = program s \<and> ch_args h = device_args s tp \<and> ch_dir h = crate_dir s"

text \<open>A success that the handle may report is that of a child among those in \<open>hs\<close>.\<close>

definition passed_among :: "child set \<Rightarrow> (child \<Rightarrow> join_end) \<Rightarrow> device_suite \<Rightarrow> rstr \<Rightarrow> bool" where
  "passed_among hs ends s tp \<longleftrightarrow> (\<exists>h \<in> hs. runs_test s tp h \<and> (\<exists>status. ends h = Exited True status))"

definition handle_ok :: "child set \<Rightarrow> (child \<Rightarrow> join_end) \<Rightarrow> device_suite \<Rightarrow> rstr \<Rightarrow> device_test \<Rightarrow> bool" where
  "handle_ok hs ends s tp dt \<longleftrightarrow> dt_suite dt = s \<and> test_path dt = tp \<and>
    (case dt_state dt of
       Idle \<Rightarrow> True
     | Running h \<Rightarrow> h \<in> hs \<and> runs_test s tp h
     | Done r \<Rightarrow> is_ok r \<longrightarrow> passed_among hs ends s tp)"

lemma grows_refl [simp]: "grows procs w w"
  by (simp add: grows_def)

lemma grows_trans: "grows procs u v \<Longrightarrow> grows procs v w \<Longrightarrow> grows procs u w"
proof -
  assume "grows procs u v" and "grows procs v w"
  then obtain a b where "procs v = procs u @ a" "procs w = procs v @ b"
    "map ch_id a = [length (procs u)..<length (procs u) + length a]"
    "map ch_id b = [length (procs v)..<length (procs v) + length b]"
    unfolding grows_def by blast
  moreover have "[length (procs u)..<length (procs u) + (length a + length b)]
      = [length (procs u)..<length (procs u) + length a]
        @ [length (procs u) + length a..<length (procs u) + (length a + length b)]"
    using upt_add_eq_append [of "length (procs u)" "length (procs u) + length a" "length b"]
    by (simp add: add.assoc)
  ultimately show ?thesis
    unfolding grows_def by (intro exI [of _ "a @ b"]) (simp add: add.assoc)
qed

lemma spawned_mono: "grows procs v w \<Longrightarrow> spawned_between procs u v \<subseteq> spawned_between procs u w"
  by (auto simp: grows_def spawned_between_def)

lemma spawned_Un:
  "grows procs u v \<Longrightarrow> procs w = procs v @ hs \<Longrightarrow> spawned_between procs u w = spawned_between procs u v \<union> set hs"
  by (auto simp: grows_def spawned_between_def)

lemma handle_ok_mono: "handle_ok hs ends s tp dt \<Longrightarrow> hs \<subseteq> hs' \<Longrightarrow> handle_ok hs' ends s tp dt"
  by (auto simp: handle_ok_def passed_among_def split: device_state.splits)

lemma join_result_ok: "is_ok (join_result display dt e) \<longleftrightarrow> (\<exists>status. e = Exited True status)"
  by (auto simp: join_result_def split: join_end.split bool.split)

lemma verdict_cases:
  "device_verdict display ends dt =
    (case dt_state dt of
       Idle \<Rightarrow> (Inl (never_started dt), dt)
     | Running h \<Rightarrow> (join_result display dt (ends h), dt\<lparr>dt_state := Done (join_result display dt (ends h))\<rparr>)
     | Done r \<Rightarrow> (r, dt))"
  by (cases dt) (simp add: device_verdict_def verdict_begin_def Let_def split: device_state.split)

lemma start_cases:
  assumes "start is_dir display n dt = Some dt'"
  shows "(\<exists>m. dt' = dt\<lparr>dt_state := Done (Inl m)\<rparr>)
    \<or> (\<exists>h. dt' = dt\<lparr>dt_state := Running h\<rparr> \<and> runs_test (dt_suite dt) (test_path dt) h \<and> ch_id h = n)"
  using assms by (auto simp: start_def runs_test_def split: if_splits)

lemma handle_ok_start:
  assumes "handle_ok hs ends s tp dt" and "start is_dir display n dt = Some dt'"
  shows "handle_ok (hs \<union> set (case dt_state dt' of Running h \<Rightarrow> [h] | _ \<Rightarrow> [])) ends s tp dt'"
  using assms(1) start_cases [OF assms(2)] by (auto simp: handle_ok_def)

lemma grows_start:
  assumes "start is_dir display (length (procs w)) dt = Some dt'"
    and "procs w' = procs w @ (case dt_state dt' of Running h \<Rightarrow> [h] | _ \<Rightarrow> [])"
  shows "grows procs w w'"
  using start_cases [OF assms(1)] assms(2) by (auto simp: grows_def)

lemma verdict_success:
  assumes "handle_ok hs ends s tp dt" and "is_ok (fst (device_verdict display ends dt))"
  shows "passed_among hs ends s tp"
proof (cases "dt_state dt")
  case Idle
  with assms(2) show ?thesis by (simp add: verdict_cases)
next
  case (Running h)
  with assms have "h \<in> hs" "runs_test s tp h" "is_ok (join_result display dt (ends h))"
    by (simp_all add: verdict_cases handle_ok_def)
  then show ?thesis unfolding join_result_ok passed_among_def by blast
next
  case (Done r)
  with assms show ?thesis by (simp add: verdict_cases handle_ok_def)
qed

lemma handle_ok_verdict:
  assumes "handle_ok hs ends s tp dt" and "device_verdict display ends dt = (r, dt')"
  shows "handle_ok hs ends s tp dt'"
proof -
  have "dt_suite dt' = s" "test_path dt' = tp" "dt_state dt' = Idle \<or> dt_state dt' = Done r"
    using assms by (auto simp: verdict_cases handle_ok_def split: device_state.splits)
  moreover have "is_ok r \<longrightarrow> passed_among hs ends s tp"
    using verdict_success [OF assms(1), of display] assms(2) by simp
  ultimately show ?thesis unfolding handle_ok_def by (elim disjE) simp_all
qed

lemma handle_ok_context:
  "handle_ok hs ends s tp dt \<Longrightarrow> failure_context display ends finished dt = (m, dt') \<Longrightarrow> handle_ok hs ends s tp dt'"
  by (cases "device_verdict display ends dt")
    (auto simp: failure_context_def handle_ok_verdict split: if_splits sum.splits)

text \<open>The invariant of a run from a new handle.\<close>

lemma device_run_ok:
  assumes "device_run is_dir display ends procs x y" and "x = (suite_test s tp, w)"
  shows "grows procs w (snd y) \<and> handle_ok (spawned_between procs w (snd y)) ends s tp (fst y)"
  using assms
proof (induction rule: device_run.induct)
  case fresh
  then show ?case by (simp add: handle_ok_def suite_test_def)
next
  case (started dt v dt' v')
  then have IH: "grows procs w v" "handle_ok (spawned_between procs w v) ends s tp dt" by simp_all
  have "grows procs w v'" by (rule grows_trans [OF IH(1)], rule grows_start) (use started.hyps in simp_all)
  with handle_ok_start [OF IH(2) started.hyps(2)] show ?case
    by (simp add: spawned_Un [where procs = procs, OF IH(1) started.hyps(3)])
next
  case (dropped dt v h dt')
  then show ?case
    by (auto simp: handle_ok_def verdict_begin_def Let_def split: device_state.splits)
next
  case (elapsed dt v v')
  then show ?case by (auto intro: grows_trans elim!: handle_ok_mono dest: spawned_mono)
qed (auto intro: handle_ok_verdict handle_ok_context)

section \<open>Properties\<close>

lemma paired_scenario_passes:
  assumes "device_run is_dir display ends procs (suite_test s tp, w)
      (fst (snd (body cx (suite_test s tp) w)), snd (snd (snd (body cx (suite_test s tp) w))))"
    and "paired_scenario display ends finished s tp body cx w = (r, ev, w')"
  shows "grows procs w w' \<and> (r = Finished (Inr ()) \<longrightarrow>
      (\<exists>dt. body cx (suite_test s tp) w = (Finished (Inr ()), dt, ev, w'))
    \<and> passed_among (spawned_between procs w w') ends s tp)"
proof -
  obtain r1 dt ev1 w1 where b: "body cx (suite_test s tp) w = (r1, dt, ev1, w1)" by (rule prod_cases4)
  with device_run_ok [OF assms(1) refl]
  have ok: "grows procs w w1" "handle_ok (spawned_between procs w w1) ends s tp dt" by simp_all
  have same: "ev1 = ev" "w1 = w'"
    using assms(2) b by (auto simp: paired_scenario_def split: attempt_end.splits sum.splits prod.splits option.splits)
  have "r1 = Finished (Inr ()) \<and> fst (device_verdict display ends dt) = Inr ()" if "r = Finished (Inr ())"
    using assms(2) b that
    by (auto simp: paired_scenario_def split: attempt_end.splits sum.splits prod.splits option.splits)
  with verdict_success [OF ok(2), of display] b ok(1) same show ?thesis by auto
qed

lemma scenario_test_simps:
  "bt_body (scenario_test display ends finished s sc)
     = paired_scenario display ends finished s (scenario_path sc) (sc_body sc)"
  "bt_attempts (scenario_test display ends finished s sc)
     = (case sc_attempts sc of None \<Rightarrow> 1 | Some n \<Rightarrow> max n 1)"
  by (simp_all add: scenario_test_def new_test_def with_attempts_def Let_def split: option.split)

text \<open>
  C30: no trial of a paired suite passes without its device half, retries included. Whatever
  calls the body makes on its handles, in any order and with any of them abandoned midway,
  the trial of a scenario is completed only if in an attempt of this trial the body returned
  without error and, in the course of that same attempt, a child was spawned that ran exactly
  this on-target test and exited successfully. A child of an earlier attempt, of another trial
  or of another handle's test is not enough.
\<close>

theorem scenario_passes_only_with_its_device_test:
  assumes body: "\<forall>cx w. device_run is_dir display ends procs (suite_test s (scenario_path sc), w)
      (fst (snd (sc_body sc cx (suite_test s (scenario_path sc)) w)),
       snd (snd (snd (sc_body sc cx (suite_test s (scenario_path sc)) w))))"
    and env: "\<forall>v. grows procs v (snd (re_acquire env v))" "\<forall>d r v. grows procs v (re_append env d r v)"
    and run: "run_trial env (scenario_test display ends finished s sc) cell w = (Completed, cell', w')"
  shows "\<exists>cx w0 dt ev w1 h status. cell' = Some (Ready (cx_rig cx))
    \<and> cx_attempt cx \<le> bt_attempts (scenario_test display ends finished s sc)
    \<and> sc_body sc cx (suite_test s (scenario_path sc)) w0 = (Finished (Inr ()), dt, ev, w1)
    \<and> grows procs w w0 \<and> h \<in> spawned_between procs w0 w1 \<and> grows procs w1 w'
    \<and> runs_test s (scenario_path sc) h \<and> ends h = Exited True status"
proof -
  let ?t = "scenario_test display ends finished s sc" and ?tp = "scenario_path sc"
  have n: "bt_attempts ?t \<noteq> 0"
    by (auto simp: scenario_test_simps max_def word_le_nat_alt unat_eq_0 split: option.split)
  note attempt = paired_scenario_passes [where procs = procs and body = "sc_body sc" and s = s and tp = ?tp
      and is_dir = is_dir and ends = ends, OF body [rule_format]]
  obtain rg w1 used ev w2 r where g: "get_or_init env cell w = (Some (Ready rg), w1)" "cell' = Some (Ready rg)"
    and a: "run_attempts env rg ?t (unat (bt_attempts ?t)) 1 (new_evidence (bt_name ?t) (re_now env w1)) w1
        = (Finished (Inr ()), used, ev, w2)"
    and u: "used \<le> bt_attempts ?t" "w' = record_trial env (Ready rg) r w2"
    using completed_trial_passed [OF n run] by blast
  have f: "unat (bt_attempts ?t) \<noteq> 0" "unat (1 :: u32) + unat (bt_attempts ?t) = Suc (unat (bt_attempts ?t))"
    using n by (simp_all add: unat_eq_0)
  have "grows procs v (snd (snd (bt_body ?t cx v)))" for cx v
  proof -
    obtain x ev v' where "paired_scenario display ends finished s ?tp (sc_body sc) cx v = (x, ev, v')"
      by (rule prod_cases3)
    with attempt [OF this] show ?thesis by (simp add: scenario_test_simps)
  qed
  with run_attempts_last [OF a f reflpI transpI, of "grows procs"] obtain ev0 w0 where
    w0: "grows procs w1 w0" "bt_body ?t \<lparr>cx_rig = rg, cx_evidence = ev0, cx_attempt = used\<rparr> w0 = (Finished (Inr ()), ev, w2)"
    (is "bt_body ?t ?cx w0 = _")
    by (blast intro: grows_refl grows_trans)
  have "paired_scenario display ends finished s ?tp (sc_body sc) ?cx w0 = (Finished (Inr ()), ev, w2)"
    using w0(2) by (simp add: scenario_test_simps)
  from attempt [OF this] obtain dt h status where
    "sc_body sc ?cx (suite_test s ?tp) w0 = (Finished (Inr ()), dt, ev, w2)"
    "h \<in> spawned_between procs w0 w2" "runs_test s ?tp h" "ends h = Exited True status"
    by (auto simp: passed_among_def)
  moreover have "grows procs w w1"
    using g(1) env(1) by (auto simp: get_or_init_def split: option.splits prod.splits) (metis snd_conv)
  then have "grows procs w w0" using w0(1) by (rule grows_trans)
  moreover have "grows procs w2 w'" using u(2) env(2) by (simp add: record_trial_def split: option.split)
  moreover have "cell' = Some (Ready (cx_rig ?cx))" "cx_attempt ?cx \<le> bt_attempts ?t" using g(2) u(1) by simp_all
  ultimately show ?thesis by blast
qed

text \<open>
  A process whose world is its children. The scenario allows two attempts; the first one
  fails after its child was spawned.
\<close>

definition child_env :: "(unit, child list) runner_env" where
  "child_env = \<lparr>re_artifacts = None, re_rig_artifacts = (\<lambda>_. path_of (lit ''/a'')),
     re_acquire = (\<lambda>w. (Some (Inr ()), w)), re_append = (\<lambda>_ _ w. w), re_now = (\<lambda>_. Instant 0),
     re_unix = (\<lambda>_. Some 0), re_persist = (\<lambda>d ev w. (Inr (evidence_file d ev), w)),
     re_display = (\<lambda>_. []), re_suite = lit ''demo''\<rparr>"

definition start_body :: "(unit, child list) scenario_body" where
  "start_body cx dt w =
    (let dt' = the (start (\<lambda>_. True) (\<lambda>_. []) (length w) dt) in
     (Finished (if cx_attempt cx < 2 then Inl None else Inr ()), dt', cx_evidence cx,
      w @ (case dt_state dt' of Running h \<Rightarrow> [h] | _ \<Rightarrow> [])))"

definition join_scenario :: "(unit, child list) scenario" where
  "join_scenario = \<lparr>sc_name = lit ''x'', sc_attempts = Some 2, sc_device_test = None, sc_body = start_body\<rparr>"

theorem scenario_passes_only_with_its_device_test_witness:
  "\<exists>c0 c1. run_trial child_env (scenario_test (\<lambda>_. []) (\<lambda>_. Exited True []) (\<lambda>_. True)
        (new_suite (path_of (lit ''fw'')) (lit ''join'')) join_scenario) None []
      = (Completed, Some (Ready ()), [c0, c1])
    \<and> (\<exists>h \<in> {c0, c1}. runs_test (new_suite (path_of (lit ''fw'')) (lit ''join'')) (lit ''tests::x'') h)"
proof -
  let ?s = "new_suite (path_of (lit ''fw'')) (lit ''join'')"
  let ?ends = "\<lambda>_ :: child. Exited True []"
  let ?t = "scenario_test (\<lambda>_. []) ?ends (\<lambda>_. True) ?s join_scenario"
  have tp: "scenario_path join_scenario = lit ''tests::x''"
    by (simp add: scenario_path_def join_scenario_def default_test_path_def lit_def)
  let ?child = "\<lambda>n. \<lparr>ch_program = program ?s, ch_args = device_args ?s (lit ''tests::x''), ch_dir = crate_dir ?s, ch_id = n\<rparr>"
  have st: "start (\<lambda>_. True) (\<lambda>_. []) n (suite_test ?s (lit ''tests::x''))
      = Some (suite_test ?s (lit ''tests::x'')\<lparr>dt_state := Running (?child n)\<rparr>)" for n
    by (simp add: start_def suite_test_def)
  have body: "sc_body join_scenario cx (suite_test ?s (lit ''tests::x'')) w
      = (Finished (if cx_attempt cx < 2 then Inl None else Inr ()),
         suite_test ?s (lit ''tests::x'')\<lparr>dt_state := Running (?child (length w))\<rparr>, cx_evidence cx, w @ [?child (length w)])"
    for cx w by (simp add: join_scenario_def start_body_def st Let_def)
  have reach: "\<forall>cx w. device_run (\<lambda>_. True) (\<lambda>_. []) ?ends id (suite_test ?s (scenario_path join_scenario), w)
      (fst (snd (sc_body join_scenario cx (suite_test ?s (scenario_path join_scenario)) w)),
       snd (snd (snd (sc_body join_scenario cx (suite_test ?s (scenario_path join_scenario)) w))))"
    unfolding tp body by (auto intro!: device_run.started [OF device_run.fresh] simp: st)
  have b: "bt_body ?t cx w = (Finished (if cx_attempt cx < 2 then Inl (Some (lit ''test failed'')) else Inr ()),
      cx_evidence cx, w @ [?child (length w)])" for cx w
    by (simp add: scenario_test_simps paired_scenario_def tp body failure_context_def verdict_cases join_result_def
        message_or_def)
  have n: "bt_attempts ?t = 2"
    by (simp add: scenario_test_simps join_scenario_def max_def word_le_nat_alt)
  have "\<exists>ev'. run_attempts child_env () ?t (Suc (Suc 0)) 1 ev [] = (Finished (Inr ()), 2, ev', [?child 0, ?child 1])" for ev
    by (simp add: b n Let_def)
  moreover have "unat (bt_attempts ?t) = Suc (Suc 0)" by (simp add: n)
  ultimately obtain ev where "run_attempts child_env () ?t (unat (bt_attempts ?t)) 1
      (new_evidence (bt_name ?t) (re_now child_env [])) [] = (Finished (Inr ()), 2, ev, [?child 0, ?child 1])"
    by metis
  moreover have "get_or_init child_env None [] = (Some (Ready ()), [])" "record_trial child_env st r v = v" for st r v
    by (simp_all add: get_or_init_def init_state_def record_trial_def child_env_def split: option.split)
  ultimately have t: "run_trial child_env ?t None [] = (Completed, Some (Ready ()), [?child 0, ?child 1])"
    by (simp add: run_trial_def Let_def)
  have quiet: "\<forall>v. grows id v (snd (re_acquire child_env v))" "\<forall>d r v. grows id v (re_append child_env d r v)"
    by (simp_all add: child_env_def)
  from scenario_passes_only_with_its_device_test [OF reach quiet t] obtain w0 w1 h where
    "h \<in> spawned_between id w0 w1" "grows id w1 [?child 0, ?child 1]" "runs_test ?s (lit ''tests::x'') h"
    unfolding tp by blast
  from this(1,2) obtain more where "h \<in> set w1" "[?child 0, ?child 1] = w1 @ more"
    by (auto simp: spawned_between_def grows_def dest: in_set_dropD)
  then have "h \<in> set [?child 0, ?child 1]" by (simp only: set_append) blast
  then have "h \<in> {?child 0, ?child 1}" by (simp only: list.set)
  with t \<open>runs_test ?s (lit ''tests::x'') h\<close> show ?thesis by blast
qed

text \<open>
  A verdict that was awaited to its end is final, and one that was abandoned is not. Once
  a call has returned, every later call and every failure context agrees with it. But when
  the future is dropped while the child is still running, the handle is back to where it was
  before the start: the next verdict claims that the test was never started, and the same
  test can be started a second time although its first child was never reaped.
\<close>

theorem abandoned_verdict_forgets_the_child:
  assumes "start is_dir display n (suite_test s tp) = Some dt" and "is_dir (crate_dir s)"
  shows "device_verdict display ends (snd (device_verdict display ends dt)) = device_verdict display ends dt
    \<and> (\<exists>h. verdict_begin dt = (Await h, suite_test s tp)
        \<and> fst (device_verdict display ends (snd (verdict_begin dt))) = Inl (never_started dt)
        \<and> (\<exists>dt2. start is_dir display m (snd (verdict_begin dt)) = Some dt2
             \<and> (\<exists>h2. dt_state dt2 = Running h2 \<and> ch_id h2 = m)))"
proof -
  have dt: "dt = suite_test s tp\<lparr>dt_state := Running \<lparr>ch_program = program s,
      ch_args = device_args s tp, ch_dir = crate_dir s, ch_id = n\<rparr>\<rparr>"
    using assms by (simp add: start_def suite_test_def)
  have "verdict_begin dt = (Await \<lparr>ch_program = program s, ch_args = device_args s tp,
      ch_dir = crate_dir s, ch_id = n\<rparr>, suite_test s tp)"
    by (simp add: dt verdict_begin_def Let_def suite_test_def)
  then show ?thesis
    using assms(2)
    by (simp add: dt verdict_cases start_def never_started_def)
      (simp add: suite_test_def)
qed

theorem abandoned_verdict_forgets_the_child_witness:
  "fst (device_verdict (\<lambda>_. []) (\<lambda>_. Exited True []) (snd (verdict_begin
     (the (start (\<lambda>_. True) (\<lambda>_. []) 0 (suite_test (new_suite (path_of []) []) [])))))) \<noteq> Inr ()"
proof -
  let ?s = "new_suite (path_of []) []"
  obtain dt where d: "start (\<lambda>_. True) (\<lambda>_. []) 0 (suite_test ?s []) = Some dt"
    by (simp add: start_def suite_test_def)
  with abandoned_verdict_forgets_the_child [OF d] show ?thesis by auto
qed

end
