(* ===== verification/Suite.thy ===== *)
theory Suite
  imports Device
begin

text \<open>
  A test process on a real machine: the runner (\<open>banc-host/src/runner.rs\<close>) with the acquisition
  of \<open>banc-host/src/rig.rs\<close> behind it. The rest of the runner's surroundings (the clock, the
  file of results, the evidence files) stays an argument.
\<close>

text \<open>
  What the closure given to the shared cell does with an acquisition. The two deadlines that
  cannot be represented are panics of the code, which unwind; so \<open>None\<close> is an acquisition that
  does not deliver. (One that never returns would be another; \<open>acquire_total\<close> excludes it.)
\<close>

definition deadline_panic :: "'e rig_failure \<Rightarrow> bool" where
  "deadline_panic e \<longleftrightarrow> e = Acquiring_lease Lease_deadline_panic \<or> e = Lock_failure Lock_deadline_panic"

definition acquire_state ::
  "('c, 'f, 'e, 't, 'w) host \<Rightarrow> ('e rig_failure \<Rightarrow> rstr) \<Rightarrow> 'w
   \<Rightarrow> ((rstr + rstr) + ('c, 'f, 't) rig_fixture) option \<times> 'w" where
  "acquire_state h show_failure w =
    (case acquire h w of
       Some (Inr fx, w') \<Rightarrow> (Some (Inr fx), w')
     | Some (Inl (Skip reason), w') \<Rightarrow> (Some (Inl (Inl reason)), w')
     | Some (Inl (Fail e), w') \<Rightarrow>
         (if deadline_panic e then None else Some (Inl (Inr (show_failure e))), w')
     | None \<Rightarrow> (None, w))"

definition on_machine ::
  "('c, 'f, 'e, 't, 'w) host \<Rightarrow> ('e rig_failure \<Rightarrow> rstr) \<Rightarrow> (('c, 'f, 't) rig_fixture, 'w) runner_env
   \<Rightarrow> (('c, 'f, 't) rig_fixture, 'w) runner_env" where
  "on_machine h show_failure env =
    env\<lparr>re_acquire := acquire_state h show_failure, re_artifacts := env_path h ''BANC_ARTIFACTS'',
        re_rig_artifacts := artifacts_dir h\<rparr>"

text \<open>\<open>p\<close> acquisitions in a row that end in such a panic.\<close>

fun panicking :: "('c, 'f, 'e, 't, 'w) host \<Rightarrow> nat \<Rightarrow> 'w \<Rightarrow> 'w \<Rightarrow> bool" where
  "panicking h 0 w v \<longleftrightarrow> v = w"
| "panicking h (Suc p) w v \<longleftrightarrow>
     (\<exists>e u. acquire h w = Some (Inl (Fail e), u) \<and> deadline_panic e \<and> panicking h p u v)"

lemma acquire_state_None:
  assumes "clocks_run h" and "fst (acquire_state h show_failure w) = None"
  shows "\<exists>e u. acquire h w = Some (Inl (Fail e), u) \<and> deadline_panic e \<and> u = snd (acquire_state h show_failure w)"
proof -
  obtain r u where a: "acquire h w = Some (r, u)" using acquire_total [OF assms(1)] by blast
  with assms(2) show ?thesis
    by (cases r) (auto simp: acquire_state_def split: acquire_error.splits if_splits)
qed

lemma unwinding_panicking:
  "clocks_run h \<Longrightarrow> unwinding (on_machine h show_failure env) p w v \<Longrightarrow> panicking h p w v"
proof (induction p arbitrary: w)
  case 0
  then show ?case by simp
next
  case (Suc p)
  then have "fst (acquire_state h show_failure w) = None"
    "unwinding (on_machine h show_failure env) p (snd (acquire_state h show_failure w)) v"
    by (simp_all add: on_machine_def)
  moreover from this(1) obtain e u where "acquire h w = Some (Inl (Fail e), u)" "deadline_panic e"
    "u = snd (acquire_state h show_failure w)"
    using acquire_state_None [OF Suc.prems(1)] by blast
  ultimately show ?case using Suc.IH [OF Suc.prems(1)] by simp
qed

lemma acquire_skips_always:
  fixes h :: "('c, 'f, 'e, 't, 'w) host"
  assumes "acquire h w = Some (Inl (Skip why :: 'e acquire_error), w1)"
  shows "acquire h v = Some (Inl (Skip skip_reason), v) \<and> why = skip_reason \<and> w1 = w"
proof -
  have "locate (env_var h ENV_VAR) (is_file h) (current_dir h) = (Inr None :: (io_error, 'e) load_error + path option)"
    using assms acquire_configured [of h w why w1] by blast
  with assms show ?thesis by (simp add: acquire_def)
qed

lemma skip_located:
  fixes h :: "('c, 'f, 'e, 't, 'w) host"
  assumes "acquire h w = Some (Inl (Skip why :: 'e acquire_error), w1)"
  shows "(\<nexists>s. env_var h ENV_VAR = Value s) \<and> (\<exists>dir. current_dir h = Inr dir
    \<and> (\<forall>k \<le> length (parts dir). \<not> is_file h (file_in (ancestor dir k) CONFIG_FILE)))"
proof -
  have "locate (env_var h ENV_VAR) (is_file h) (current_dir h) = (Inr None :: (io_error, 'e) load_error + path option)"
    using assms acquire_configured [of h w why w1] by blast
  then show ?thesis by (simp add: locate_None)
qed

text \<open>
  C29: tests run only on a rig that is held. The trials of a process share one cell, and no
  body runs with anything but the fixture that ends up in it: other bodies in the place of
  the tests', different in whatever they do with any other fixture, make no difference. The
  cell stays empty exactly when the acquisition of every trial panicked on its deadline, which
  ends the trial. Otherwise the process asks the arbiter once after those panics, and all
  remaining trials share the answer. On a machine without a configuration all are ignored with
  the reason for it, and nothing is asked at all; when the configuration or the arbiter fails,
  all fail with that error; else all run their bodies with one fixture, whose configuration is
  valid and whose hold was granted by the arbiter the configuration names, and their verdicts
  are those of the bodies.
\<close>

theorem suite_runs_only_on_a_held_rig:
  fixes h :: "('c, 'f, 'e, 't, 'w) host"
  assumes "clocks_run h" and "\<forall>t \<in> set (selected tests). bt_attempts t \<noteq> 0"
    and "run_suite (on_machine h show_failure env) selected tests w = (cs, cell, w')"
  shows "(\<forall>others. list_all2 (alike {fx. cell = Some (Ready fx)}) (selected tests) others \<longrightarrow>
      run_suite (on_machine h show_failure env) (\<lambda>ts. ts) others w = (cs, cell, w'))
    \<and> length cs = length (selected tests)
    \<and> (\<exists>p v. panicking h p w v \<and> take p cs = replicate p Unwound \<and> (case cell of
        None \<Rightarrow> p = length cs \<and> w' = v
      | Some st \<Rightarrow> p < length cs \<and> (\<exists>r w1. acquire h v = Some (r, w1) \<and> (case st of
          No_rig why \<Rightarrow> r = Inl (Skip why) \<and> p = 0 \<and> w1 = w \<and> why = skip_reason
            \<and> cs = replicate (length cs) (Ignored why)
            \<and> (\<nexists>s. env_var h ENV_VAR = Value s)
            \<and> (\<exists>dir. current_dir h = Inr dir
                 \<and> (\<forall>k \<le> length (parts dir). \<not> is_file h (file_in (ancestor dir k) CONFIG_FILE)))
        | Broken_rig m \<Rightarrow> (\<exists>e. r = Inl (Fail e) \<and> \<not> deadline_panic e \<and> m = show_failure e)
            \<and> drop p cs = replicate (length cs - p) (Failed_with (lit ''rig unavailable: '' @ m))
        | Ready fx \<Rightarrow> r = Inr fx \<and> well_formed (config fx)
            \<and> granted_by h (config fx) (base_dir fx) (hold fx) w1
            \<and> list_all2 (tells_attempts (on_machine h show_failure env) fx)
                (drop p (selected tests)) (drop p cs)))))"
proof -
  let ?env = "on_machine h show_failure env" and ?ts = "selected tests"
  have run: "run_trials ?env ?ts None w = (cs, cell, w')" using assms(3) by (simp add: run_suite_def)
  have bodies: "run_suite ?env (\<lambda>ts. ts) others w = (cs, cell, w')"
    if "list_all2 (alike {fx. cell = Some (Ready fx)}) ?ts others" for others
    using run_trials_alike [OF run that] by (simp add: run_suite_def)
  from run_trials_unwinding [OF run] obtain p v where len: "length cs = length ?ts"
    and p: "unwinding ?env p w v" "p \<le> length ?ts" "take p cs = replicate p Unwound"
      "run_trials ?env (drop p ?ts) None v = (drop p cs, cell, w')"
      "if p = length ?ts then cell = None else fst (re_acquire ?env v) \<noteq> None"
    by blast
  have pan: "panicking h p w v" by (rule unwinding_panicking [OF assms(1) p(1)])
  show ?thesis
  proof (cases "p = length ?ts")
    case True
    with p(4,5) have "cell = None \<and> w' = v" by simp
    with bodies len pan p(3) True show ?thesis by (intro conjI exI [of _ p] exI [of _ v]) simp_all
  next
    case False
    then obtain t ts where ts: "drop p ?ts = t # ts" using p(2) by (cases "drop p ?ts") auto
    have less: "p < length cs" "length (drop p cs) = Suc (length ts)"
      using False p(2) len arg_cong [OF ts, of length] by simp_all
    obtain q w1 where q: "re_acquire ?env v = (Some q, w1)"
      using False p(5) by (cases "re_acquire ?env v") auto
    have "set (t # ts) \<subseteq> set ?ts" using set_drop_subset [of p ?ts] unfolding ts .
    with assms(2) have "\<forall>t \<in> set (t # ts). bt_attempts t \<noteq> 0" by blast
    note sh = shared_acquisition [OF p(4) [unfolded ts] q this]
    have st: "acquire_state h show_failure v = (Some q, w1)" using q by (simp add: on_machine_def)
    obtain r u where a: "acquire h v = Some (r, u)"
      "\<forall>fx. r = Inr fx \<longrightarrow> well_formed (config fx) \<and> granted_by h (config fx) (base_dir fx) (hold fx) u"
      using acquire_total [OF assms(1)] by blast
    have n: "length cs - p = Suc (length ts)" using less(2) by simp
    note shape = bodies len pan p(3) less(1) a(1)
    show ?thesis
    proof (cases r)
      case (Inr fx)
      then have "q = Inr fx" using st a(1) by (simp add: acquire_state_def)
      with sh a(2) Inr shape ts show ?thesis
        by (intro conjI exI [of _ p] exI [of _ v]) (auto simp: init_state_def)
    next
      case (Inl x)
      show ?thesis
      proof (cases x)
        case (Fail e)
        then have "\<not> deadline_panic e" "q = Inl (Inr (show_failure e))"
          using st a(1) Inl by (auto simp: acquire_state_def split: if_splits)
        with sh Inl Fail shape n show ?thesis
          by (intro conjI exI [of _ p] exI [of _ v]) (auto simp: init_state_def)
      next
        case (Skip why)
        have q: "q = Inl (Inl why)" using st a(1) Inl Skip by (simp add: acquire_state_def)
        from a(1) Inl Skip have sk: "acquire h v = Some (Inl (Skip why), u)" by simp
        note always = acquire_skips_always [OF sk]
        have p0: "p = 0" using pan always [of w] by (cases p) auto
        then have v: "v = w" using pan by simp
        have "(\<nexists>s. env_var h ENV_VAR = Value s) \<and> (\<exists>dir. current_dir h = Inr dir
                 \<and> (\<forall>k \<le> length (parts dir). \<not> is_file h (file_in (ancestor dir k) CONFIG_FILE)))"
          using skip_located [OF sk] .
        moreover have "length cs = Suc (length ts)" using n p0 by simp
        ultimately show ?thesis
          using sh q sk always [of w] shape p0 v
          by (intro conjI exI [of _ p] exI [of _ v]) (auto simp: init_state_def)
      qed
    qed
  qed
qed

text \<open>The instances: the bench, with a test that passes at its second attempt, and without its file.\<close>

definition bench_env :: "((unit, fdesc, unit) rig_fixture, kernel) runner_env" where
  "bench_env = \<lparr>re_artifacts = None, re_rig_artifacts = base_dir, re_acquire = (\<lambda>k. (None, k)),
     re_append = (\<lambda>_ _ k. k), re_now = k_now, re_unix = (\<lambda>k. Some (k_unix k)),
     re_persist = (\<lambda>d ev k. (Inr (evidence_file d ev), k)), re_display = (\<lambda>_. []), re_suite = lit ''demo''\<rparr>"

definition retried :: "((unit, fdesc, unit) rig_fixture, kernel) banc_test" where
  "retried = with_attempts 3 (new_test (lit ''t'')
     (\<lambda>cx k. (Finished (if cx_attempt cx < 2 then Inl None else Inr ()), cx_evidence cx, k)))"

lemma retried_attempts: "bt_attempts retried = 3"
  by (simp add: retried_def with_attempts_def max_def word_le_nat_alt)

lemma retried_passes:
  assumes "tells_attempts env fx retried c"
  shows "c = Completed"
proof -
  have "bt_body retried = (\<lambda>cx k. (Finished (if cx_attempt cx < 2 then Inl None else Inr ()), cx_evidence cx, k))"
    by (simp add: retried_def with_attempts_def new_test_def)
  then have "attempt_ends env fx retried (Suc (Suc (Suc 0))) 1 ev w = [Finished (Inl None), Finished (Inr ())]" for ev w
    by (simp add: retried_attempts Let_def)
  moreover have "unat (bt_attempts retried) = Suc (Suc (Suc 0))" by (simp add: retried_attempts)
  ultimately have "trial_ends env fx retried w = [Finished (Inl None), Finished (Inr ())]" for w
    by (simp only: trial_ends_def)
  with assms show ?thesis by (auto simp: tells_attempts_def)
qed

theorem suite_runs_only_on_a_held_rig_witness:
  "\<exists>fx k k'. run_suite (on_machine bench (\<lambda>_. []) bench_env) (\<lambda>ts. ts) [retried, retried] kernel_start
      = ([Completed, Completed], Some (Ready fx), k)
    \<and> config fx = plain_config []
    \<and> run_suite (on_machine (bench\<lparr>is_file := \<lambda>_. False\<rparr>) (\<lambda>_. []) bench_env) (\<lambda>ts. ts) [retried, retried]
        kernel_start = ([Ignored skip_reason, Ignored skip_reason], Some (No_rig skip_reason), k')"
proof -
  let ?none = "bench\<lparr>is_file := \<lambda>_. False\<rparr>"
  have n: "\<forall>t \<in> set [retried, retried]. bt_attempts t \<noteq> 0" by (simp add: retried_attempts)
  obtain f u where a: "acquire bench kernel_start
      = Some (Inr \<lparr>config = plain_config [], base_dir = path_of (lit ''/home''), hold = Flock f\<rparr>, u)"
    (is "_ = Some (Inr ?fx, u)")
    using bench_acquires by blast
  obtain cs cell k where r: "run_suite (on_machine bench (\<lambda>_. []) bench_env) (\<lambda>ts. ts) [retried, retried] kernel_start
      = (cs, cell, k)"
    by (rule prod_cases3)
  from suite_runs_only_on_a_held_rig [OF bench_clocks n r, THEN conjunct2] obtain p v where
    p: "panicking bench p kernel_start v" and len: "length cs = length [retried, retried]" and
    c: "case cell of None \<Rightarrow> p = length cs \<and> k = v
      | Some st \<Rightarrow> p < length cs \<and> (\<exists>r w1. acquire bench v = Some (r, w1) \<and> (case st of
          No_rig why \<Rightarrow> r = Inl (Skip why)
        | Broken_rig m \<Rightarrow> (\<exists>e. r = Inl (Fail e))
        | Ready fx \<Rightarrow> r = Inr fx \<and> list_all2 (tells_attempts (on_machine bench (\<lambda>_. []) bench_env) fx)
                (drop p [retried, retried]) (drop p cs)))"
    by (fastforce split: option.splits rig_state.splits)
  have p0: "p = 0" "v = kernel_start" using p a by (cases p; simp)+
  with c a len have bench: "cell = Some (Ready ?fx)"
    "list_all2 (tells_attempts (on_machine bench (\<lambda>_. []) bench_env) ?fx) [retried, retried] cs"
    by (auto split: option.splits rig_state.splits)
  then have cs: "cs = [Completed, Completed]"
    by (auto simp: list_all2_Cons1 dest: retried_passes)
  have off: "clocks_run ?none" using bench_clocks by (simp add: clocks_run_def)
  obtain ds cell2 k' where s: "run_suite (on_machine ?none (\<lambda>_. []) bench_env) (\<lambda>ts. ts) [retried, retried] kernel_start
      = (ds, cell2, k')"
    by (rule prod_cases3)
  have "\<exists>s w'. acquire ?none kernel_start = Some (Inl (Skip s), w')"
    by (simp add: acquire_skip locate_None) (simp add: bench_def)
  then have skip: "acquire ?none kernel_start = Some (Inl (Skip skip_reason), kernel_start)"
    using acquire_skips_always [of ?none kernel_start] by blast
  from suite_runs_only_on_a_held_rig [OF off n s, THEN conjunct2] obtain q v2 where
    q: "panicking ?none q kernel_start v2" and len2: "length ds = length [retried, retried]" and
    d: "case cell2 of None \<Rightarrow> q = length ds \<and> k' = v2
      | Some st \<Rightarrow> \<exists>r w1. acquire ?none v2 = Some (r, w1) \<and> (case st of
          No_rig why \<Rightarrow> r = Inl (Skip why) \<and> ds = replicate (length ds) (Ignored why)
        | Broken_rig m \<Rightarrow> (\<exists>e. r = Inl (Fail e))
        | Ready fx \<Rightarrow> r = Inr fx)"
    by (fastforce split: option.splits rig_state.splits)
  have "q = 0" "v2 = kernel_start" using q skip by (cases q; simp)+
  with d skip len2 have "cell2 = Some (No_rig skip_reason)" "ds = replicate (Suc (Suc 0)) (Ignored skip_reason)"
    by (auto split: option.splits rig_state.splits)
  with r s bench(1) cs show ?thesis by auto
qed

end
