(* ===== verification/Expect.thy ===== *)
theory Expect
  imports Timing
begin

text \<open>
  Event-stream assertions (\<open>banc-host/src/expect.rs\<close>): wait for a matching event within a
  deadline, or certify silence over a window. A future is driven by wake-ups: at each one the
  inner loop takes events as long as the source has some, and only when the source is
  pending does the timeout look at the clock. \<open>poll_next\<close> is the source's \<open>next\<close> at one
  wake-up: pending, an event, or closed.

  The locale \<open>event_source\<close> is the trait of that name; both channel receivers implement it in
  the same way and are the interpretation.
\<close>

datatype 'a poll = Pending | Item 'a | Closed_source

datatype 'a expect_error = Deadline duration | Closed | Unexpected 'a

text \<open>What the inner loop returns when it does; \<open>None\<close> is pending. A source that is ready
  for ever keeps the loop from returning, which is the outer \<open>None\<close>.\<close>

datatype 'a verdict = Match 'a | Source_closed

partial_function (option) take_events ::
  "('s \<Rightarrow> 'a poll \<times> 's) \<Rightarrow> ('a \<Rightarrow> bool) \<Rightarrow> 's \<Rightarrow> ('a verdict option \<times> 's) option" where
  "take_events poll_next pred s =
    (case poll_next s of
       (Item e, s') \<Rightarrow> if pred e then Some (Some (Match e), s') else take_events poll_next pred s'
     | (Closed_source, s') \<Rightarrow> Some (Some Source_closed, s')
     | (Pending, s') \<Rightarrow> Some (None, s'))"

text \<open>
  A wake-up is the time and what happened to the source since the last one. The result is the
  verdict or \<open>None\<close> for the timeout; past the last wake-up the future is still waiting.
\<close>

datatype 'a timeout_result = Waiting | Inner 'a | Elapsed

fun timeout_at ::
  "('s \<Rightarrow> 'a poll \<times> 's) \<Rightarrow> ('a \<Rightarrow> bool) \<Rightarrow> instant \<Rightarrow> (instant \<times> ('s \<Rightarrow> 's)) list \<Rightarrow> 's
   \<Rightarrow> ('a verdict timeout_result \<times> 's) option" where
  "timeout_at poll_next pred deadline [] s = Some (Waiting, s)"
| "timeout_at poll_next pred deadline ((now, happened) # ws) s =
     (case take_events poll_next pred (happened s) of
        None \<Rightarrow> None
      | Some (Some v, s') \<Rightarrow> Some (Inner v, s')
      | Some (None, s') \<Rightarrow>
          if deadline \<le> now then Some (Elapsed, s') else timeout_at poll_next pred deadline ws s')"

definition expect_matching ::
  "('s \<Rightarrow> 'a poll \<times> 's) \<Rightarrow> instant \<Rightarrow> duration \<Rightarrow> ('a \<Rightarrow> bool) \<Rightarrow> (instant \<times> ('s \<Rightarrow> 's)) list \<Rightarrow> 's
   \<Rightarrow> (('a expect_error + 'a) timeout_result \<times> 's) option" where
  "expect_matching poll_next now deadline pred ws s =
    (case timeout_at poll_next pred (after now deadline) ws s of
       None \<Rightarrow> None
     | Some (Waiting, s') \<Rightarrow> Some (Waiting, s')
     | Some (Inner (Match e), s') \<Rightarrow> Some (Inner (Inr e), s')
     | Some (Inner Source_closed, s') \<Rightarrow> Some (Inner (Inl Closed), s')
     | Some (Elapsed, s') \<Rightarrow> Some (Inner (Inl (Deadline deadline)), s'))"

definition expect_quiet ::
  "('s \<Rightarrow> 'a poll \<times> 's) \<Rightarrow> instant \<Rightarrow> duration \<Rightarrow> ('a \<Rightarrow> bool) \<Rightarrow> (instant \<times> ('s \<Rightarrow> 's)) list \<Rightarrow> 's
   \<Rightarrow> (('a expect_error + unit) timeout_result \<times> 's) option" where
  "expect_quiet poll_next now window pred ws s =
    (case timeout_at poll_next pred (after now window) ws s of
       None \<Rightarrow> None
     | Some (Waiting, s') \<Rightarrow> Some (Waiting, s')
     | Some (Inner (Match e), s') \<Rightarrow> Some (Inner (Inl (Unexpected e)), s')
     | Some (Inner Source_closed, s') \<Rightarrow> Some (Inner (Inl Closed), s')
     | Some (Elapsed, s') \<Rightarrow> Some (Inner (Inr ()), s'))"

section \<open>The contract of a source\<close>

locale event_source =
  fixes poll_next :: "'s \<Rightarrow> 'a poll \<times> 's"
    and queued :: "'s \<Rightarrow> 'a list"
    and hung_up :: "'s \<Rightarrow> bool"
  assumes poll_item: "queued s = e # es \<Longrightarrow>
      fst (poll_next s) = Item e \<and> queued (snd (poll_next s)) = es \<and> hung_up (snd (poll_next s)) = hung_up s"
    and poll_empty: "queued s = [] \<Longrightarrow> poll_next s = (if hung_up s then Closed_source else Pending, s)"
begin

text \<open>One wake-up sees the queued events up to the first match, and then whether anyone is left.\<close>

lemma take_events_queued:
  "\<exists>s'. take_events poll_next pred s =
    Some (case find pred (queued s) of
            Some e \<Rightarrow> Some (Match e)
          | None \<Rightarrow> if hung_up s then Some Source_closed else None, s')
   \<and> hung_up s' = hung_up s \<and> queued s' = tl (dropWhile (\<lambda>e. \<not> pred e) (queued s))"
proof (induction "queued s" arbitrary: s)
  case Nil
  then show ?case
    by (subst take_events.simps) (simp add: poll_empty flip: Nil)
next
  case (Cons e es)
  obtain s' where s': "poll_next s = (Item e, s')" "queued s' = es" "hung_up s' = hung_up s"
    using poll_item [OF Cons(2) [symmetric]] by (cases "poll_next s") auto
  show ?case
  proof (cases "pred e")
    case True
    with s' show ?thesis
      by (subst take_events.simps) (simp flip: Cons(2))
  next
    case False
    then have "take_events poll_next pred s = take_events poll_next pred s'"
      using s' by (subst take_events.simps) simp
    moreover have "find pred (queued s) = find pred (queued s')"
      "dropWhile (\<lambda>e. \<not> pred e) (queued s) = dropWhile (\<lambda>e. \<not> pred e) (queued s')"
      using s'(2) False by (simp_all flip: Cons(2))
    ultimately show ?thesis
      using Cons(1) [OF s'(2) [symmetric], unfolded s'(3)] by simp
  qed
qed

lemma take_events_returns: "take_events poll_next pred s \<noteq> None"
  using take_events_queued [of pred s] by auto

end

section \<open>Channels\<close>

record 'a channel =
  buffer :: "'a list"
  disconnected :: bool

fun channel_poll :: "'a channel \<Rightarrow> 'a poll \<times> 'a channel" where
  "channel_poll ch =
    (case buffer ch of
       e # es \<Rightarrow> (Item e, ch\<lparr>buffer := es\<rparr>)
     | [] \<Rightarrow> (if disconnected ch then Closed_source else Pending, ch))"

interpretation channel: event_source channel_poll buffer disconnected
  by unfold_locales simp_all

declare channel_poll.simps [simp del]

text \<open>Senders put events into the channel and may hang up, after which nothing more comes.\<close>

type_synonym 'a traffic = "instant \<times> 'a list \<times> bool"

definition receive :: "'a list \<Rightarrow> bool \<Rightarrow> 'a channel \<Rightarrow> 'a channel" where
  "receive es hangup ch =
    (if disconnected ch then ch else ch\<lparr>buffer := buffer ch @ es, disconnected := hangup\<rparr>)"

definition wake_ups :: "'a traffic list \<Rightarrow> (instant \<times> ('a channel \<Rightarrow> 'a channel)) list" where
  "wake_ups tr = map (\<lambda>(t, es, h). (t, receive es h)) tr"

text \<open>
  What is observed in a window: the events of the wake-ups up to the first one at or after the
  deadline or the one at which the senders hung up, and how the observation ended.
\<close>

datatype ending = Open | Hung_up | Window_over

fun observed :: "instant \<Rightarrow> 'a traffic list \<Rightarrow> ('a list \<times> ending) list" where
  "observed deadline [] = []"
| "observed deadline ((t, es, h) # tr) =
     (if h then [(es, Hung_up)]
      else if deadline \<le> t then [(es, Window_over)]
      else (es, Open) # observed deadline tr)"

fun judge :: "('a \<Rightarrow> bool) \<Rightarrow> ('a list \<times> ending) list \<Rightarrow> 'a verdict timeout_result" where
  "judge pred [] = Waiting"
| "judge pred ((es, fin) # obs) =
     (case find pred es of
        Some e \<Rightarrow> Inner (Match e)
      | None \<Rightarrow> (case fin of Hung_up \<Rightarrow> Inner Source_closed | Window_over \<Rightarrow> Elapsed | Open \<Rightarrow> judge pred obs))"

lemma timeout_channel:
  assumes "\<not> disconnected ch" and "buffer ch = []"
  shows "\<exists>ch'. timeout_at channel_poll pred deadline (wake_ups tr) ch
    = Some (judge pred (observed deadline tr), ch')"
  using assms
proof (induction tr arbitrary: ch)
  case Nil
  then show ?case by (simp add: wake_ups_def)
next
  case (Cons x tr)
  obtain t es h where x: "x = (t, es, h)" by (rule prod_cases3)
  obtain ch' where ch': "take_events channel_poll pred (receive es h ch) =
      Some (case find pred es of Some e \<Rightarrow> Some (Match e) | None \<Rightarrow> if h then Some Source_closed else None, ch')"
    "disconnected ch' = h" "buffer ch' = tl (dropWhile (\<lambda>e. \<not> pred e) es)"
    using channel.take_events_queued [of pred "receive es h ch"] Cons.prems by (auto simp: receive_def)
  show ?case
  proof (cases "find pred es = None \<and> \<not> h \<and> t < deadline")
    case True
    then have "dropWhile (\<lambda>e. \<not> pred e) es = []" by (auto simp: find_None_iff dropWhile_eq_Nil_conv)
    with ch'(3) have "buffer ch' = []" by simp
    moreover have "\<not> deadline \<le> t" using True by (simp add: not_le)
    ultimately show ?thesis using ch'(1,2) True Cons.IH [of ch'] by (simp add: wake_ups_def x)
  next
    case False
    with ch' show ?thesis by (auto simp: wake_ups_def x not_less split: option.split)
  qed
qed

section \<open>Properties\<close>

text \<open>
  C40: an assertion of silence passes only on silence that was watched to the end, and is the
  exact dual of the expectation. On a channel the two helpers judge the same observation: one
  returns the first matching event and the other reports it; a source that hangs up first
  gives a closed error to both; and only when the window runs out with the source still open
  and no match does the expectation miss its deadline and the silence hold. Both return at
  the first wake-up that decides.
\<close>

theorem silence_is_certified_only_by_the_timeout:
  assumes "\<not> disconnected ch" and "buffer ch = []"
    and obs: "obs = observed (after now window) tr"
  shows "\<exists>ch1 ch2. expect_matching channel_poll now window pred (wake_ups tr) ch
      = Some (case judge pred obs of
          Waiting \<Rightarrow> Waiting
        | Inner (Match e) \<Rightarrow> Inner (Inr e)
        | Inner Source_closed \<Rightarrow> Inner (Inl Closed)
        | Elapsed \<Rightarrow> Inner (Inl (Deadline window)), ch1)
    \<and> expect_quiet channel_poll now window pred (wake_ups tr) ch
      = Some (case judge pred obs of
          Waiting \<Rightarrow> Waiting
        | Inner (Match e) \<Rightarrow> Inner (Inl (Unexpected e))
        | Inner Source_closed \<Rightarrow> Inner (Inl Closed)
        | Elapsed \<Rightarrow> Inner (Inr ()), ch2)
    \<and> (judge pred obs = Elapsed \<longleftrightarrow> obs \<noteq> [] \<and> snd (last obs) = Window_over
         \<and> (\<forall>(es, fin) \<in> set obs. \<forall>e \<in> set es. \<not> pred e))"
proof -
  have "judge pred (observed d tr) = Elapsed \<longleftrightarrow> observed d tr \<noteq> [] \<and> snd (last (observed d tr)) = Window_over
      \<and> (\<forall>(es, fin) \<in> set (observed d tr). \<forall>e \<in> set es. \<not> pred e)" for d
  proof (induction d tr rule: observed.induct)
    case (2 d t es h tr)
    have f: "find pred es = None \<longleftrightarrow> (\<forall>e \<in> set es. \<not> pred e)" by (auto simp: find_None_iff)
    show ?case
    proof (cases "find pred es")
      case (Some e)
      with f show ?thesis by (auto split: option.splits)
    next
      case None
      with f 2 show ?thesis by (cases "observed d tr") auto
    qed
  qed simp
  note over = this [of "after now window", folded obs]
  obtain ch' where t: "timeout_at channel_poll pred (after now window) (wake_ups tr) ch
      = Some (judge pred obs, ch')"
    using timeout_channel [OF assms(1,2)] unfolding obs by blast
  show ?thesis
  proof (intro exI conjI)
    show "expect_matching channel_poll now window pred (wake_ups tr) ch = Some (case judge pred obs of
          Waiting \<Rightarrow> Waiting | Inner (Match e) \<Rightarrow> Inner (Inr e)
        | Inner Source_closed \<Rightarrow> Inner (Inl Closed) | Elapsed \<Rightarrow> Inner (Inl (Deadline window)), ch')"
      unfolding expect_matching_def t by (simp split: timeout_result.split verdict.split)
    show "expect_quiet channel_poll now window pred (wake_ups tr) ch = Some (case judge pred obs of
          Waiting \<Rightarrow> Waiting | Inner (Match e) \<Rightarrow> Inner (Inl (Unexpected e))
        | Inner Source_closed \<Rightarrow> Inner (Inl Closed) | Elapsed \<Rightarrow> Inner (Inr ()), ch')"
      unfolding expect_quiet_def t by (simp split: timeout_result.split verdict.split)
  qed (rule over)
qed

theorem silence_is_certified_only_by_the_timeout_witness:
  "(\<exists>ch. expect_quiet channel_poll (Instant 0) 10 (\<lambda>v. v = (7::nat))
      (wake_ups [(Instant 3, [1], False), (Instant 11, [], False)]) \<lparr>buffer = [], disconnected = False\<rparr>
      = Some (Inner (Inr ()), ch))
   \<and> (\<exists>ch. expect_quiet channel_poll (Instant 0) 10 (\<lambda>v. v = (7::nat))
      (wake_ups [(Instant 3, [1], True)]) \<lparr>buffer = [], disconnected = False\<rparr>
      = Some (Inner (Inl Closed), ch))"
  using silence_is_certified_only_by_the_timeout [OF _ _ refl, of "\<lparr>buffer = [], disconnected = False\<rparr>" "Instant 0" 10
      "\<lambda>v. v = (7::nat)" "[(Instant 3, [1], False), (Instant 11, [], False)]"]
    silence_is_certified_only_by_the_timeout [OF _ _ refl, of "\<lparr>buffer = [], disconnected = False\<rparr>" "Instant 0" 10
      "\<lambda>v. v = (7::nat)" "[(Instant 3, [1], True)]"]
  by (auto simp: less_eq_instant_def)

end
