(* ===== verification/Probe.thy ===== *)
theory Probe
  imports Config
begin

text \<open>
  The device under test (\<open>banc-probe\<close>): flashing, resetting and capturing its RTT log, over a
  local probe or a remote probe server. The debug library is third-party code: its calls are
  the fields of \<open>probe_lib\<close> and act on a session of any type, with their errors as text.

  The local probe's thread is \<open>worker_step\<close>, one turn of its loop. What two threads share is
  kept in maps from the number of a capture: the stop channel that its handle feeds, and the
  health that its reader writes. The calls of a sink and the answers on the reply channels
  are logged in order.
\<close>

section \<open>The debug library\<close>

record ('p, 's, 'r) probe_lib =
  parse_selector :: "rstr \<Rightarrow> rstr + rstr"
  open_selected :: "rstr \<Rightarrow> rstr + 'p"
  list_all_probes :: "'p list"
  open_listed :: "'p \<Rightarrow> rstr + 'p"
  attach :: "'p \<Rightarrow> rstr \<Rightarrow> rstr + 's"
  core0 :: "'s \<Rightarrow> (rstr + unit) \<times> 's"
  core_reset :: "'s \<Rightarrow> (rstr + unit) \<times> 's"
  attach_region :: "'s \<Rightarrow> (rstr + 'r) \<times> 's"
  download_file :: "path \<Rightarrow> 's \<Rightarrow> (rstr + unit) \<times> 's"
  has_up_channel :: "'r \<Rightarrow> bool"
  read_channel :: "nat \<Rightarrow> 'r \<times> 's \<Rightarrow> (rstr + bytes) \<times> 'r \<times> 's"
  display_path :: "path \<Rightarrow> rstr"
  spawn_thread :: "rstr + unit"

record target_spec =
  spec_chip :: rstr
  spec_probe :: "rstr option"
  spec_probe_host :: "rstr option"
  probe_rs_bin :: "path option"

definition open_session :: "('p, 's, 'r) probe_lib \<Rightarrow> target_spec \<Rightarrow> rstr + 's" where
  "open_session lib spec =
    and_then
      (case spec_probe spec of
         Some sel \<Rightarrow>
           and_then (map_err (\<lambda>e. lit ''bad probe selector '' @ [39] @ sel @ [39] @ lit '': '' @ e)
                       (parse_selector lib sel)) (\<lambda>selector.
           map_err (\<lambda>e. lit ''opening probe '' @ [39] @ sel @ [39] @ lit '': '' @ e)
             (open_selected lib selector))
       | None \<Rightarrow>
           let probes = list_all_probes lib in
           and_then (ensure (length probes = 1)
             (lit ''expected exactly one debug probe, found '' @ show_nat (length probes)
               @ lit '' (set target.probe in banc-rig.toml)'')) (\<lambda>_.
           map_err (\<lambda>e. lit ''opening probe: '' @ e) (open_listed lib (hd probes))))
      (\<lambda>probe. map_err (\<lambda>e. lit ''attaching to '' @ spec_chip spec @ lit '': '' @ e)
                 (attach lib probe (spec_chip spec)))"

definition reset_core :: "('p, 's, 'r) probe_lib \<Rightarrow> 's \<Rightarrow> (rstr + unit) \<times> 's" where
  "reset_core lib s =
    st_then (apfst (map_err (\<lambda>e. lit ''core(0): '' @ e)) (core0 lib s)) (\<lambda>_ s1.
    apfst (map_err (\<lambda>e. lit ''reset: '' @ e)) (core_reset lib s1))"

definition attach_rtt :: "('p, 's, 'r) probe_lib \<Rightarrow> 's \<Rightarrow> (rstr + 'r) \<times> 's" where
  "attach_rtt lib s =
    st_then (apfst (map_err (\<lambda>e. lit ''core(0): '' @ e)) (core0 lib s)) (\<lambda>_ s1.
    apfst (map_err (\<lambda>e. lit ''attaching RTT: '' @ e)) (attach_region lib s1))"

section \<open>From bytes to lines\<close>

definition MAX_LINE :: nat where
  "MAX_LINE = 64 * 1024"

definition is_lf :: "u8 \<Rightarrow> bool" where
  "is_lf b \<longleftrightarrow> b = 10"

text \<open>The complete lines with their line feeds, and the partial one behind them.\<close>

function drain_lines :: "bytes \<Rightarrow> bytes list \<times> bytes" where
  "drain_lines pending =
    (if \<not> list_ex is_lf pending then ([], pending)
     else let pos = length (takeWhile (Not \<circ> is_lf) pending);
              (ls, rest) = drain_lines (drop (Suc pos) pending)
          in (take (Suc pos) pending # ls, rest))"
  by pat_completeness auto
termination
  by (relation "measure length") (auto simp: list_ex_iff intro: diff_less length_pos_if_in_set)

declare drain_lines.simps [simp del]

text \<open>What a read of \<open>buf\<close> does to the pending bytes: the lines it completes, the oversized
  partial one last, and what stays pending.\<close>

definition absorb :: "bytes \<Rightarrow> bytes \<Rightarrow> bytes list \<times> bytes" where
  "absorb pending buf =
    (let (ls, rest) = drain_lines (pending @ buf)
     in if MAX_LINE < length rest then (ls @ [rest], []) else (ls, rest))"

definition line_text :: "bytes \<Rightarrow> rstr" where
  "line_text line = trim_end (from_utf8_lossy line)"

record 'r rtt_state =
  rtt_handle :: 'r
  capture_id :: nat
  pending_bytes :: bytes

text \<open>The result, the calls of the sink, and the state and session left behind.\<close>

definition poll_rtt ::
  "('p, 's, 'r) probe_lib \<Rightarrow> 'r rtt_state \<times> 's \<Rightarrow> (rstr + rstr list) \<times> 'r rtt_state \<times> 's" where
  "poll_rtt lib = (\<lambda>(st, s).
    case core0 lib s of
      (Inl e, s1) \<Rightarrow> (Inl (lit ''core(0): '' @ e), st, s1)
    | (Inr _, s1) \<Rightarrow>
        if \<not> has_up_channel lib (rtt_handle st) then (Inr [], st, s1)
        else (case read_channel lib 1024 (rtt_handle st, s1) of
                (Inl e, r, s2) \<Rightarrow> (Inl (lit ''rtt read: '' @ e), st\<lparr>rtt_handle := r\<rparr>, s2)
              | (Inr buf, r, s2) \<Rightarrow>
                  if buf = [] then (Inr [], st\<lparr>rtt_handle := r\<rparr>, s2)
                  else let (ls, rest) = absorb (pending_bytes st) buf
                       in (Inr (map line_text ls), st\<lparr>rtt_handle := r, pending_bytes := rest\<rparr>, s2)))"

section \<open>The worker thread\<close>

datatype oneshot = Empty | Sent | Sender_gone

datatype cmd = Flash path | Reset_target | Start_rtt nat

datatype answer = Done_with cmd "rstr + unit"

record ('s, 'r) probe_worker =
  session :: 's
  rtt :: "'r rtt_state option"
  stop_channel :: "nat \<Rightarrow> oneshot"
  health :: "nat \<Rightarrow> rstr option"
  sunk :: "(nat \<times> rstr) list"
  answers :: "answer list"
  returned :: bool

text \<open>\<open>CaptureHealth::fault\<close> on the slot: the first message wins.\<close>

definition health_fault :: "rstr \<Rightarrow> rstr option \<Rightarrow> rstr option" where
  "health_fault msg slot = (case slot of None \<Rightarrow> Some msg | Some m \<Rightarrow> Some m)"

definition answer_with :: "cmd \<Rightarrow> rstr + unit \<Rightarrow> ('s, 'r) probe_worker \<Rightarrow> ('s, 'r) probe_worker" where
  "answer_with c r w = w\<lparr>answers := answers w @ [Done_with c r]\<rparr>"

definition run_cmd ::
  "('p, 's, 'r) probe_lib \<Rightarrow> cmd \<Rightarrow> ('s, 'r) probe_worker \<Rightarrow> ('s, 'r) probe_worker" where
  "run_cmd lib c w =
    (case c of
       Flash path \<Rightarrow>
         let (r, s) = st_then
               (apfst (map_err (\<lambda>e. lit ''flashing '' @ display_path lib path @ lit '': '' @ e))
                 (download_file lib path (session w)))
               (\<lambda>_. reset_core lib)
         in answer_with c r (w\<lparr>rtt := None, session := s\<rparr>)
     | Reset_target \<Rightarrow> let (r, s) = reset_core lib (session w) in answer_with c r (w\<lparr>session := s\<rparr>)
     | Start_rtt i \<Rightarrow>
         (case attach_rtt lib (session w) of
            (Inr a, s) \<Rightarrow> answer_with c (Inr ()) (w\<lparr>session := s,
              rtt := Some \<lparr>rtt_handle = a, capture_id = i, pending_bytes = []\<rparr>\<rparr>)
          | (Inl e, s) \<Rightarrow> answer_with c (Inl e) (w\<lparr>session := s\<rparr>)))"

definition poll_capture ::
  "('p, 's, 'r) probe_lib \<Rightarrow> ('s, 'r) probe_worker \<Rightarrow> ('s, 'r) probe_worker" where
  "poll_capture lib w =
    (case rtt w of
       None \<Rightarrow> w
     | Some st \<Rightarrow>
         (case stop_channel w (capture_id st) of
            Empty \<Rightarrow>
              (case poll_rtt lib (st, session w) of
                 (Inl e, st', s) \<Rightarrow> w\<lparr>session := s, rtt := None, health := (health w)(capture_id st :=
                   health_fault (lit ''rtt read error: '' @ e) (health w (capture_id st)))\<rparr>
               | (Inr ls, st', s) \<Rightarrow> w\<lparr>session := s, rtt := Some st',
                   sunk := sunk w @ map (Pair (capture_id st)) ls\<rparr>)
          | _ \<Rightarrow> w\<lparr>rtt := None\<rparr>))"

text \<open>
  One turn of the loop: what receiving from the command channel gave, then a poll of the
  capture. Without a capture the thread blocks, so there is nothing to time out.
\<close>

datatype turn = Got cmd | Timed_out | Hung_up

definition worker_step ::
  "('p, 's, 'r) probe_lib \<Rightarrow> turn \<Rightarrow> ('s, 'r) probe_worker \<Rightarrow> ('s, 'r) probe_worker" where
  "worker_step lib t w =
    (if returned w then w
     else case t of
       Got c \<Rightarrow> poll_capture lib (run_cmd lib c w)
     | Timed_out \<Rightarrow> if rtt w = None then w else poll_capture lib w
     | Hung_up \<Rightarrow> w\<lparr>rtt := None, returned := True\<rparr>)"

section \<open>The handle on the worker\<close>

record rtt_capture =
  has_stop :: bool
  capture_no :: nat

definition health_error :: "rstr option \<Rightarrow> rstr option" where
  "health_error slot = slot"

definition capture_error :: "('s, 'r) probe_worker \<Rightarrow> rtt_capture \<Rightarrow> rstr option" where
  "capture_error w c = health_error (health w (capture_no c))"

definition capture_drop :: "rtt_capture \<Rightarrow> ('s, 'r) probe_worker \<Rightarrow> ('s, 'r) probe_worker" where
  "capture_drop c w =
    (if has_stop c \<and> stop_channel w (capture_no c) = Empty
     then w\<lparr>stop_channel := (stop_channel w)(capture_no c := Sent)\<rparr> else w)"

definition worker_begin :: "('p, 's, 'r) probe_lib \<Rightarrow> target_spec \<Rightarrow> rstr + ('s, 'r) probe_worker" where
  "worker_begin lib spec =
    and_then (open_session lib spec) (\<lambda>s. Inr \<lparr>session = s, rtt = None, stop_channel = (\<lambda>_. Empty),
      health = (\<lambda>_. None), sunk = [], answers = [], returned = False\<rparr>)"

definition local_open :: "('p, 's, 'r) probe_lib \<Rightarrow> target_spec \<Rightarrow> rstr + ('s, 'r) probe_worker" where
  "local_open lib spec = and_then (spawn_thread lib) (\<lambda>_. worker_begin lib spec)"

text \<open>Sending a command and awaiting its answer, which is the last one logged.\<close>

definition worker_gone :: rstr where
  "worker_gone = lit ''probe worker thread gone''"

definition local_call ::
  "('p, 's, 'r) probe_lib \<Rightarrow> cmd \<Rightarrow> ('s, 'r) probe_worker \<Rightarrow> (rstr + unit) \<times> ('s, 'r) probe_worker" where
  "local_call lib c w =
    (if returned w then (Inl worker_gone, w)
     else let w' = worker_step lib (Got c) w in (case last (answers w') of Done_with _ r \<Rightarrow> r, w'))"

definition local_flash ::
  "('p, 's, 'r) probe_lib \<Rightarrow> path \<Rightarrow> ('s, 'r) probe_worker \<Rightarrow> (rstr + unit) \<times> ('s, 'r) probe_worker" where
  "local_flash lib elf = local_call lib (Flash elf)"

definition local_reset ::
  "('p, 's, 'r) probe_lib \<Rightarrow> ('s, 'r) probe_worker \<Rightarrow> (rstr + unit) \<times> ('s, 'r) probe_worker" where
  "local_reset lib = local_call lib Reset_target"

text \<open>\<open>i\<close> numbers the new capture. When the start fails its stop sender goes away with it.\<close>

definition local_start_rtt ::
  "('p, 's, 'r) probe_lib \<Rightarrow> nat \<Rightarrow> ('s, 'r) probe_worker \<Rightarrow> (rstr + rtt_capture) \<times> ('s, 'r) probe_worker"
  where
  "local_start_rtt lib i w =
    (case local_call lib (Start_rtt i)
            (w\<lparr>stop_channel := (stop_channel w)(i := Empty), health := (health w)(i := None)\<rparr>) of
       (Inr _, w') \<Rightarrow> (Inr \<lparr>has_stop = True, capture_no = i\<rparr>, w')
     | (Inl e, w') \<Rightarrow> (Inl e, w'\<lparr>stop_channel := (stop_channel w')(i := Sender_gone)\<rparr>))"

section \<open>The remote transport\<close>

record proc_output =
  succeeded :: bool
  status_text :: rstr
  out_bytes :: bytes
  err_bytes :: bytes

record 'w tool =
  tool_output :: "path \<Rightarrow> rstr list \<Rightarrow> 'w \<Rightarrow> (rstr + proc_output) \<times> 'w"
  path_arg :: "path \<Rightarrow> rstr"
  tool_path :: "path \<Rightarrow> rstr"

record remote_target =
  remote_bin :: path
  remote_host :: rstr
  remote_chip :: rstr
  remote_probe :: "rstr option"

definition new_remote :: "target_spec \<Rightarrow> rstr \<Rightarrow> remote_target" where
  "new_remote spec host =
    \<lparr>remote_bin = (case probe_rs_bin spec of Some b \<Rightarrow> b | None \<Rightarrow> path_of (lit ''probe-rs'')),
     remote_host = host, remote_chip = spec_chip spec, remote_probe = spec_probe spec\<rparr>"

definition remote_command :: "remote_target \<Rightarrow> rstr \<Rightarrow> rstr list" where
  "remote_command t sub =
    [sub, lit ''--host'', remote_host t, lit ''--chip'', remote_chip t]
    @ (case remote_probe t of Some p \<Rightarrow> [lit ''--probe'', p] | None \<Rightarrow> [])"

definition remote_run ::
  "'w tool \<Rightarrow> remote_target \<Rightarrow> rstr list \<Rightarrow> rstr \<Rightarrow> 'w \<Rightarrow> (rstr + unit) \<times> 'w" where
  "remote_run tool t args what w =
    st_then (apfst (map_err (\<lambda>e. lit ''spawning '' @ tool_path tool (remote_bin t) @ lit '' for '' @ what
        @ lit '': '' @ e)) (tool_output tool (remote_bin t) args w)) (\<lambda>p w1.
    (ensure (succeeded p) (what @ lit '' failed ('' @ status_text p @ lit ''):'' @ [10]
        @ from_utf8_lossy (out_bytes p) @ [10] @ from_utf8_lossy (err_bytes p)), w1))"

definition remote_reset :: "'w tool \<Rightarrow> remote_target \<Rightarrow> 'w \<Rightarrow> (rstr + unit) \<times> 'w" where
  "remote_reset tool t w = remote_run tool t (remote_command t (lit ''reset'')) (lit ''remote reset'') w"

definition remote_flash :: "'w tool \<Rightarrow> remote_target \<Rightarrow> path \<Rightarrow> 'w \<Rightarrow> (rstr + unit) \<times> 'w" where
  "remote_flash tool t elf w =
    st_then (remote_run tool t (remote_command t (lit ''download'') @ [path_arg tool elf])
      (lit ''remote flash'') w) (\<lambda>_. remote_reset tool t)"

section \<open>One target, two transports\<close>

datatype ('s, 'r) dut = Local "('s, 'r) probe_worker" | Remote remote_target

definition target_open :: "('p, 's, 'r) probe_lib \<Rightarrow> target_spec \<Rightarrow> rstr + ('s, 'r) dut" where
  "target_open lib spec =
    (case spec_probe_host spec of
       None \<Rightarrow> and_then (local_open lib spec) (\<lambda>w. Inr (Local w))
     | Some host \<Rightarrow> Inr (Remote (new_remote spec host)))"

fun target_flash ::
  "('p, 's, 'r) probe_lib \<Rightarrow> 'w tool \<Rightarrow> path \<Rightarrow> ('s, 'r) dut \<Rightarrow> 'w \<Rightarrow> (rstr + unit) \<times> ('s, 'r) dut \<times> 'w" where
  "target_flash lib tool elf (Local p) w = (let (r, p') = local_flash lib elf p in (r, Local p', w))"
| "target_flash lib tool elf (Remote t) w = (let (r, w') = remote_flash tool t elf w in (r, Remote t, w'))"

fun target_reset ::
  "('p, 's, 'r) probe_lib \<Rightarrow> 'w tool \<Rightarrow> ('s, 'r) dut \<Rightarrow> 'w \<Rightarrow> (rstr + unit) \<times> ('s, 'r) dut \<times> 'w" where
  "target_reset lib tool (Local p) w = (let (r, p') = local_reset lib p in (r, Local p', w))"
| "target_reset lib tool (Remote t) w = (let (r, w') = remote_reset tool t w in (r, Remote t, w'))"

fun target_start_rtt ::
  "('p, 's, 'r) probe_lib \<Rightarrow> nat \<Rightarrow> ('s, 'r) dut \<Rightarrow> (rstr + rtt_capture) \<times> ('s, 'r) dut" where
  "target_start_rtt lib i (Local p) = (let (r, p') = local_start_rtt lib i p in (r, Local p'))"
| "target_start_rtt lib i (Remote t) =
     (Inl (lit ''RTT capture over the remote probe-rs CLI is not wired yet (Phase 2)''), Remote t)"

section \<open>Lines\<close>

lemma drain_lines_none: "\<not> list_ex is_lf p \<Longrightarrow> drain_lines p = ([], p)"
  by (simp add: drain_lines.simps)

lemma drain_lines_line:
  "\<not> list_ex is_lf a \<Longrightarrow> drain_lines (a @ 10 # b) = apfst ((#) (a @ [10])) (drain_lines b)"
proof -
  assume "\<not> list_ex is_lf a"
  then have "takeWhile (Not \<circ> is_lf) (a @ 10 # b) = a"
    by (subst takeWhile_append2) (auto simp: list_ex_iff is_lf_def)
  then show ?thesis
    by (subst drain_lines.simps) (simp add: is_lf_def split: prod.splits)
qed

text \<open>Induction over the lines of a text.\<close>

lemma lines_induct [case_names partial line]:
  assumes "\<And>p. \<not> list_ex is_lf p \<Longrightarrow> P p"
    and "\<And>a b. \<not> list_ex is_lf a \<Longrightarrow> P b \<Longrightarrow> P (a @ 10 # b)"
  shows "P p"
proof (induction p rule: length_induct)
  case (1 p)
  show ?case
  proof (cases "list_ex is_lf p")
    case True
    then obtain a x b where "p = a @ x # b" "is_lf x" "\<forall>y \<in> set a. \<not> is_lf y"
      using split_list_first_prop [of p is_lf] by (auto simp: list_ex_iff)
    with 1 assms(2) [of a b] show ?thesis by (auto simp: list_ex_iff is_lf_def)
  qed (rule assms(1))
qed

lemma drain_lines_append:
  "drain_lines (p @ q) =
    apfst ((@) (fst (drain_lines p))) (drain_lines (snd (drain_lines p) @ q))"
  by (induction p rule: lines_induct) (simp_all add: drain_lines_none drain_lines_line prod_eq_iff)

lemma drain_lines_keeps_bytes: "drain_lines p = (ls, rest) \<Longrightarrow> concat ls @ rest = p"
  by (induction p arbitrary: ls rest rule: lines_induct)
    (auto simp: drain_lines_none drain_lines_line apfst_def map_prod_def split: prod.splits)

definition whole_line :: "bytes \<Rightarrow> bool" where
  "whole_line l \<longleftrightarrow> (\<exists>a. l = a @ [10] \<and> \<not> list_ex is_lf a)"

lemma drain_lines_shape:
  "drain_lines p = (ls, rest) \<Longrightarrow> list_all whole_line ls \<and> \<not> list_ex is_lf rest"
  by (induction p arbitrary: ls rest rule: lines_induct)
    (auto simp: drain_lines_none drain_lines_line apfst_def map_prod_def whole_line_def split: prod.splits)

lemma absorb_spec:
  assumes "absorb p buf = (ls, rest)"
  shows "concat ls @ rest = p @ buf" and "length rest \<le> MAX_LINE"
    and "\<forall>l \<in> set ls. whole_line l \<or> MAX_LINE < length l \<and> \<not> list_ex is_lf l"
  using assms drain_lines_keeps_bytes [of "p @ buf"] drain_lines_shape [of "p @ buf"]
  by (auto simp: absorb_def list_all_iff split: prod.splits if_splits)

text \<open>Reads one after another: the lines and the pending bytes.\<close>

fun absorb_all :: "bytes \<Rightarrow> bytes list \<Rightarrow> bytes list \<times> bytes" where
  "absorb_all p [] = ([], p)"
| "absorb_all p (buf # bufs) =
     (let (ls, rest) = absorb p buf; (ls', rest') = absorb_all rest bufs in (ls @ ls', rest'))"

lemma absorb_all_spec:
  "absorb_all p bufs = (ls, rest) \<Longrightarrow> length p \<le> MAX_LINE \<Longrightarrow>
     concat ls @ rest = p @ concat bufs \<and> length rest \<le> MAX_LINE
     \<and> (\<forall>l \<in> set ls. whole_line l \<or> MAX_LINE < length l \<and> \<not> list_ex is_lf l)"
proof (induction bufs arbitrary: p ls rest)
  case (Cons buf bufs)
  obtain l1 r1 where a: "absorb p buf = (l1, r1)" by (cases "absorb p buf")
  obtain l2 r2 where b: "absorb_all r1 bufs = (l2, r2)" by (cases "absorb_all r1 bufs")
  have ls: "ls = l1 @ l2" "rest = r2" using Cons.prems(1) a b by simp_all
  show ?case
    using absorb_spec [OF a] Cons.IH [OF b] unfolding ls by auto
qed simp

text \<open>When no line is longer than the cap, the chunks in which the bytes arrived do not matter.\<close>

definition lines_fit :: "bytes \<Rightarrow> bool" where
  "lines_fit p \<longleftrightarrow> (case drain_lines p of (ls, rest) \<Rightarrow>
     list_all (\<lambda>l. length l \<le> Suc MAX_LINE) ls \<and> length rest \<le> MAX_LINE)"

lemma lines_fit_split:
  assumes "lines_fit (p @ q)"
  shows "length (snd (drain_lines p)) \<le> MAX_LINE" and "lines_fit (snd (drain_lines p) @ q)"
proof -
  let ?r = "snd (drain_lines p)"
  show fit: "lines_fit (?r @ q)"
    using assms by (simp add: lines_fit_def drain_lines_append [of p q] case_prod_unfold)
  have r: "\<not> list_ex is_lf ?r"
    using drain_lines_shape [of p] by (cases "drain_lines p") auto
  show "length ?r \<le> MAX_LINE"
  proof (cases "list_ex is_lf q")
    case True
    then obtain a x b where "q = a @ x # b" "is_lf x" "\<forall>y \<in> set a. \<not> is_lf y"
      using split_list_first_prop [of q is_lf] by (auto simp: list_ex_iff)
    with r have "drain_lines (?r @ q) = apfst ((#) ((?r @ a) @ [10])) (drain_lines b)"
      using drain_lines_line [of "?r @ a" b] by (auto simp: list_ex_iff is_lf_def)
    with fit show ?thesis by (simp add: lines_fit_def case_prod_unfold)
  next
    case False
    with r have "drain_lines (?r @ q) = ([], ?r @ q)" by (simp add: drain_lines_none)
    with fit show ?thesis by (simp add: lines_fit_def)
  qed
qed

lemma absorb_all_fit:
  assumes "lines_fit (p @ concat bufs)" and "\<not> list_ex is_lf p"
  shows "absorb_all p bufs = drain_lines (p @ concat bufs)"
  using assms
proof (induction bufs arbitrary: p)
  case Nil
  then show ?case by (simp add: drain_lines_none)
next
  case (Cons buf bufs)
  let ?d = "drain_lines (p @ buf)"
  have fit: "length (snd ?d) \<le> MAX_LINE" "lines_fit (snd ?d @ concat bufs)"
    using lines_fit_split [of "p @ buf" "concat bufs"] Cons.prems(1) by simp_all
  have "\<not> list_ex is_lf (snd ?d)"
    using drain_lines_shape [of "p @ buf"] by (cases ?d) auto
  from Cons.IH [OF fit(2) this] fit(1) show ?case
    by (simp add: absorb_def case_prod_unfold Let_def drain_lines_append [of "p @ buf" "concat bufs", simplified]
        prod_eq_iff)
qed

section \<open>Captures\<close>

fun poll_times ::
  "('p, 's, 'r) probe_lib \<Rightarrow> nat \<Rightarrow> 'r rtt_state \<times> 's \<Rightarrow> (rstr + rstr list) \<times> 'r rtt_state \<times> 's" where
  "poll_times lib 0 x = (Inr [], x)"
| "poll_times lib (Suc n) x =
     st_then (poll_rtt lib x) (\<lambda>ls y. st_then (poll_times lib n y) (\<lambda>ls' z. (Inr (ls @ ls'), z)))"

text \<open>What the device sent: the results of the reads that the polls make.\<close>

fun channel_reads :: "('p, 's, 'r) probe_lib \<Rightarrow> nat \<Rightarrow> 'r \<times> 's \<Rightarrow> bytes list" where
  "channel_reads lib 0 x = []"
| "channel_reads lib (Suc n) (r, s) =
     (let s1 = snd (core0 lib s) in
      if has_up_channel lib r then
        (case read_channel lib 1024 (r, s1) of
           (Inl _, y) \<Rightarrow> [] | (Inr buf, y) \<Rightarrow> buf # channel_reads lib n y)
      else channel_reads lib n (r, s1))"

lemma absorb_nothing:
  "length p \<le> MAX_LINE \<Longrightarrow> \<not> list_ex is_lf p \<Longrightarrow> absorb p [] = ([], p)"
  by (simp add: absorb_def drain_lines_none)

lemma absorb_partial: "absorb p buf = (ls, rest) \<Longrightarrow> \<not> list_ex is_lf rest"
  using drain_lines_shape [of "p @ buf"] by (auto simp: absorb_def split: prod.splits if_splits)

lemma poll_times_absorb:
  assumes "poll_times lib n (st, s) = (Inr texts, st', s')"
    and "length (pending_bytes st) \<le> MAX_LINE" and "\<not> list_ex is_lf (pending_bytes st)"
  shows "\<exists>ls. texts = map line_text ls
    \<and> absorb_all (pending_bytes st) (channel_reads lib n (rtt_handle st, s)) = (ls, pending_bytes st')"
  using assms
proof (induction n arbitrary: st s texts)
  case (Suc n)
  obtain t1 st1 s1 t2 where p: "poll_rtt lib (st, s) = (Inr t1, st1, s1)"
    and ps: "poll_times lib n (st1, s1) = (Inr t2, st', s')" and t: "texts = t1 @ t2"
    using Suc.prems(1) by (auto simp: result_simps)
  show ?case
  proof (cases "has_up_channel lib (rtt_handle st)")
    case False
    then have "t1 = []" "st1 = st" "snd (core0 lib s) = s1"
      using p by (auto simp: poll_rtt_def split: prod.splits sum.splits)
    with False Suc.IH [OF ps] Suc.prems(2,3) t show ?thesis by simp
  next
    case True
    then obtain buf r ls where r: "read_channel lib 1024 (rtt_handle st, snd (core0 lib s)) = (Inr buf, r, s1)"
      and a: "absorb (pending_bytes st) buf = (ls, pending_bytes st1)" "t1 = map line_text ls" "rtt_handle st1 = r"
      using p absorb_nothing [OF Suc.prems(2,3)]
      by (auto simp: poll_rtt_def split: prod.splits sum.splits if_splits)
    from Suc.IH [OF ps absorb_spec(2) [OF a(1)] absorb_partial [OF a(1)]] a(3) t
    obtain ls2 where "t2 = map line_text ls2"
      "absorb_all (pending_bytes st1) (channel_reads lib n (r, s1)) = (ls2, pending_bytes st')" by auto
    with True r a(1,2) t show ?thesis by simp
  qed
qed simp

datatype probe_event = Turn turn | Handle_dropped rtt_capture | Start_abandoned nat

fun probe_next ::
  "('p, 's, 'r) probe_lib \<Rightarrow> probe_event \<Rightarrow> ('s, 'r) probe_worker \<Rightarrow> ('s, 'r) probe_worker" where
  "probe_next lib (Turn t) w = worker_step lib t w"
| "probe_next lib (Handle_dropped c) w = capture_drop c w"
| "probe_next lib (Start_abandoned i) w = w\<lparr>stop_channel := (stop_channel w)(i := Sender_gone)\<rparr>"

text \<open>What happens while the owner keeps the capture and asks for nothing else but resets.\<close>

fun leaves_alone :: "nat \<Rightarrow> probe_event \<Rightarrow> bool" where
  "leaves_alone i (Turn t) \<longleftrightarrow> t = Timed_out \<or> t = Got Reset_target"
| "leaves_alone i (Handle_dropped c) \<longleftrightarrow> capture_no c \<noteq> i"
| "leaves_alone i (Start_abandoned j) \<longleftrightarrow> j \<noteq> i"

definition capturing :: "nat \<Rightarrow> ('s, 'r) probe_worker \<Rightarrow> bool" where
  "capturing i w \<longleftrightarrow> (\<exists>st. rtt w = Some st \<and> capture_id st = i)"

definition lost :: "nat \<Rightarrow> ('s, 'r) probe_worker \<Rightarrow> bool" where
  "lost i w \<longleftrightarrow> rtt w = None \<and> (\<exists>e. health w i = Some (lit ''rtt read error: '' @ e))"

definition watched :: "nat \<Rightarrow> ('s, 'r) probe_worker \<Rightarrow> bool" where
  "watched i w \<longleftrightarrow> \<not> returned w \<and> stop_channel w i = Empty
     \<and> (capturing i w \<and> health w i = None \<or> lost i w)"

lemma poll_rtt_id: "poll_rtt lib (st, s) = (r, st', s') \<Longrightarrow> capture_id st' = capture_id st"
  by (auto simp: poll_rtt_def Let_def split: prod.splits sum.splits if_splits)

lemma poll_capture_simps:
  "rtt w = None \<Longrightarrow> poll_capture lib w = w"
  "rtt w = Some st \<Longrightarrow> stop_channel w (capture_id st) \<noteq> Empty \<Longrightarrow> poll_capture lib w = w\<lparr>rtt := None\<rparr>"
  "rtt w = Some st \<Longrightarrow> stop_channel w (capture_id st) = Empty \<Longrightarrow>
     poll_rtt lib (st, session w) = (Inl e, st', s) \<Longrightarrow>
     poll_capture lib w = w\<lparr>session := s, rtt := None, health := (health w)(capture_id st :=
       health_fault (lit ''rtt read error: '' @ e) (health w (capture_id st)))\<rparr>"
  "rtt w = Some st \<Longrightarrow> stop_channel w (capture_id st) = Empty \<Longrightarrow>
     poll_rtt lib (st, session w) = (Inr ls, st', s) \<Longrightarrow>
     poll_capture lib w = w\<lparr>session := s, rtt := Some st', sunk := sunk w @ map (Pair (capture_id st)) ls\<rparr>"
  by (simp_all add: poll_capture_def split: oneshot.split)

lemma watched_poll:
  assumes "watched i w"
  shows "watched i (poll_capture lib w)"
proof (cases "rtt w")
  case (Some st)
  with assms have i: "capture_id st = i" "stop_channel w i = Empty" "health w i = None"
    by (auto simp: watched_def capturing_def lost_def)
  obtain r st' s where p: "poll_rtt lib (st, session w) = (r, st', s)" by (rule prod_cases3)
  show ?thesis
  proof (cases r)
    case (Inl e)
    with assms Some i p show ?thesis
      by (simp add: poll_capture_simps(3) watched_def lost_def health_fault_def)
  next
    case (Inr ls)
    with assms Some i p poll_rtt_id [OF p] show ?thesis
      by (simp add: poll_capture_simps(4) watched_def capturing_def)
  qed
qed (use assms in \<open>simp add: poll_capture_simps\<close>)

lemma watched_health:
  "watched i w \<Longrightarrow> (capturing i w \<longleftrightarrow> health w i = None) \<and> (health w i \<noteq> None \<longrightarrow> rtt w = None)"
  by (auto simp: watched_def lost_def capturing_def)

lemma watched_reset: "watched i w \<Longrightarrow> watched i (run_cmd lib Reset_target w)"
  by (auto simp: watched_def capturing_def lost_def run_cmd_def answer_with_def split: prod.splits)

lemma watched_event: "watched i w \<Longrightarrow> leaves_alone i e \<Longrightarrow> watched i (probe_next lib e w)"
proof (cases e)
  case (Turn t)
  moreover assume "watched i w" "leaves_alone i e"
  ultimately show ?thesis
    using watched_poll [of i w lib] watched_poll [OF watched_reset, of i w lib lib]
    by (auto simp: worker_step_def watched_def)
qed (auto simp: watched_def capturing_def lost_def capture_drop_def)

lemma watched_events: "watched i w \<Longrightarrow> list_all (leaves_alone i) es \<Longrightarrow> watched i (fold (probe_next lib) es w)"
  by (induction es arbitrary: w) (simp_all add: watched_event)

lemma health_poll: "health w i = Some m \<Longrightarrow> health (poll_capture lib w) i = Some m"
  by (auto simp: poll_capture_def health_fault_def split: option.splits sum.splits prod.splits oneshot.splits)

lemma health_run_cmd [simp]: "health (run_cmd lib c w) = health w"
  by (simp add: run_cmd_def answer_with_def split: cmd.split sum.split prod.split)

lemma health_latched: "health w i = Some m \<Longrightarrow> health (probe_next lib e w) i = Some m"
  by (cases e) (auto simp: worker_step_def capture_drop_def health_poll split: turn.split)

lemma health_latched_events:
  "health w i = Some m \<Longrightarrow> health (fold (probe_next lib) es w) i = Some m"
  by (induction es arbitrary: w) (simp_all add: health_latched)

text \<open>
  The read that fails in an event, as the debug library reports it: a turn of the loop polls
  the capture that is attached once the turn's command has been carried out. \<open>first_fault\<close> is
  the first such error along a run.
\<close>

definition polled_state ::
  "('p, 's, 'r) probe_lib \<Rightarrow> probe_event \<Rightarrow> ('s, 'r) probe_worker \<Rightarrow> ('r rtt_state \<times> 's) option" where
  "polled_state lib e w =
    (case e of
       Turn (Got c) \<Rightarrow> (let v = run_cmd lib c w in map_option (\<lambda>st. (st, session v)) (rtt v))
     | Turn Timed_out \<Rightarrow> map_option (\<lambda>st. (st, session w)) (rtt w)
     | _ \<Rightarrow> None)"

definition read_fault ::
  "('p, 's, 'r) probe_lib \<Rightarrow> probe_event \<Rightarrow> ('s, 'r) probe_worker \<Rightarrow> rstr option" where
  "read_fault lib e w =
    (case polled_state lib e w of
       None \<Rightarrow> None
     | Some x \<Rightarrow> (case fst (poll_rtt lib x) of Inl m \<Rightarrow> Some m | Inr _ \<Rightarrow> None))"

fun first_fault ::
  "('p, 's, 'r) probe_lib \<Rightarrow> probe_event list \<Rightarrow> ('s, 'r) probe_worker \<Rightarrow> rstr option" where
  "first_fault lib [] w = None"
| "first_fault lib (e # es) w =
     (case read_fault lib e w of Some m \<Rightarrow> Some m | None \<Rightarrow> first_fault lib es (probe_next lib e w))"

lemma poll_fault:
  assumes "rtt w = Some st" and "capture_id st = i" and "stop_channel w i = Empty" and "health w i = None"
  shows "case fst (poll_rtt lib (st, session w)) of
      Inl m \<Rightarrow> health (poll_capture lib w) i = Some (lit ''rtt read error: '' @ m)
    | Inr _ \<Rightarrow> capturing i (poll_capture lib w) \<and> health (poll_capture lib w) i = None"
proof -
  obtain r st' s where p: "poll_rtt lib (st, session w) = (r, st', s)" by (rule prod_cases3)
  show ?thesis
  proof (cases r)
    case (Inl m)
    with assms p show ?thesis by (simp add: poll_capture_simps(3) health_fault_def)
  next
    case (Inr ls)
    with assms p poll_rtt_id [OF p] show ?thesis by (simp add: poll_capture_simps(4) capturing_def)
  qed
qed

lemma event_fault:
  assumes w: "watched i w" and c: "capturing i w" and e: "leaves_alone i e"
  shows "case read_fault lib e w of
      Some m \<Rightarrow> health (probe_next lib e w) i = Some (lit ''rtt read error: '' @ m)
    | None \<Rightarrow> capturing i (probe_next lib e w) \<and> health (probe_next lib e w) i = None"
proof -
  have turn: "case read_fault lib (Turn t) w of
      Some m \<Rightarrow> health (poll_capture lib v) i = Some (lit ''rtt read error: '' @ m)
    | None \<Rightarrow> capturing i (poll_capture lib v) \<and> health (poll_capture lib v) i = None"
    if v: "watched i v" "capturing i v" "polled_state lib (Turn t) w = map_option (\<lambda>st. (st, session v)) (rtt v)"
    for t v
  proof -
    obtain st where st: "rtt v = Some st" "capture_id st = i" using v(2) by (auto simp: capturing_def)
    moreover have "stop_channel v i = Empty" "health v i = None"
      using v(1) st by (auto simp: watched_def lost_def)
    ultimately show ?thesis
      using poll_fault [of v st i lib] v(3) by (auto simp: read_fault_def split: sum.splits)
  qed
  show ?thesis
  proof (cases e)
    case (Turn t)
    with e consider "t = Timed_out" | "t = Got Reset_target" by auto
    then show ?thesis
    proof cases
      case 1
      have eq: "probe_next lib e w = poll_capture lib w"
        using Turn 1 w c by (auto simp: worker_step_def watched_def capturing_def)
      show ?thesis
        using turn [OF w c, of Timed_out] unfolding eq by (simp add: Turn 1 polled_state_def)
    next
      case 2
      let ?v = "run_cmd lib Reset_target w"
      have "capturing i ?v"
        using c by (auto simp: capturing_def run_cmd_def answer_with_def split: prod.splits)
      note v = turn [OF watched_reset [OF w] this, of "Got Reset_target"]
      have eq: "probe_next lib e w = poll_capture lib ?v"
        using Turn 2 w by (simp add: worker_step_def watched_def)
      show ?thesis
        using v unfolding eq by (simp add: Turn 2 polled_state_def Let_def)
    qed
  qed (use w c in \<open>auto simp: read_fault_def polled_state_def watched_def capturing_def lost_def capture_drop_def\<close>)
qed

lemma run_fault:
  assumes "watched i w" and "capturing i w" and "list_all (leaves_alone i) es"
  shows "health (fold (probe_next lib) es w) i
      = map_option (\<lambda>m. lit ''rtt read error: '' @ m) (first_fault lib es w)"
  using assms
proof (induction es arbitrary: w)
  case Nil
  then show ?case by (auto simp: watched_def lost_def capturing_def)
next
  case (Cons e es)
  have e: "leaves_alone i e" and es: "list_all (leaves_alone i) es" using Cons.prems(3) by simp_all
  note ev = event_fault [OF Cons.prems(1,2) e, of lib]
  show ?case
  proof (cases "read_fault lib e w")
    case None
    with ev Cons.IH [OF watched_event [OF Cons.prems(1) e, of lib] _ es] show ?thesis by simp
  next
    case (Some m)
    with ev show ?thesis by (simp add: health_latched_events)
  qed
qed

section \<open>Properties\<close>

text \<open>
  C37: a capture loses no byte of the device's log and needs bounded memory. Whatever the
  sizes of the reads, the lines handed to the sink, followed by what is pending, are the
  bytes that were read; each is one complete line, or a partial one longer than the cap;
  at most \<open>MAX_LINE\<close> bytes stay pending; and unless the device writes a longer line, how its
  output was cut into reads makes no difference.
\<close>

theorem capture_loses_no_byte:
  assumes "poll_times lib n (\<lparr>rtt_handle = r, capture_id = i, pending_bytes = []\<rparr>, s) = (Inr texts, st', s')"
  shows "\<exists>ls. texts = map line_text ls
    \<and> concat ls @ pending_bytes st' = concat (channel_reads lib n (r, s))
    \<and> length (pending_bytes st') \<le> MAX_LINE
    \<and> (\<forall>l \<in> set ls. whole_line l \<or> MAX_LINE < length l \<and> \<not> list_ex is_lf l)
    \<and> (lines_fit (concat (channel_reads lib n (r, s))) \<longrightarrow>
         drain_lines (concat (channel_reads lib n (r, s))) = (ls, pending_bytes st'))"
proof -
  obtain ls where "texts = map line_text ls"
    and a: "absorb_all [] (channel_reads lib n (r, s)) = (ls, pending_bytes st')"
    using poll_times_absorb [OF assms] by auto
  then show ?thesis
    using absorb_all_spec [OF a] absorb_all_fit [of "[]" "channel_reads lib n (r, s)"] by auto
qed

text \<open>A library whose probe plays a script of reads.\<close>

definition scripted_lib :: "(unit, (rstr + bytes) list, unit) probe_lib" where
  "scripted_lib = \<lparr>parse_selector = Inr, open_selected = (\<lambda>_. Inr ()), list_all_probes = [()],
     open_listed = Inr, attach = (\<lambda>_ _. Inr []), core0 = Pair (Inr ()), core_reset = Pair (Inr ()),
     attach_region = Pair (Inr ()), download_file = (\<lambda>_. Pair (Inr ())), has_up_channel = (\<lambda>_. True),
     read_channel = (\<lambda>n (u, s). case s of [] \<Rightarrow> (Inr [], u, []) | x # xs \<Rightarrow> (map_sum id (take n) x, u, xs)),
     display_path = (\<lambda>_. []), spawn_thread = Inr ()\<rparr>"

theorem capture_loses_no_byte_witness:
  "fst (poll_times scripted_lib 3 (\<lparr>rtt_handle = (), capture_id = 4, pending_bytes = []\<rparr>,
      [Inr [104, 105], Inr [], Inr [33, 13, 10, 111]])) = Inr [lit ''hi!'']
   \<and> concat (channel_reads scripted_lib 3 ((), [Inr [104, 105], Inr [], Inr [33, 13, 10, 111]]))
       = [104, 105, 33, 13, 10, 111]"
proof -
  let ?s = "[Inr [104, 105], Inr [], Inr [33, 13, 10, 111]] :: (rstr + bytes) list"
  have d: "drain_lines [104, 105, 33, 13, 10, 111] = ([[104, 105, 33, 13, 10]], [111])"
    using drain_lines_line [of "[104, 105, 33, 13]" "[111]"] by (simp add: drain_lines_none is_lf_def)
  have c: "concat (channel_reads scripted_lib 3 ((), ?s)) = [104, 105, 33, 13, 10, 111]"
    by (simp add: scripted_lib_def numeral_3_eq_3)
  have fit: "lines_fit [104, 105, 33, 13, 10, 111]" by (simp add: lines_fit_def d MAX_LINE_def)
  obtain res st' s' where p: "poll_times scripted_lib 3
      (\<lparr>rtt_handle = (), capture_id = 4, pending_bytes = []\<rparr>, ?s) = (res, st', s')"
    by (rule prod_cases3)
  have "is_ok res"
    using p by (auto simp: scripted_lib_def numeral_3_eq_3 poll_rtt_def split: prod.splits)
  then obtain texts where t: "res = Inr texts" by (auto simp: is_ok_iff)
  have "\<exists>ls. texts = map line_text ls \<and> drain_lines [104, 105, 33, 13, 10, 111] = (ls, pending_bytes st')"
    using capture_loses_no_byte [OF p [unfolded t], unfolded c] fit by blast
  then have "texts = map line_text [[104, 105, 33, 13, 10]]" by (auto simp: d)
  moreover have "line_text [104, 105, 33, 13, 10] = lit ''hi!''"
    by (simp add: line_text_def lossy_next_def seq_len_def trim_end_def is_whitespace_def lit_def)
  ultimately show ?thesis using p t c by simp
qed

lemma flash_ends_capture:
  assumes "\<not> returned w"
  shows "rtt (snd (local_flash lib path w)) = None" "health (snd (local_flash lib path w)) = health w"
    "stop_channel (snd (local_flash lib path w)) = stop_channel w"
  using assms by (simp_all add: local_flash_def local_call_def worker_step_def run_cmd_def
      answer_with_def poll_capture_def Let_def split: prod.split)

lemma capturing_poll: "capturing i (poll_capture lib w) \<Longrightarrow> capturing i w"
  by (auto simp: capturing_def poll_capture_def split: option.splits sum.splits prod.splits oneshot.splits
      dest: poll_rtt_id)

lemma answers_poll [simp]: "answers (poll_capture lib w) = answers w"
  by (simp add: poll_capture_def split: option.split sum.split prod.split oneshot.split)

lemma start_ends_capture:
  assumes "local_start_rtt lib j w = (Inr c, w')" and "\<not> returned w" and "i \<noteq> j"
  shows "\<not> capturing i w'" and "health w' i = health w i" and "stop_channel w' i = stop_channel w i"
proof -
  let ?w = "w\<lparr>stop_channel := (stop_channel w)(j := Empty), health := (health w)(j := None)\<rparr>"
  let ?v = "run_cmd lib (Start_rtt j) ?w"
  have w': "w' = poll_capture lib ?v"
    using assms(1,2) by (auto simp: local_start_rtt_def local_call_def worker_step_def Let_def
        split: prod.splits sum.splits)
  obtain a s where at: "attach_rtt lib (session w) = (Inr a, s)"
  proof (cases "attach_rtt lib (session w)")
    case (Pair x s)
    have "x \<noteq> Inl e" for e
      using assms(1,2) Pair
      by (auto simp: local_start_rtt_def local_call_def worker_step_def run_cmd_def answer_with_def Let_def
          split: prod.splits sum.splits)
    with Pair that show ?thesis by (cases x) auto
  qed
  then have v: "?v = answer_with (Start_rtt j) (Inr ())
      (?w\<lparr>session := s, rtt := Some \<lparr>rtt_handle = a, capture_id = j, pending_bytes = []\<rparr>\<rparr>)"
    by (simp add: run_cmd_def)
  show "\<not> capturing i w'"
    using capturing_poll [of i lib ?v] assms(3) unfolding w' v by (auto simp: capturing_def answer_with_def)
  show "health w' i = health w i" "stop_channel w' i = stop_channel w i"
    unfolding w' v using assms(3)
    by (auto simp: poll_capture_def answer_with_def split: option.split sum.split prod.split oneshot.split)
qed

lemma capture_ends_silently:
  assumes "watched i w" and "capturing i w"
    and "w2 = snd (local_flash lib path w) \<or> (\<exists>j c. i \<noteq> j \<and> local_start_rtt lib j w = (Inr c, w2))"
  shows "\<not> capturing i w2 \<and> health w2 i = None \<and> stop_channel w2 i = Empty"
  using assms flash_ends_capture [of w lib path] start_ends_capture [of lib _ w _ w2 i]
  by (auto simp: watched_def lost_def capturing_def)

text \<open>
  C38: lost observation is told apart from silence, as long as nothing else uses the target.
  While its owner keeps a capture and the target is at most reset, the error of the capture is
  exactly that of the first poll whose read failed: none, and the capture still runs, when no
  read failed; that read's error, and the capture has ended, as soon as one did. An error
  stays whatever happens later. But flashing, and starting another capture, end a capture that
  neither failed nor was stopped, and its error then says nothing.
\<close>

theorem lost_capture_is_reported:
  assumes "\<not> returned w" and "capturing i w" and "stop_channel w i = Empty" and "health w i = None"
    and "list_all (leaves_alone i) es"
  shows "let w' = fold (probe_next lib) es w in
    health w' i = map_option (\<lambda>m. lit ''rtt read error: '' @ m) (first_fault lib es w)
    \<and> (capturing i w' \<longleftrightarrow> first_fault lib es w = None)
    \<and> (first_fault lib es w \<noteq> None \<longrightarrow> rtt w' = None)
    \<and> (\<forall>m later. health w' i = Some m \<longrightarrow> health (fold (probe_next lib) later w') i = Some m)
    \<and> (capturing i w' \<longrightarrow> (\<forall>path w2. w2 = snd (local_flash lib path w')
         \<or> (\<exists>j c. i \<noteq> j \<and> local_start_rtt lib j w' = (Inr c, w2))
         \<longrightarrow> \<not> capturing i w2 \<and> health w2 i = None \<and> stop_channel w2 i = Empty))"
proof -
  let ?w = "fold (probe_next lib) es w"
  have start: "watched i w" using assms(1-4) by (simp add: watched_def)
  then have w: "watched i ?w" by (rule watched_events [OF _ assms(5)])
  have h: "health ?w i = map_option (\<lambda>m. lit ''rtt read error: '' @ m) (first_fault lib es w)"
    by (rule run_fault [OF start assms(2,5)])
  have c: "capturing i ?w \<longleftrightarrow> first_fault lib es w = None" "first_fault lib es w \<noteq> None \<longrightarrow> rtt ?w = None"
    using watched_health [OF w] h by simp_all
  have silent: "\<not> capturing i w2 \<and> health w2 i = None \<and> stop_channel w2 i = Empty"
    if "capturing i ?w" "w2 = snd (local_flash lib path ?w)
      \<or> (\<exists>j c. i \<noteq> j \<and> local_start_rtt lib j ?w = (Inr c, w2))" for path w2
    by (rule capture_ends_silently [OF w that])
  have later: "health ?w i = Some m \<Longrightarrow> health (fold (probe_next lib) later ?w) i = Some m" for m later
    by (rule health_latched_events)
  show ?thesis
    unfolding Let_def
  proof (intro conjI)
    show "\<forall>m later. health ?w i = Some m \<longrightarrow> health (fold (probe_next lib) later ?w) i = Some m"
      using later by simp
    show "capturing i ?w \<longrightarrow> (\<forall>path w2. w2 = snd (local_flash lib path ?w)
         \<or> (\<exists>j c. i \<noteq> j \<and> local_start_rtt lib j ?w = (Inr c, w2))
         \<longrightarrow> \<not> capturing i w2 \<and> health w2 i = None \<and> stop_channel w2 i = Empty)"
      by (intro impI allI) (rule silent)
  qed (rule h c)+
qed

lemma scripted_fault:
  "rtt w = Some st \<Longrightarrow> session w = Inl m # xs \<Longrightarrow>
   read_fault scripted_lib (Turn Timed_out) w = Some (lit ''rtt read: '' @ m)"
  by (simp add: read_fault_def polled_state_def poll_rtt_def scripted_lib_def)

theorem lost_capture_is_reported_witness:
  "let w = snd (local_start_rtt scripted_lib 0 \<lparr>session = [Inr [], Inl (lit ''gone'')], rtt = None,
        stop_channel = (\<lambda>_. Empty), health = (\<lambda>_. None), sunk = [], answers = [], returned = False\<rparr>)
   in health (fold (probe_next scripted_lib) [Turn Timed_out, Turn Timed_out] w) 0
        = Some (lit ''rtt read error: '' @ lit ''rtt read: '' @ lit ''gone'')
    \<and> health (snd (local_flash scripted_lib (path_of (lit ''fw.elf'')) w)) 0 = None
    \<and> \<not> capturing 0 (snd (local_flash scripted_lib (path_of (lit ''fw.elf'')) w))"
proof -
  define w where "w = snd (local_start_rtt scripted_lib 0 \<lparr>session = [Inr [], Inl (lit ''gone'')], rtt = None,
        stop_channel = (\<lambda>_. Empty), health = (\<lambda>_. None), sunk = [], answers = [], returned = False\<rparr>)"
  have w: "\<not> returned w" "capturing 0 w" "stop_channel w 0 = Empty" "health w 0 = None"
    and s: "session w = [Inl (lit ''gone'')]"
    by (simp_all add: w_def local_start_rtt_def local_call_def worker_step_def run_cmd_def attach_rtt_def
        scripted_lib_def answer_with_def poll_capture_def poll_rtt_def capturing_def)
  let ?es = "[Turn Timed_out, Turn Timed_out]"
  have "first_fault scripted_lib ?es w = Some (lit ''rtt read: '' @ lit ''gone'')"
    using w(2) scripted_fault [OF _ s] by (auto simp: capturing_def)
  moreover have "list_all (leaves_alone 0) ?es" by simp
  ultimately have "health (fold (probe_next scripted_lib) ?es w) 0
      = Some (lit ''rtt read error: '' @ lit ''rtt read: '' @ lit ''gone'')"
    using lost_capture_is_reported [OF w, of ?es scripted_lib] unfolding Let_def by (simp only: option.map)
  moreover have "health (snd (local_flash scripted_lib (path_of (lit ''fw.elf'')) w)) 0 = None
      \<and> \<not> capturing 0 (snd (local_flash scripted_lib (path_of (lit ''fw.elf'')) w))"
    using lost_capture_is_reported [OF w, of "[]" scripted_lib] w(2) unfolding Let_def by simp
  ultimately show ?thesis unfolding w_def [symmetric] Let_def by blast
qed

end
