(* ===== verification/Instrument.thy ===== *)
theory Instrument
  imports Prelude
begin

text \<open>
  Bench instruments (\<open>banc-instrument/src/lib.rs\<close>): the interface of an instrument, and the
  sweep over set points that keeps going past a failure. An error is its chain of messages,
  the outermost first.
\<close>

type_synonym any_error = "rstr list"

record 'w instrument_ops =
  inst_name :: rstr
  inst_kind :: rstr
  healthcheck :: "'w \<Rightarrow> (any_error + unit) \<times> 'w"

fun for_each_setpoint ::
  "('s \<Rightarrow> 'w \<Rightarrow> (any_error + unit) \<times> 'w) \<Rightarrow> ('s \<Rightarrow> 'w \<Rightarrow> (any_error + 'b) \<times> 'w)
   \<Rightarrow> 's list \<Rightarrow> 'w \<Rightarrow> ('s \<times> (any_error + 'b)) list \<times> 'w" where
  "for_each_setpoint apply_sp body [] w = ([], w)"
| "for_each_setpoint apply_sp body (sp # sps) w =
     (let (result, w2) = (case apply_sp sp w of
            (Inr _, w1) \<Rightarrow> body sp w1
          | (Inl e, w1) \<Rightarrow> (Inl (lit ''applying setpoint'' # e), w1));
          (rest, w3) = for_each_setpoint apply_sp body sps w2
      in ((sp, result) # rest, w3))"

text \<open>The whole profile is reported: one result for each set point, in order.\<close>

lemma map_fst_for_each_setpoint:
  "map fst (fst (for_each_setpoint apply_sp body sps w)) = sps"
proof (induction sps arbitrary: w)
  case (Cons sp sps)
  then show ?case by (simp add: case_prod_unfold Let_def)
qed simp

text \<open>A sweep over two ranges is the two sweeps in turn, so a failure in one hides nothing of
  the other.\<close>

lemma for_each_setpoint_append:
  "for_each_setpoint apply_sp body (as @ bs) w =
    (case for_each_setpoint apply_sp body as w of
       (ra, wa) \<Rightarrow> (case for_each_setpoint apply_sp body bs wa of (rb, wb) \<Rightarrow> (ra @ rb, wb)))"
  by (induction as arbitrary: w) (auto simp: Let_def split: prod.splits)

end
