(* ===== verification/Cli.thy ===== *)
theory Cli
  imports Rig
begin

text \<open>
  The command-line tool (\<open>banc/src/bin/banc.rs\<close>): finding the configuration, the status of the
  rig, the doctor that checks every element of the configuration, and the pass-through to
  probe-rs. A command returns its exit code and what it printed. The network, the probe-rs
  process, the artifacts directory and the display of errors are arguments, as is the host
  of the rig component.
\<close>

section \<open>Surroundings\<close>

definition CONNECT_TIMEOUT :: duration where
  "CONNECT_TIMEOUT = from_secs 3"

record 'sa cli_net =
  net_hello :: "hello codec"
  net_hello_reply :: "hello_reply codec"
  net_request :: "lease_request codec"
  net_reply :: "lease_reply codec"
  net_debug :: bool
  net_resolve :: "rstr \<Rightarrow> io_error + 'sa list"
  net_tcp :: "duration \<Rightarrow> 'sa \<Rightarrow> io_error + stream"

record 'w shell =
  raw_paths :: "path \<Rightarrow> path list"
  make_dirs :: "path \<Rightarrow> 'w \<Rightarrow> (io_error + unit) \<times> 'w"
  write_empty :: "path \<Rightarrow> 'w \<Rightarrow> (io_error + unit) \<times> 'w"
  remove_file :: "path \<Rightarrow> 'w \<Rightarrow> (io_error + unit) \<times> 'w"
  run_probe_rs :: "rstr list \<Rightarrow> 'w \<Rightarrow> (io_error + int option) \<times> 'w"
  show_path :: "path \<Rightarrow> rstr"
  show_io :: "io_error \<Rightarrow> rstr"
  show_client :: "client_error \<Rightarrow> rstr"
  show_token :: "token_error \<Rightarrow> rstr"
  show_status :: "status_error \<Rightarrow> rstr"

datatype out = Out rstr | Err rstr

type_synonym exit_code = u8

definition SUCCESS :: exit_code where "SUCCESS = 0"
definition FAILURE :: exit_code where "FAILURE = 1"

definition quoted :: "rstr \<Rightarrow> rstr" where
  "quoted s = [39] @ s @ [39]"

section \<open>Finding the configuration\<close>

definition load_config ::
  "('c, 'f, 'e, 't, 'w) host \<Rightarrow> ((io_error, 'e) load_error \<Rightarrow> rstr)
   \<Rightarrow> (exit_code \<times> out) + ('t rig_config \<times> path)" where
  "load_config h show_load =
    (case locate (env_var h ENV_VAR) (is_file h) (current_dir h) of
       Inr (Some path) \<Rightarrow>
         (case load (file_text h) (parse_toml h) path of
            Inr c \<Rightarrow> Inr (c, case parent path of Some d \<Rightarrow> d | None \<Rightarrow> path_of (lit ''.''))
          | Inl e \<Rightarrow> Inl (FAILURE, Err (lit ''rig config unusable: '' @ show_load e)))
     | Inr None \<Rightarrow> Inl (2, Err (lit ''no rig here: banc-rig.toml not found (set BANC_RIG or run from a rig checkout)''))
     | Inl e \<Rightarrow> Inl (FAILURE, Err (lit ''locating rig config: '' @ show_load e)))"

section \<open>Reaching things\<close>

text \<open>The part after a scheme, and without trailing slashes.\<close>

fun after_scheme :: "rstr \<Rightarrow> rstr option" where
  "after_scheme [] = None"
| "after_scheme (c # s) = (if take 3 (c # s) = lit ''://'' then Some (drop 3 (c # s)) else after_scheme s)"

definition hostport :: "rstr \<Rightarrow> rstr" where
  "hostport ad =
    rev (dropWhile (\<lambda>c. c = 47) (rev (case after_scheme ad of Some rest \<Rightarrow> rest | None \<Rightarrow> ad)))"

fun reach_any :: "('sa \<Rightarrow> io_error + stream) \<Rightarrow> io_error option \<Rightarrow> 'sa list \<Rightarrow> io_error option + unit" where
  "reach_any tcp last_err [] = Inl last_err"
| "reach_any tcp last_err (sa # sas) = (case tcp sa of Inr _ \<Rightarrow> Inr () | Inl e \<Rightarrow> reach_any tcp (Some e) sas)"

definition tcp_reach :: "'sa cli_net \<Rightarrow> (io_error \<Rightarrow> rstr) \<Rightarrow> rstr \<Rightarrow> rstr + unit" where
  "tcp_reach net show_err ad =
    and_then (map_err (\<lambda>e. lit ''resolving '' @ hostport ad @ lit '': '' @ show_err e)
               (net_resolve net (hostport ad))) (\<lambda>addrs.
    map_err (\<lambda>last_err. case last_err of
        Some e \<Rightarrow> lit ''connecting to '' @ hostport ad @ lit '': '' @ show_err e
      | None \<Rightarrow> hostport ad @ lit '' resolved to no addresses'')
      (reach_any (net_tcp net CONNECT_TIMEOUT) None addrs))"

definition which_probe_rs :: "('c, 'f, 'e, 't, 'w) host \<Rightarrow> 'w shell \<Rightarrow> path option" where
  "which_probe_rs h sh =
    (case (case env_var h (lit ''PATH'') of
             Unset \<Rightarrow> None | Not_unicode p \<Rightarrow> Some (raw_paths sh p) | Value s \<Rightarrow> Some (map path_of (split_on 58 s))) of
       None \<Rightarrow> None
     | Some dirs \<Rightarrow> find (is_file h) (map (\<lambda>dir. file_in dir (lit ''probe-rs'')) dirs))"

definition ask_lease :: "'sa cli_net \<Rightarrow> rstr \<Rightarrow> rstr \<Rightarrow> client_error + lease_status" where
  "ask_lease net ad tok =
    query_status (connect (net_hello net) (net_hello_reply net) (net_debug net) (net_resolve net)
      (net_tcp net) ad tok) (net_request net) (net_reply net) (net_debug net)"

section \<open>The status command\<close>

definition rig_status ::
  "('c, 'f, 'e, 't, 'w) host \<Rightarrow> 'sa cli_net \<Rightarrow> 'w shell \<Rightarrow> ((io_error, 'e) load_error \<Rightarrow> rstr) \<Rightarrow> 'w
   \<Rightarrow> exit_code \<times> out list \<times> 'w" where
  "rig_status h net sh show_load w =
    (case load_config h show_load of
       Inl (code, line) \<Rightarrow> (code, [line], w)
     | Inr (c, base) \<Rightarrow>
         (case rig_lease (rig c) of
            Some lease \<Rightarrow>
              (case read_token h (lease_token_file lease) base of
                 Inl e \<Rightarrow> (FAILURE, [Err (lit ''lease token: '' @ show_token sh e)], w)
               | Inr tok \<Rightarrow>
                   (case ask_lease net (lease_addr lease) tok of
                      Inr st \<Rightarrow> (SUCCESS, [Out (case status_holder st of
                          Some who \<Rightarrow> lit ''held by '' @ quoted who @ lit '' (lease at '' @ lease_addr lease
                            @ lit '', expires in '' @ show_nat (unat (status_expires_in_s st))
                            @ lit ''s unless renewed)''
                        | None \<Rightarrow> lit ''free (lease at '' @ lease_addr lease @ lit '')'')], w)
                    | Inl e \<Rightarrow> (FAILURE, [Err (lit ''lease server '' @ lease_addr lease
                        @ lit '' did not answer a status query: '' @ show_client sh e @ [10]
                        @ lit ''(an older rig daemon predates status; the rig may still be usable)'')], w)))
          | None \<Rightarrow>
              (let path = lock_path c base in
               case flock_status (lock_os h) (note_json h) path w of
                 (Inr Free, w') \<Rightarrow> (SUCCESS, [Out (lit ''free (flock at '' @ show_path sh path @ lit '')'')], w')
               | (Inr (Held_by_other (Some n)), w') \<Rightarrow> (SUCCESS, [Out (lit ''held by '' @ quoted (holder n)
                   @ lit '' (pid '' @ show_nat (unat (holder_pid n)) @ lit '', since unix ''
                   @ show_nat (unat (since n)) @ lit '', flock at '' @ show_path sh path @ lit '')'')], w')
               | (Inr (Held_by_other None), w') \<Rightarrow> (SUCCESS, [Out (lit ''held by an unidentified process (flock at ''
                   @ show_path sh path @ lit '')'')], w')
               | (Inl e, w') \<Rightarrow> (FAILURE, [Err (lit ''probing rig lock: '' @ show_status sh e)], w'))))"

section \<open>The doctor\<close>

datatype line = Ok_line rstr | Fail_line rstr | Note_line rstr

record doctor =
  failed :: u32
  passed :: u32
  printed :: "line list"

definition doctor_ok :: "rstr \<Rightarrow> doctor \<Rightarrow> doctor" where
  "doctor_ok what d = d\<lparr>passed := passed d + 1, printed := printed d @ [Ok_line what]\<rparr>"

definition doctor_fail :: "rstr \<Rightarrow> doctor \<Rightarrow> doctor" where
  "doctor_fail what d = d\<lparr>failed := failed d + 1, printed := printed d @ [Fail_line what]\<rparr>"

definition doctor_note :: "rstr \<Rightarrow> doctor \<Rightarrow> doctor" where
  "doctor_note what d = d\<lparr>printed := printed d @ [Note_line what]\<rparr>"

definition check :: "rstr \<Rightarrow> rstr + rstr \<Rightarrow> doctor \<Rightarrow> doctor" where
  "check what r d =
    (case r of
       Inr detail \<Rightarrow> if detail = [] then doctor_ok what d else doctor_ok (what @ lit '': '' @ detail) d
     | Inl e \<Rightarrow> doctor_fail (what @ lit '': '' @ e) d)"

text \<open>A result whose value does not matter, as \<open>check\<close> takes it.\<close>

definition unit_check :: "rstr + 'a \<Rightarrow> rstr + rstr" where
  "unit_check r = map_sum id (\<lambda>_. []) r"

definition check_arbiter ::
  "('c, 'f, 'e, 't, 'w) host \<Rightarrow> 'sa cli_net \<Rightarrow> 'w shell \<Rightarrow> 't rig_config \<Rightarrow> path
   \<Rightarrow> doctor \<Rightarrow> 'w \<Rightarrow> doctor \<times> 'w" where
  "check_arbiter h net sh c base d w =
    (case rig_lease (rig c) of
       Some lease \<Rightarrow>
         (check (lit ''lease server '' @ lease_addr lease)
           (and_then (map_err (show_token sh) (read_token h (lease_token_file lease) base)) (\<lambda>tok.
            and_then (map_err (show_client sh) (ask_lease net (lease_addr lease) tok)) (\<lambda>st.
            Inr (case status_holder st of Some who \<Rightarrow> lit ''held by '' @ quoted who | None \<Rightarrow> lit ''free'')))) d, w)
     | None \<Rightarrow>
         (let path = lock_path c base; (r, w') = flock_status (lock_os h) (note_json h) path w in
          (check (lit ''rig lock '' @ show_path sh path)
            (and_then (map_err (show_status sh) r) (\<lambda>st. Inr (case st of
                Free \<Rightarrow> lit ''free''
              | Held_by_other (Some n) \<Rightarrow> lit ''held by '' @ quoted (holder n) @ lit '' (pid ''
                  @ show_nat (unat (holder_pid n)) @ lit '')''
              | Held_by_other None \<Rightarrow> lit ''held by an unidentified process''))) d, w')))"

definition check_target ::
  "('c, 'f, 'e, 't, 'w) host \<Rightarrow> 'sa cli_net \<Rightarrow> 'w shell \<Rightarrow> path \<Rightarrow> 't target_config \<Rightarrow> doctor \<Rightarrow> doctor" where
  "check_target h net sh base t d =
    (let d1 = (case which_probe_rs h sh of
           Some path \<Rightarrow> doctor_ok (lit ''probe-rs at '' @ show_path sh path) d
         | None \<Rightarrow> doctor_fail (lit ''probe-rs not on PATH'') d);
         d2 = (case probe_host t of
           Some host \<Rightarrow> check (lit ''target '' @ quoted (chip t) @ lit '' probe server '' @ host)
             (unit_check (tcp_reach net (show_io sh) host)) d1
         | None \<Rightarrow> doctor_note (lit ''target '' @ quoted (chip t)
             @ lit '': local USB probe (not probed; use `banc probe info`)'') d1)
     in case target_token_file t of
          Some f \<Rightarrow> check (lit ''target probe token'') (unit_check (map_err (show_token sh) (read_token h f base))) d2
        | None \<Rightarrow> d2)"

definition check_node ::
  "('c, 'f, 'e, 't, 'w) host \<Rightarrow> 'sa cli_net \<Rightarrow> 'w shell \<Rightarrow> path \<Rightarrow> assistant_config \<Rightarrow> doctor \<Rightarrow> doctor" where
  "check_node h net sh base a d =
    (case addr a of
       Some ad \<Rightarrow>
         check (lit ''assistant '' @ quoted (assistant_name a) @ lit '' at '' @ ad)
           (unit_check (and_then (case token_file a of
               Some t \<Rightarrow> map_sum (show_token sh) (\<lambda>_. ()) (read_token h t base) | None \<Rightarrow> Inr ())
             (\<lambda>_. tcp_reach net (show_io sh) ad))) d
     | None \<Rightarrow> doctor_note (lit ''assistant '' @ quoted (assistant_name a)
         @ lit '': USB (checked at suite runtime, not here)'') d)"

text \<open>An address with a colon and no slash is a network address.\<close>

definition probed_address :: "'t instrument_config \<Rightarrow> rstr option" where
  "probed_address i =
    (case address i of Some ad \<Rightarrow> if 58 \<in> set ad \<and> 47 \<notin> set ad then Some ad else None | None \<Rightarrow> None)"

definition check_instrument ::
  "'sa cli_net \<Rightarrow> 'w shell \<Rightarrow> 't instrument_config \<Rightarrow> doctor \<Rightarrow> doctor" where
  "check_instrument net sh i d =
    (case probed_address i of
       Some ad \<Rightarrow> check (lit ''instrument '' @ quoted (instrument_name i) @ lit '' at '' @ ad)
         (unit_check (tcp_reach net (show_io sh) ad)) d
     | None \<Rightarrow> doctor_note (lit ''instrument '' @ quoted (instrument_name i) @ lit '' ('' @ kind i
         @ lit ''): no network address to probe'') d)"

definition artifacts_path :: "('c, 'f, 'e, 't, 'w) host \<Rightarrow> path \<Rightarrow> path" where
  "artifacts_path h base =
    (case env_path h ''BANC_ARTIFACTS'' of
       Some p \<Rightarrow> p | None \<Rightarrow> file_in (file_in base (lit ''target'')) (lit ''banc-artifacts''))"

definition check_artifacts ::
  "('c, 'f, 'e, 't, 'w) host \<Rightarrow> 'w shell \<Rightarrow> path \<Rightarrow> doctor \<Rightarrow> 'w \<Rightarrow> doctor \<times> 'w" where
  "check_artifacts h sh base d w =
    (let artifacts = artifacts_path h base;
         probe_file = file_in artifacts (lit ''.banc-doctor'');
         (r, w') = st_then (make_dirs sh artifacts w) (\<lambda>_ w1.
                   st_then (write_empty sh probe_file w1) (\<lambda>_. remove_file sh probe_file))
     in (check (lit ''artifacts dir '' @ show_path sh artifacts) (unit_check (map_err (show_io sh) r)) d, w'))"

definition doctor_run ::
  "('c, 'f, 'e, 't, 'w) host \<Rightarrow> 'sa cli_net \<Rightarrow> 'w shell \<Rightarrow> 't rig_config \<Rightarrow> path \<Rightarrow> 'w \<Rightarrow> doctor \<times> 'w" where
  "doctor_run h net sh c base w =
    (let d0 = doctor_ok (lit ''config: '' @ show_nat (if target c = None then 0 else 1) @ lit '' target, ''
           @ show_nat (length (assistants c)) @ lit '' assistant(s), '' @ show_nat (length (instruments c))
           @ lit '' instrument(s)'') \<lparr>failed = 0, passed = 0, printed = []\<rparr>;
         (d1, w1) = check_arbiter h net sh c base d0 w;
         d2 = (case target c of Some t \<Rightarrow> check_target h net sh base t d1 | None \<Rightarrow> d1);
         d3 = fold (check_node h net sh base) (assistants c) d2;
         d4 = fold (check_instrument net sh) (instruments c) d3
     in check_artifacts h sh base d4 w1)"

fun line_out :: "line \<Rightarrow> out" where
  "line_out (Ok_line s) = Out (lit ''  ok    '' @ s)"
| "line_out (Fail_line s) = Out (lit ''  FAIL  '' @ s)"
| "line_out (Note_line s) = Out (lit ''  --    '' @ s)"

definition doctor_command ::
  "('c, 'f, 'e, 't, 'w) host \<Rightarrow> 'sa cli_net \<Rightarrow> 'w shell \<Rightarrow> ((io_error, 'e) load_error \<Rightarrow> rstr) \<Rightarrow> 'w
   \<Rightarrow> exit_code \<times> out list \<times> 'w" where
  "doctor_command h net sh show_load w =
    (case load_config h show_load of
       Inl (code, line) \<Rightarrow> (code, [line], w)
     | Inr (c, base) \<Rightarrow>
         (let name = (case rig_name (rig c) of Some n \<Rightarrow> n | None \<Rightarrow> lit ''unnamed'');
              (d, w') = doctor_run h net sh c base w
          in (if failed d = 0 then SUCCESS else FAILURE,
              [Out (lit ''banc doctor '' @ [0x2014] @ lit '' rig '' @ quoted name @ lit '' ('' @ show_path sh base @ lit '')'')]
              @ map line_out (printed d)
              @ [Out (show_nat (unat (passed d)) @ lit '' ok, '' @ show_nat (unat (failed d)) @ lit '' failed'')], w')))"

section \<open>The probe command\<close>

definition probe_args ::
  "('c, 'f, 'e, 't, 'w) host \<Rightarrow> path \<Rightarrow> 't target_config \<Rightarrow> rstr \<Rightarrow> rstr list \<Rightarrow> token_error + rstr list" where
  "probe_args h base t verb rest =
    (let selectors = (if verb \<noteq> lit ''list''
           then [lit ''--chip'', chip t] @ (case probe t of Some p \<Rightarrow> [lit ''--probe'', p] | None \<Rightarrow> [])
           else [])
     in and_then (case probe_host t of
           None \<Rightarrow> Inr []
         | Some host \<Rightarrow>
             (case target_token_file t of
                None \<Rightarrow> Inr [lit ''--host'', host]
              | Some f \<Rightarrow> and_then (read_token h f base) (\<lambda>tok.
                  Inr [lit ''--host'', host, lit ''--token'', tok])))
       (\<lambda>remote. Inr (verb # selectors @ remote @ rest)))"

text \<open>The exit code that is passed on, the child's clamped into a byte.\<close>

definition child_exit :: "int \<Rightarrow> exit_code" where
  "child_exit code = of_int (max 0 (min 255 code))"

definition probe_command ::
  "('c, 'f, 'e, 't, 'w) host \<Rightarrow> 'w shell \<Rightarrow> ((io_error, 'e) load_error \<Rightarrow> rstr) \<Rightarrow> rstr \<Rightarrow> rstr list
   \<Rightarrow> 'w \<Rightarrow> exit_code \<times> out list \<times> 'w" where
  "probe_command h sh show_load verb rest w =
    (case load_config h show_load of
       Inl (code, line) \<Rightarrow> (code, [line], w)
     | Inr (c, base) \<Rightarrow>
         (case target c of
            None \<Rightarrow> (FAILURE, [Err (lit ''rig config has no [target]; nothing to probe'')], w)
          | Some t \<Rightarrow>
              (case probe_args h base t verb rest of
                 Inl e \<Rightarrow> (FAILURE, [Err (lit ''probe token: '' @ show_token sh e)], w)
               | Inr args \<Rightarrow>
                   (case run_probe_rs sh args w of
                      (Inr (Some code), w') \<Rightarrow> (child_exit code, [], w')
                    | (Inr None, w') \<Rightarrow> (FAILURE, [Err (lit ''probe-rs terminated by signal'')], w')
                    | (Inl e, w') \<Rightarrow> (FAILURE, [Err (lit ''running probe-rs: '' @ show_io sh e
                        @ lit '' (is it installed and on PATH?)'')], w')))))"

section \<open>The command line\<close>

fun join_with :: "rstr \<Rightarrow> rstr list \<Rightarrow> rstr" where
  "join_with sep [] = []"
| "join_with sep [s] = s"
| "join_with sep (s # t # ts) = s @ sep @ join_with sep (t # ts)"

definition USAGE :: rstr where
  "USAGE = join_with [10]
    [lit ''banc '' @ [0x2014] @ lit '' rig utilities for the banc HIL framework'',
     [],
     lit ''USAGE:'',
     lit ''    banc doctor                 check every element of the rig config'',
     lit ''    banc rig status             who holds the rig right now'',
     lit ''    banc probe <verb> [args..]  probe-rs against the configured target'',
     lit ''                                (chip/probe/remote-host/token injected;'',
     lit ''                                 verbs: reset, info, run, attach, erase, ...)'',
     [],
     lit ''The rig config is located like suites locate it: $BANC_RIG, else'',
     lit ''banc-rig.toml searched upward from the current directory.'']"

definition banc_main ::
  "('c, 'f, 'e, 't, 'w) host \<Rightarrow> 'sa cli_net \<Rightarrow> 'w shell \<Rightarrow> ((io_error, 'e) load_error \<Rightarrow> rstr)
   \<Rightarrow> rstr list \<Rightarrow> 'w \<Rightarrow> exit_code \<times> out list \<times> 'w" where
  "banc_main h net sh show_load args w =
    (if args = [lit ''doctor''] then doctor_command h net sh show_load w
     else if args = [lit ''rig'', lit ''status''] then rig_status h net sh show_load w
     else if 2 \<le> length args \<and> hd args = lit ''probe''
       then probe_command h sh show_load (args ! 1) (drop 2 args) w
     else if args \<in> {[lit ''--help''], [lit ''-h''], [lit ''help''], []} then (SUCCESS, [Out USAGE], w)
     else (2, [Err (lit ''unknown command: '' @ join_with [32] args @ [10, 10] @ USAGE)], w))"

section \<open>What the doctor looks for\<close>

definition reachable :: "'sa cli_net \<Rightarrow> rstr \<Rightarrow> bool" where
  "reachable net ad \<longleftrightarrow> (\<exists>sas. net_resolve net (hostport ad) = Inr sas
     \<and> list_ex (\<lambda>sa. is_ok (net_tcp net CONNECT_TIMEOUT sa)) sas)"

definition arbiter_sound ::
  "('c, 'f, 'e, 't, 'w) host \<Rightarrow> 'sa cli_net \<Rightarrow> 't rig_config \<Rightarrow> path \<Rightarrow> 'w \<Rightarrow> bool" where
  "arbiter_sound h net c base w \<longleftrightarrow>
    (case rig_lease (rig c) of
       Some l \<Rightarrow> (\<exists>tok. read_token h (lease_token_file l) base = Inr tok \<and> is_ok (ask_lease net (lease_addr l) tok))
     | None \<Rightarrow> is_ok (fst (flock_status (lock_os h) (note_json h) (lock_path c base) w)))"

definition target_sound ::
  "('c, 'f, 'e, 't, 'w) host \<Rightarrow> 'sa cli_net \<Rightarrow> 'w shell \<Rightarrow> path \<Rightarrow> 't target_config \<Rightarrow> bool" where
  "target_sound h net sh base t \<longleftrightarrow> which_probe_rs h sh \<noteq> None
     \<and> (\<forall>host. probe_host t = Some host \<longrightarrow> reachable net host)
     \<and> (\<forall>f. target_token_file t = Some f \<longrightarrow> is_ok (read_token h f base))"

definition node_sound ::
  "('c, 'f, 'e, 't, 'w) host \<Rightarrow> 'sa cli_net \<Rightarrow> path \<Rightarrow> assistant_config \<Rightarrow> bool" where
  "node_sound h net base a \<longleftrightarrow> (\<forall>ad. addr a = Some ad \<longrightarrow> reachable net ad
     \<and> (\<forall>f. token_file a = Some f \<longrightarrow> is_ok (read_token h f base)))"

definition instrument_sound :: "'sa cli_net \<Rightarrow> 't instrument_config \<Rightarrow> bool" where
  "instrument_sound net i \<longleftrightarrow> (\<forall>ad. probed_address i = Some ad \<longrightarrow> reachable net ad)"

definition artifacts_sound :: "'w shell \<Rightarrow> path \<Rightarrow> 'w \<Rightarrow> bool" where
  "artifacts_sound sh dir w \<longleftrightarrow> (\<exists>w1 w2 w3. make_dirs sh dir w = (Inr (), w1)
     \<and> write_empty sh (file_in dir (lit ''.banc-doctor'')) w1 = (Inr (), w2)
     \<and> remove_file sh (file_in dir (lit ''.banc-doctor'')) w2 = (Inr (), w3))"

text \<open>Asking for the lock may change the world the later checks see.\<close>

definition after_arbiter :: "('c, 'f, 'e, 't, 'w) host \<Rightarrow> 't rig_config \<Rightarrow> path \<Rightarrow> 'w \<Rightarrow> 'w" where
  "after_arbiter h c base w =
    (if rig_lease (rig c) = None
     then snd (flock_status (lock_os h) (note_json h) (lock_path c base) w) else w)"

text \<open>The rig is sound: each element of the configuration is there and answers.\<close>

definition rig_sound ::
  "('c, 'f, 'e, 't, 'w) host \<Rightarrow> 'sa cli_net \<Rightarrow> 'w shell \<Rightarrow> 't rig_config \<Rightarrow> path \<Rightarrow> 'w \<Rightarrow> bool" where
  "rig_sound h net sh c base w \<longleftrightarrow> arbiter_sound h net c base w
     \<and> (\<forall>t. target c = Some t \<longrightarrow> target_sound h net sh base t)
     \<and> list_all (node_sound h net base) (assistants c)
     \<and> list_all (instrument_sound net) (instruments c)
     \<and> artifacts_sound sh (artifacts_path h base) (after_arbiter h c base w)"

lemma is_ok_map_err [simp]: "is_ok (map_err g r) = is_ok r"
  by (cases r) auto

lemma is_ok_unit_check [simp]: "is_ok (unit_check r) = is_ok r"
  by (cases r) (auto simp: unit_check_def)

lemma is_ok_map_sum [simp]: "is_ok (map_sum f g r) = is_ok r"
  by (cases r) auto

lemma is_ok_and_then: "is_ok (and_then r f) \<longleftrightarrow> (\<exists>x. r = Inr x \<and> is_ok (f x))"
  by (cases r) auto

lemma is_ok_and_then_simps [simp]:
  "is_ok (and_then r (\<lambda>x. Inr (f x))) = is_ok r"
  "is_ok (and_then r (\<lambda>_. q)) \<longleftrightarrow> is_ok r \<and> is_ok q"
  by (cases r; simp)+

lemma reach_any_ok: "is_ok (reach_any tcp last_err sas) \<longleftrightarrow> list_ex (\<lambda>sa. is_ok (tcp sa)) sas"
  by (induction sas arbitrary: last_err) (auto split: sum.split)

lemma tcp_reach_ok: "is_ok (tcp_reach net show_err ad) \<longleftrightarrow> reachable net ad"
  by (auto simp: tcp_reach_def is_ok_and_then reachable_def reach_any_ok)

section \<open>What the doctor counts\<close>

fun is_fail :: "line \<Rightarrow> bool" where
  "is_fail (Fail_line s) = True"
| "is_fail l = False"

definition fails :: "doctor \<Rightarrow> nat" where
  "fails d = length (filter is_fail (printed d))"

definition counted :: "doctor \<Rightarrow> bool" where
  "counted d \<longleftrightarrow> failed d = of_nat (fails d)"

lemma check_counts [simp]:
  "fails (doctor_ok what d) = fails d" "fails (doctor_note what d) = fails d"
  "fails (doctor_fail what d) = Suc (fails d)"
  "fails (check what r d) = fails d + (if is_ok r then 0 else 1)"
  by (auto simp: fails_def doctor_ok_def doctor_note_def doctor_fail_def check_def split: sum.split)

lemma check_counted [simp]:
  "counted d \<Longrightarrow> counted (doctor_ok what d)" "counted d \<Longrightarrow> counted (doctor_note what d)"
  "counted d \<Longrightarrow> counted (doctor_fail what d)" "counted d \<Longrightarrow> counted (check what r d)"
  by (auto simp: counted_def fails_def doctor_ok_def doctor_note_def doctor_fail_def check_def split: sum.split)

text \<open>A part of the examination, with the verdict it stands for and the failures it can add.\<close>

definition examines :: "(doctor \<Rightarrow> doctor) \<Rightarrow> bool \<Rightarrow> nat \<Rightarrow> bool" where
  "examines f good n \<longleftrightarrow> (\<forall>d. (counted d \<longrightarrow> counted (f d))
     \<and> (fails (f d) = 0 \<longleftrightarrow> fails d = 0 \<and> good) \<and> fails (f d) \<le> fails d + n)"

lemma examines_check: "examines (check what r) (is_ok r) 1"
  by (simp add: examines_def)

lemma examines_ok: "examines (doctor_ok what) True 0"
  by (simp add: examines_def)

lemma examines_note: "examines (doctor_note what) True 0"
  by (simp add: examines_def)

lemma examines_fail: "examines (doctor_fail what) False 1"
  by (simp add: examines_def)

lemma examines_comp:
  assumes "examines f p m" and "examines g q n"
  shows "examines (\<lambda>d. g (f d)) (p \<and> q) (m + n)"
  unfolding examines_def
proof (intro allI conjI impI)
  fix d
  note f = assms(1) [unfolded examines_def, rule_format, of d]
  note g = assms(2) [unfolded examines_def, rule_format, of "f d"]
  show "counted d \<Longrightarrow> counted (g (f d))" using f g by simp
  show "fails (g (f d)) = 0 \<longleftrightarrow> fails d = 0 \<and> p \<and> q" using f g by simp
  show "fails (g (f d)) \<le> fails d + (m + n)" using f g by linarith
qed

lemma examines_fold:
  assumes "\<And>x. examines (f x) (good x) 1"
  shows "examines (fold f xs) (list_all good xs) (length xs)"
proof (induction xs)
  case (Cons x xs)
  from examines_comp [OF assms [of x] Cons] show ?case by (simp add: o_def)
qed (simp add: examines_def)

lemma examines_target:
  "examines (check_target h net sh base t) (target_sound h net sh base t) 3"
proof -
  have e1: "examines (\<lambda>d. case which_probe_rs h sh of
      Some path \<Rightarrow> doctor_ok (lit ''probe-rs at '' @ show_path sh path) d
    | None \<Rightarrow> doctor_fail (lit ''probe-rs not on PATH'') d) (which_probe_rs h sh \<noteq> None) 1"
    by (cases "which_probe_rs h sh") (simp_all add: examines_def)
  have e2: "examines (\<lambda>d. case probe_host t of
      Some host \<Rightarrow> check (lit ''target '' @ quoted (chip t) @ lit '' probe server '' @ host)
             (unit_check (tcp_reach net (show_io sh) host)) d
    | None \<Rightarrow> doctor_note (lit ''target '' @ quoted (chip t)
             @ lit '': local USB probe (not probed; use `banc probe info`)'') d)
      (\<forall>host. probe_host t = Some host \<longrightarrow> reachable net host) 1"
    by (cases "probe_host t") (simp_all add: examines_def tcp_reach_ok)
  have e3: "examines (\<lambda>d. case target_token_file t of
      Some f \<Rightarrow> check (lit ''target probe token'') (unit_check (map_err (show_token sh) (read_token h f base))) d
    | None \<Rightarrow> d) (\<forall>f. target_token_file t = Some f \<longrightarrow> is_ok (read_token h f base)) 1"
    by (cases "target_token_file t") (simp_all add: examines_def)
  have "examines (check_target h net sh base t) (((which_probe_rs h sh \<noteq> None)
      \<and> (\<forall>host. probe_host t = Some host \<longrightarrow> reachable net host))
      \<and> (\<forall>f. target_token_file t = Some f \<longrightarrow> is_ok (read_token h f base))) (1 + 1 + 1)"
    unfolding check_target_def [abs_def] Let_def by (rule examines_comp [OF examines_comp [OF e1 e2] e3])
  then show ?thesis unfolding target_sound_def by (simp add: conj_assoc numeral_3_eq_3)
qed

lemma examines_node: "examines (check_node h net sh base a) (node_sound h net base a) 1"
  by (cases "addr a"; cases "token_file a")
    (auto simp: examines_def check_node_def node_sound_def tcp_reach_ok)

lemma examines_instrument: "examines (check_instrument net sh i) (instrument_sound net i) 1"
  by (cases "probed_address i")
    (simp_all add: examines_def check_instrument_def instrument_sound_def tcp_reach_ok)

lemma examines_arbiter:
  "examines (\<lambda>d. fst (check_arbiter h net sh c base d w)) (arbiter_sound h net c base w) 1"
proof (cases "rig_lease (rig c)")
  case None
  then show ?thesis
    by (simp add: examines_def check_arbiter_def arbiter_sound_def case_prod_unfold Let_def)
next
  case (Some l)
  then show ?thesis
    by (simp add: examines_def check_arbiter_def arbiter_sound_def is_ok_and_then)
qed

lemma snd_check_arbiter: "snd (check_arbiter h net sh c base d w) = after_arbiter h c base w"
  by (simp add: check_arbiter_def after_arbiter_def case_prod_unfold Let_def split: option.split)

lemma examines_artifacts:
  "examines (\<lambda>d. fst (check_artifacts h sh base d w)) (artifacts_sound sh (artifacts_path h base) w) 1"
proof -
  have "is_ok (fst (st_then (make_dirs sh a w) (\<lambda>_ w1. st_then (write_empty sh f w1) (\<lambda>_. remove_file sh f))))
    \<longleftrightarrow> (\<exists>w1 w2 w3. make_dirs sh a w = (Inr (), w1) \<and> write_empty sh f w1 = (Inr (), w2)
          \<and> remove_file sh f w2 = (Inr (), w3))" for a f
  proof (cases "make_dirs sh a w")
    case (Pair r1 w1)
    then show ?thesis
      by (cases "write_empty sh f w1"; cases "remove_file sh f (snd (write_empty sh f w1))"; cases r1;
          cases "fst (write_empty sh f w1)"; cases "fst (remove_file sh f (snd (write_empty sh f w1)))") auto
  qed
  then show ?thesis
    by (simp add: examines_def check_artifacts_def artifacts_sound_def case_prod_unfold Let_def)
qed

lemma doctor_run_examines:
  shows "counted (fst (doctor_run h net sh c base w))"
    and "fails (fst (doctor_run h net sh c base w)) = 0 \<longleftrightarrow> rig_sound h net sh c base w"
    and "fails (fst (doctor_run h net sh c base w)) \<le> length (assistants c) + length (instruments c) + 5"
proof -
  let ?d0 = "doctor_ok (lit ''config: '' @ show_nat (if target c = None then 0 else 1) @ lit '' target, ''
           @ show_nat (length (assistants c)) @ lit '' assistant(s), '' @ show_nat (length (instruments c))
           @ lit '' instrument(s)'') \<lparr>failed = 0, passed = 0, printed = []\<rparr>"
  let ?f = "\<lambda>d. fst (check_artifacts h sh base
      (fold (check_instrument net sh) (instruments c)
        (fold (check_node h net sh base) (assistants c)
          (case target c of Some t \<Rightarrow> check_target h net sh base t (fst (check_arbiter h net sh c base d w))
            | None \<Rightarrow> fst (check_arbiter h net sh c base d w)))) (after_arbiter h c base w))"
  have t: "examines (\<lambda>d. case target c of Some t \<Rightarrow> check_target h net sh base t d | None \<Rightarrow> d)
      (\<forall>t. target c = Some t \<longrightarrow> target_sound h net sh base t) 3"
    using examines_target by (cases "target c") (simp_all add: examines_def)
  have f: "examines ?f ((((arbiter_sound h net c base w
       \<and> (\<forall>t. target c = Some t \<longrightarrow> target_sound h net sh base t))
     \<and> list_all (node_sound h net base) (assistants c)) \<and> list_all (instrument_sound net) (instruments c))
     \<and> artifacts_sound sh (artifacts_path h base) (after_arbiter h c base w))
     (1 + 3 + length (assistants c) + length (instruments c) + 1)"
    by (rule examines_comp [OF examines_comp [OF examines_comp [OF examines_comp [OF examines_arbiter t]
          examines_fold [OF examines_node]] examines_fold [OF examines_instrument]] examines_artifacts])
  have run: "fst (doctor_run h net sh c base w) = ?f ?d0"
    by (simp add: doctor_run_def Let_def case_prod_unfold snd_check_arbiter)
  have fresh: "counted \<lparr>failed = 0, passed = 0, printed = []\<rparr>" "fails \<lparr>failed = 0, passed = 0, printed = []\<rparr> = 0"
    by (simp_all add: counted_def fails_def)
  have d0: "counted ?d0" "fails ?d0 = 0" using fresh by simp_all
  note x = f [unfolded examines_def, rule_format, of ?d0, folded run]
  show "counted (fst (doctor_run h net sh c base w))" using x d0(1) by blast
  show "fails (fst (doctor_run h net sh c base w)) = 0 \<longleftrightarrow> rig_sound h net sh c base w"
    using x d0(2) by (simp add: rig_sound_def conj_assoc)
  show "fails (fst (doctor_run h net sh c base w)) \<le> length (assistants c) + length (instruments c) + 5"
    using x d0(2) by simp
qed

section \<open>Properties\<close>

text \<open>On a platform with negative exit codes a crashed child passes for a success.\<close>

lemma negative_status_is_success: "code \<le> 0 \<Longrightarrow> child_exit code = SUCCESS"
  by (simp add: child_exit_def SUCCESS_def)

text \<open>The code of a missing rig is also that of a command that does not exist.\<close>

lemma unknown_command_exits_two: "fst (banc_main h net sh show_load [lit ''doktor''] w) = 2"
  by (simp add: banc_main_def lit_def)

text \<open>
  C39: the doctor's exit code is the verdict on the rig. It is success exactly when a
  configuration is found and valid and every element of it is sound (the arbiter answers,
  probe-rs is installed and the probe server reachable, the network nodes and instruments
  are reachable, the tokens readable, the artifacts directory writable); it is 2 exactly
  when there is no configuration to find.
\<close>

theorem doctor_exit_code_is_the_verdict:
  fixes h :: "('c, 'f, 'e, 't, 'w) host" and net :: "'sa cli_net"
  assumes "\<And>c base. load_config h show_load = Inr (c, base) \<Longrightarrow>
      length (assistants c) + length (instruments c) + 5 < 2 ^ 32"
  shows "(fst (doctor_command h net sh show_load w) = SUCCESS \<longleftrightarrow>
      (\<exists>c base. load_config h show_load = Inr (c, base) \<and> rig_sound h net sh c base w))
    \<and> (fst (doctor_command h net sh show_load w) = 2 \<longleftrightarrow>
      locate (env_var h ENV_VAR) (is_file h) (current_dir h) = (Inr None :: (io_error, 'e) load_error + path option))"
proof (cases "load_config h show_load")
  case (Inl r)
  then show ?thesis
    by (auto simp: doctor_command_def load_config_def SUCCESS_def FAILURE_def
        split: sum.splits option.splits)
next
  case (Inr r)
  obtain c base where r: "r = (c, base)" by (cases r)
  let ?d = "fst (doctor_run h net sh c base w)"
  have "fails ?d < 2 ^ 32"
    using doctor_run_examines(3) [of h net sh c base w] assms [of c base] Inr r by simp
  then have "unat (failed ?d) = fails ?d"
    using doctor_run_examines(1) [of h net sh c base w] by (simp add: counted_def unat_of_nat)
  then have "failed ?d = 0 \<longleftrightarrow> fails ?d = 0" by (metis unat_0 word_unat_eq_iff)
  moreover have "locate (env_var h ENV_VAR) (is_file h) (current_dir h)
      \<noteq> (Inr None :: (io_error, 'e) load_error + path option)"
    using Inr by (auto simp: load_config_def)
  ultimately show ?thesis
    using Inr r doctor_run_examines(2) [of h net sh c base w]
    by (simp add: doctor_command_def SUCCESS_def FAILURE_def Let_def case_prod_unfold)
qed

text \<open>The bench again, with a network that nobody has to answer.\<close>

definition quiet_net :: "unit cli_net" where
  "quiet_net = \<lparr>net_hello = text_hello, net_hello_reply = text_reply, net_request = demo_requests,
     net_reply = demo_replies, net_debug = False, net_resolve = (\<lambda>_. Inr []),
     net_tcp = (\<lambda>_ _. Inl (Os_error 111))\<rparr>"

definition bench_shell :: "kernel shell" where
  "bench_shell = \<lparr>raw_paths = (\<lambda>p. [p]), make_dirs = (\<lambda>_. Pair (Inr ())), write_empty = (\<lambda>_. Pair (Inr ())),
     remove_file = (\<lambda>_. Pair (Inr ())), run_probe_rs = (\<lambda>_. Pair (Inr (Some 0))), show_path = (\<lambda>_. []),
     show_io = (\<lambda>_. []), show_client = (\<lambda>_. []), show_token = (\<lambda>_. []), show_status = (\<lambda>_. [])\<rparr>"

theorem doctor_exit_code_is_the_verdict_witness:
  "fst (doctor_command bench quiet_net bench_shell (\<lambda>_. []) kernel_start) = SUCCESS"
proof -
  let ?base = "path_of (lit ''/home'')"
  have l: "load_config bench (\<lambda>_. []) = Inr (plain_config [], ?base)"
    by (simp add: load_config_def bench_located)
  have "is_ok (fst (flock_status (lock_os bench) (note_json bench) (lock_path (plain_config []) ?base) kernel_start))"
    using status_of_free [of "lock_path (plain_config []) ?base" kernel_start 7 plain_json]
    by (auto simp: bench_def kernel_start_def path_owner_def)
  then have "rig_sound bench quiet_net bench_shell (plain_config []) ?base kernel_start"
    by (simp add: rig_sound_def arbiter_sound_def plain_config_def artifacts_sound_def bench_shell_def)
  with doctor_exit_code_is_the_verdict [of bench "\<lambda>_. []" quiet_net bench_shell kernel_start] l
  show ?thesis by (auto simp: plain_config_def)
qed

end
