(* ===== verification/Build.thy ===== *)
theory Build
  imports Config Framing
begin

text \<open>
  The build script of the firmware (\<open>banc-assistant/build.rs\<close>): it copies the memory map to
  Cargo's output directory, where the linker is told to look for it, and prints directives for
  Cargo. The variable with that directory, the file system and the way a path is displayed are
  arguments; the bytes of the memory map are included at compile time.
\<close>

datatype build_panic = No_out_dir | Not_created io_error | Not_written io_error

record ('f, 'w) build_fs =
  bf_create :: "path \<Rightarrow> 'w \<Rightarrow> (io_error + 'f) \<times> 'w"
  bf_write_all :: "'f \<Rightarrow> bytes \<Rightarrow> 'w \<Rightarrow> (io_error + unit) \<times> 'w"

definition cargo_lines :: "rstr \<Rightarrow> rstr list" where
  "cargo_lines out =
    [lit ''cargo:rustc-link-search='' @ out,
     lit ''cargo:rerun-if-changed=memory.x'',
     lit ''cargo:rustc-link-arg-bins=--nmagic'',
     lit ''cargo:rustc-link-arg-bins=-Tlink.x'',
     lit ''cargo:rustc-link-arg-bins=-Tdefmt.x'']"

definition build_main ::
  "('f, 'w) build_fs \<Rightarrow> (path \<Rightarrow> rstr) \<Rightarrow> bytes \<Rightarrow> path option \<Rightarrow> 'w \<Rightarrow> (build_panic + rstr list) \<times> 'w" where
  "build_main fs display memory_x out_dir w =
    (case out_dir of
       None \<Rightarrow> (Inl No_out_dir, w)
     | Some out \<Rightarrow>
         (case bf_create fs (file_in out (lit ''memory.x'')) w of
            (Inl e, w1) \<Rightarrow> (Inl (Not_created e), w1)
          | (Inr f, w1) \<Rightarrow>
              (case bf_write_all fs f memory_x w1 of
                 (Inl e, w2) \<Rightarrow> (Inl (Not_written e), w2)
               | (Inr _, w2) \<Rightarrow> (Inr (cargo_lines (display out)), w2))))"

text \<open>The linker is sent only to a directory in which the whole memory map has been written.\<close>

lemma link_search_has_memory_map:
  "build_main fs display memory_x out_dir w = (Inr ls, w') \<longleftrightarrow>
   (\<exists>out f w1. out_dir = Some out \<and> ls = cargo_lines (display out)
      \<and> bf_create fs (file_in out (lit ''memory.x'')) w = (Inr f, w1)
      \<and> bf_write_all fs f memory_x w1 = (Inr (), w'))"
  by (auto simp: build_main_def split: option.splits prod.splits sum.splits)

end
