(* ===== verification/Spec2Isabelle.thy ===== *)
theory Spec2Isabelle
  imports LeaseSession LeaseContention LockContention Deployment Firmware Suite Expect Probe Instrument Cli Build
begin

text \<open>
  A model of banc, a framework for tests that run on real hardware, and what makes it correct.

  The program. A rig is a bench with a device under test, assistants (boards that drive and
  watch its pins) and instruments, described by a configuration file. A test process finds
  the configuration, takes the rig for itself, by a lock file or by a lease of a daemon on
  the network, connects to the nodes, runs its trials with retries, and leaves evidence and
  result records behind. A scenario may have a device half that runs as a child process. The
  command-line tool reports who holds a rig and whether it is sound; the reference assistant
  is firmware that serves pins over a message protocol.

  How the theories model it. Rust functions are HOL functions with the same branches; a
  \<open>Result\<close> is a sum with \<open>Inl\<close> for the error, a panic that the code can reach is an error value
  or \<open>None\<close>, an enum is a datatype, a struct a record, an integer a word of its width.
  Effects are an explicit state: a stream with its faults, a world handed to operations that
  are fields of a record. Code that is not in the repository (the postcard encoding, TOML and
  JSON, the operating system's files and locks, the debug library, the pins of the
  microcontroller) enters as arguments; what is used of it is stated as a locale or a named
  predicate and instantiated by something concrete.

  \<^item> \<open>Prelude\<close>, \<open>Timing\<close>, \<open>Exclusion\<close>: fallible results, bytes, text with its UTF-8 bytes and lossy
    decoding, trimming and number formats; instants, durations and the retry loop against a
    deadline (locale \<open>timed_world\<close>); the contract of a resource with at most one holder
    (locale \<open>exclusive\<close>), which both the lease daemon and the lock file meet.
  \<^item> \<open>Framing\<close>, \<open>Handshake\<close> (\<open>banc-host/src/net/mod.rs\<close>): length-prefixed frames, the token
    comparison, both halves of the handshake. Round trip, the cap on frames, agreement.
  \<^item> \<open>LeaseServer\<close>, \<open>LeaseSystem\<close>, \<open>LeaseClient\<close> (\<open>banc-host/src/net/lease.rs\<close>): the server's handler
    and connection loop; its composition with any number of clients as a step relation over
    reachable states, with replies that are delayed or lost; the client's connect, acquire,
    renewal, release and drop. Of two runners that both hold the rig as far as they know, one
    is out for good; the server that expires leases lazily implements one that expires
    them eagerly; a timely holder keeps the rig, a silent one is displaced; strangers are
    powerless; acquiring ends; dropping the handle ends and frees the rig; connections have
    bounded waits; what a broken connection costs. The loopback world has one latency for every
    round trip, and a round trip that reaches the I/O timeout of the connection fails.
  \<^item> \<open>LeaseContention\<close>: an acquire that waits for a lease whose holder has died. It takes over
    within a pause (or a connect, when that is slower) and a round trip of the lease's end, or
    gives up at its deadline; over a network slower than the I/O timeout it ends with an error.
  \<^item> \<open>LeaseSession\<close>: the client's and the server's half of a whole session, joined by the bytes
    that each writes and the other reads. Every request gets the handler's reply, which is what
    the loopback world of \<open>LeaseClient\<close> takes for granted; a wrong token reaches nothing.
  \<^item> \<open>Config\<close> (\<open>banc-host/src/config.rs\<close>): search, loading, validation. Validation decides a
    declarative well-formedness, and its error names a defect.
  \<^item> \<open>FileLock\<close>, \<open>Rig\<close> (\<open>banc-host/src/rig.rs\<close>): the lock file over operating-system calls, with a
    kernel model as the instance; acquisition over either arbiter, tokens and paths.
  \<^item> \<open>LockContention\<close>: the same lock on a machine where things happen while a process waits for
    it. A process that waits takes over from a holder that dies.
  \<^item> \<open>Icd\<close> (\<open>banc-icd/src/lib.rs\<close>), \<open>Node\<close> (\<open>banc-host/src/node.rs\<close>): message types, paths and tables;
    connecting to a node and identifying it.
  \<^item> \<open>Evidence\<close>, \<open>Results\<close>, \<open>Runner\<close>, \<open>Device\<close>, \<open>Expect\<close> (the files of the same names in
    \<open>banc-host/src\<close>): the bounded log and its file, the records, trials with retries and one
    shared acquisition, the device half with the suspension point of its verdict and the
    suite of paired scenarios it makes for the runner (a passing attempt has a child of its
    own that passed), and event expectations driven by wake-ups (locale \<open>event_source\<close>, interpreted for channels).
  \<^item> \<open>Suite\<close>: the runner on a machine, with the acquisition of \<open>Rig\<close> behind it. Test bodies run
    only on a rig that is held; an acquisition whose deadline panics unwinds its trial and
    leaves the shared cell empty.
  \<^item> \<open>Probe\<close> (\<open>banc-probe/src\<close>): both transports; one turn of the thread that owns the probe; from
    bytes to lines; the health of a capture.
  \<^item> \<open>Instrument\<close> (\<open>banc-instrument/src/lib.rs\<close>): the sweep over set points.
  \<^item> \<open>Assistant\<close> (\<open>banc-assistant/src/main.rs\<close>): the pin table, the request handlers, and the monitor
    tasks, kept by the await at which they are suspended, so that a step is what runs between
    two awaits and every interleaving of tasks is a sequence of steps.
  \<^item> \<open>Firmware\<close>: the same firmware behind its dispatch table and main loop. The books of replies
    and debts balance: no request is answered twice, none is forgotten unless a message is lost;
    a reset is answered before it is carried out; a host that waits for its answers always
    gets a task.
  \<^item> \<open>Deployment\<close>: the host's path from a configuration entry to a node, run against boards that
    are states of the firmware. An entry pinned by its serial reaches exactly its board.
  \<^item> \<open>Cli\<close> (\<open>banc/src/bin/banc.rs\<close>): every command with its output and exit code.
  \<^item> \<open>Build\<close> (\<open>banc-assistant/build.rs\<close>): the firmware's build script.

  Termination and bounds. Recursion over data and searches terminate by measures. The loops
  that wait on the world (\<open>retry_loop\<close>, \<open>take_events\<close>) are partial functions whose value \<open>None\<close> is
  not returning; that acquisition returns is proved from the clock running and no more. The
  renewal loop runs over the list of its wake-ups, the timeout of an expectation likewise, and
  \<open>run_attempts\<close> has the configured number of attempts as fuel, which its loop never exceeds.
  The doctor's counters are 32 bits wide, which bounds the number of configured elements. An
  instant holds 2^63 seconds; a deadline beyond them, which only the timeout taken from the
  environment can lead to, is the panic of the code, an error value here.

  What modelling showed. Two runners can both hold the rig as far as they know, since losing a
  lease stops nobody; the daemon then backs at most one (\<open>one_of_two_holders_is_out\<close>). After a
  broken connection the lease client is refused by its own
  lease and lets it run out (\<open>broken_connection_loses_the_lease\<close>). A verdict whose future is
  dropped forgets the child (\<open>abandoned_verdict_forgets_the_child\<close>). A flash or a second capture
  ends a running capture without an error, so that lost observation passes for silence
  (\<open>lost_capture_is_reported\<close>). A timeout meant to wait for ever panics
  (\<open>enormous_timeout_hands_out_nothing\<close>). Tests whose names differ only in punctuation overwrite
  each other's evidence (\<open>evidence_file_stays_inside\<close>). A negative exit code of probe-rs becomes success
  (\<open>negative_status_is_success\<close>).

  Not modelled. The crate roots only declare modules and re-export. The macros of the message
  protocol (schema hashes, keys, the encoding of requests and replies) and the test harness
  (selection and reporting of trials) are third-party code; of the generated dispatcher the
  table and what the library documents for each kind of handler are modelled. Threads of the
  operating system appear as interleavings at the calls that communicate; memory ordering and
  poisoned locks outside the lease server do not appear. The firmware's memory layout, the
  set-up of its USB stack and the length of the wait before a reset are left out.
\<close>

end
